(* ===== verification/Prelude.thy ===== *)
theory Prelude
  imports Main "HOL-Library.Word"
begin

text \<open>
  What every component shares: the machine words of the C sources, byte strings and their
  little and big endian readings with the bit-level lemmas that make loads and stores
  inverse, rotations as pairs of shifts, and lists: in-place updates by index, byte strings cut
  into blocks, concatenations of pieces of one length. The lemmas on byte order are collected
  in \<open>byte_simps\<close>.
\<close>

unbundle bit_operations_syntax

type_synonym u8 = "8 word"
type_synonym u16 = "16 word"
type_synonym u32 = "32 word"
type_synonym u64 = "64 word"

named_theorems byte_simps

fun le_load :: "u8 list \<Rightarrow> 'a::len word" where
  "le_load [] = 0"
| "le_load (b # bs) = ucast b OR push_bit 8 (le_load bs)"

fun le_store :: "nat \<Rightarrow> 'a::len word \<Rightarrow> u8 list" where
  "le_store 0 w = []"
| "le_store (Suc n) w = ucast w # le_store n (drop_bit 8 w)"

definition be_load :: "u8 list \<Rightarrow> 'a::len word" where
  "be_load bs = le_load (rev bs)"

definition be_store :: "nat \<Rightarrow> 'a::len word \<Rightarrow> u8 list" where
  "be_store n w = rev (le_store n w)"

lemma length_le_store [simp]: "length (le_store n w) = n"
  by (induction n arbitrary: w) auto

lemma length_be_store [simp]: "length (be_store n w) = n"
  by (simp add: be_store_def)

lemma le_store_nth [byte_simps]: "i < n \<Longrightarrow> le_store n w ! i = ucast (drop_bit (8 * i) w)"
proof (induction n arbitrary: w i)
  case (Suc n)
  then show ?case by (cases i) (simp_all add: add.commute)
qed simp

lemma bit_le_load [byte_simps]:
  "bit (le_load bs :: 'a::len word) k \<longleftrightarrow>
     k < LENGTH('a) \<and> k < 8 * length bs \<and> bit (bs ! (k div 8)) (k mod 8)"
proof (induction bs arbitrary: k)
  case (Cons b bs)
  show ?case
  proof (cases "k < 8")
    case True
    then show ?thesis by (auto simp: bit_simps)
  next
    case False
    then have k: "k = 8 + (k - 8)" by simp
    have "k div 8 = Suc ((k - 8) div 8)" "k mod 8 = (k - 8) mod 8"
      using False by (auto simp: le_div_geq le_mod_geq)
    moreover have "\<not> bit b k" using False bit_imp_le_length [of b k] by auto
    ultimately show ?thesis using False Cons.IH [of "k - 8"]
      by (auto simp: bit_simps)
  qed
qed simp

lemma bit_le_store_nth:
  "i < n \<Longrightarrow> bit (le_store n w ! i) k \<longleftrightarrow> k < 8 \<and> bit w (8 * i + k)"
  by (simp add: le_store_nth bit_simps)

lemma le_load_le_store [byte_simps]: "le_load (le_store n w) = take_bit (8 * n) w"
proof (rule bit_word_eqI)
  fix k :: nat
  have "k mod 8 + 8 * (k div 8) = k" by simp
  then show "bit (le_load (le_store n w) :: 'a word) k = bit (take_bit (8 * n) w) k" if "k < LENGTH('a)"
    using that by (cases "k < 8 * n") (auto simp: bit_le_load bit_le_store_nth bit_take_bit_iff add.commute)
qed

lemma le_store_le_load [byte_simps]:
  assumes "n = length bs" and "8 * length bs \<le> LENGTH('a::len)"
  shows "le_store n (le_load bs :: 'a word) = bs"
proof (rule nth_equalityI)
  fix i assume "i < length (le_store n (le_load bs :: 'a word))"
  then have i: "i < length bs" using assms by simp
  show "le_store n (le_load bs :: 'a word) ! i = bs ! i"
  proof (rule bit_word_eqI)
    fix k :: nat assume "k < LENGTH(8)"
    then show "bit (le_store n (le_load bs :: 'a word) ! i) k = bit (bs ! i) k"
      using i assms by (auto simp: bit_le_store_nth bit_le_load)
  qed
qed (use assms in simp)

text \<open>Bitwise exclusive or of two byte strings commutes with loading them.\<close>
definition xor_list :: "'a::len word list \<Rightarrow> 'a word list \<Rightarrow> 'a word list" where
  "xor_list xs ys = map2 (XOR) xs ys"

lemma length_xor_list [simp]: "length (xor_list xs ys) = min (length xs) (length ys)"
  by (simp add: xor_list_def)

lemma nth_xor_list [simp]:
  "i < length xs \<Longrightarrow> i < length ys \<Longrightarrow> xor_list xs ys ! i = xs ! i XOR ys ! i"
  by (simp add: xor_list_def)

lemma le_load_xor_list:
  assumes "length xs = length ys"
  shows "le_load (xor_list xs ys) = (le_load xs XOR le_load ys :: 'a::len word)"
proof (rule bit_word_eqI)
  fix k :: nat assume "k < LENGTH('a)"
  then show "bit (le_load (xor_list xs ys) :: 'a word) k = bit (le_load xs XOR le_load ys :: 'a word) k"
    using assms by (cases "k < 8 * length xs") (auto simp: bit_le_load bit_xor_iff div_less_iff_less_mult)
qed

lemma bit_word_rotl_cases:
  fixes x :: "'a::len word"
  assumes "n < LENGTH('a)" and "s < LENGTH('a)"
  shows "bit (word_rotl s x) n = (if s \<le> n then bit x (n - s) else bit x (LENGTH('a) + n - s))"
proof (cases "s \<le> n")
  case True
  then have "(n + LENGTH('a) - s) mod LENGTH('a) = n - s"
    using assms by (metis Nat.add_diff_assoc2 less_imp_diff_less mod_add_self2 mod_less)
  then show ?thesis using True assms by (simp add: bit_word_rotl_iff)
next
  case False
  then show ?thesis using assms by (simp add: bit_word_rotl_iff add.commute)
qed

lemma shift_or_rotl:
  fixes x :: "'a::len word"
  assumes "0 < s" and "s < LENGTH('a)"
  shows "push_bit s x OR drop_bit (LENGTH('a) - s) x = word_rotl s x"
proof (rule bit_word_eqI)
  fix n assume n: "n < LENGTH('a)"
  have "\<not> bit x (LENGTH('a) - s + n)" if "s \<le> n"
    using that assms bit_imp_le_length [of x "LENGTH('a) - s + n"] by auto
  then show "bit (push_bit s x OR drop_bit (LENGTH('a) - s) x) n = bit (word_rotl s x) n"
    using n assms
    by (auto simp: bit_word_rotl_cases bit_or_iff bit_push_bit_iff bit_drop_bit_eq add.commute)
qed

lemma word_rotr_as_rotl:
  fixes x :: "'a::len word"
  assumes "0 < n" and "n < LENGTH('a)"
  shows "word_rotr n x = word_rotl (LENGTH('a) - n) x"
proof (rule bit_word_eqI)
  fix k assume "k < LENGTH('a)"
  then show "bit (word_rotr n x) k = bit (word_rotl (LENGTH('a) - n) x) k"
    using assms by (simp add: bit_word_rotr_iff bit_word_rotl_iff add.commute)
qed

lemma word_rotl_mod: "word_rotl (n mod LENGTH('a)) x = word_rotl n (x :: 'a::len word)"
  by (rule bit_word_eqI) (simp add: bit_word_rotl_iff)

lemma word_rotl_zero: "word_rotl 0 x = x"
  by (rule bit_word_eqI) (simp add: bit_word_rotl_iff)

section \<open>Lists\<close>

lemma fold_update_map:
  assumes "n \<le> length st"
  shows "fold (\<lambda>i st. st[i := h i (st ! i)]) [0..<n] st =
    map (\<lambda>i. if i < n then h i (st ! i) else st ! i) [0..<length st]"
  using assms
proof (induction n)
  case 0
  then show ?case by (simp add: map_nth)
next
  case (Suc n)
  then show ?case by (auto intro!: nth_equalityI simp: nth_list_update)
qed

lemma add_complement_mod: "0 < k \<Longrightarrow> (n + (k - n mod k)) mod k = 0" for k n :: nat
proof -
  assume "0 < k"
  then have "n mod k < k" by simp
  moreover have "n = k * (n div k) + n mod k" by simp
  ultimately have "n + (k - n mod k) = k * Suc (n div k)" unfolding mult_Suc_right by linarith
  then show "(n + (k - n mod k)) mod k = 0" by simp
qed

text \<open>A loop that does two steps per turn.\<close>

lemma fold_pairs:
  assumes "\<And>r s. f r s = g (Suc r) (g r s)"
  shows "fold f (map (\<lambda>i. k + 2 * i) [0..<n]) s = fold g [k..<k + 2 * n] s"
  by (induction n arbitrary: s) (simp_all add: assms)

lemma le_load_append_zeros: "le_load (xs @ replicate n 0) = (le_load xs :: 'a::len word)"
proof (rule bit_word_eqI)
  fix k assume "k < LENGTH('a)"
  then show "bit (le_load (xs @ replicate n 0) :: 'a word) k = bit (le_load xs :: 'a word) k"
    by (cases "k < 8 * length xs") (auto simp: bit_le_load nth_append div_less_iff_less_mult)
qed

lemma length_concat_fixed: "\<forall>x \<in> set xss. length x = k \<Longrightarrow> length (concat xss) = k * length xss"
  by (induction xss) auto

lemma nth_concat_fixed:
  "\<forall>x \<in> set xss. length x = k \<Longrightarrow> i < k * length xss \<Longrightarrow>
   concat xss ! i = xss ! (i div k) ! (i mod k)"
proof (induction xss arbitrary: i)
  case (Cons x xss)
  show ?case
  proof (cases "i < k")
    case True
    then show ?thesis using Cons.prems by (simp add: nth_append)
  next
    case False
    have k: "0 < k" using Cons.prems(2) by (cases k) auto
    have "i div k = Suc ((i - k) div k)" "i mod k = (i - k) mod k"
      using k False by (simp_all add: le_div_geq le_mod_geq)
    then show ?thesis using False Cons by (simp add: nth_append)
  qed
qed simp

text \<open>A byte string cut into pieces of \<open>k\<close> bytes; the last piece may be shorter.\<close>

fun chunks :: "nat \<Rightarrow> 'a list \<Rightarrow> 'a list list" where
  "chunks k xs = (if xs = [] \<or> k = 0 then [] else take k xs # chunks k (drop k xs))"

declare chunks.simps [simp del]

lemma chunks_Nil [simp]: "chunks k [] = []"
  by (simp add: chunks.simps)

lemma chunks_short: "xs \<noteq> [] \<Longrightarrow> length xs \<le> k \<Longrightarrow> chunks k xs = [xs]"
  by (subst chunks.simps) (cases xs; auto)

lemma chunks_append:
  "0 < k \<Longrightarrow> length xs = k \<Longrightarrow> chunks k (xs @ ys) = xs # chunks k ys"
  by (subst chunks.simps) auto

section \<open>Unrolled code\<close>

text \<open>
  An unrolled loop is a list of calls, run one after the other. Two such lists compute the same
  if their calls agree, one by one, on the states that satisfy an invariant \<open>P\<close>.
\<close>

definition run_calls :: "('s \<Rightarrow> 's) list \<Rightarrow> 's \<Rightarrow> 's" where
  "run_calls fs s = fold (\<lambda>f s. f s) fs s"

definition same_calls :: "('s \<Rightarrow> bool) \<Rightarrow> ('s \<Rightarrow> 's) list \<Rightarrow> ('s \<Rightarrow> 's) list \<Rightarrow> bool" where
  "same_calls P = list_all2 (\<lambda>f g. \<forall>s. P s \<longrightarrow> f s = g s \<and> P (g s))"

lemma same_calls_run: "same_calls P fs gs \<Longrightarrow> P s \<Longrightarrow> run_calls fs s = run_calls gs s"
proof (induction fs arbitrary: gs s)
  case (Cons f fs)
  then obtain g gs' where "gs = g # gs'" "f s = g s" "P (g s)" "same_calls P fs gs'"
    by (auto simp: same_calls_def list_all2_Cons1)
  then show ?case using Cons.IH [of gs' "g s"] by (simp add: run_calls_def)
qed (simp add: same_calls_def)

lemma same_calls_append:
  "same_calls P fs gs \<Longrightarrow> same_calls P fs' gs' \<Longrightarrow> same_calls P (fs @ fs') (gs @ gs')"
  by (simp add: same_calls_def list_all2_appendI)

lemma run_calls_map: "run_calls (map f js) s = fold f js s"
  by (simp add: run_calls_def fold_map comp_def)

lemma upt_join: "i \<le> j \<Longrightarrow> j \<le> k \<Longrightarrow> [i..<k] = [i..<j] @ [j..<k]"
  by (metis le_add_diff_inverse upt_add_eq_append)

lemma upt_16: "[0..<16] = [0, 1, 2, 3, 4, 5, 6, 7, 8, 9, 10, 11, 12, 13, 14, 15]"
  by (simp add: upt_conv_Cons)

end
