(* ===== verification/Keccak_Perm.thy ===== *)
theory Keccak_Perm
  imports Prelude
begin

text \<open>
  The Keccak permutations of the pool.

  Three implementations are modelled as they are written: the loop form of
  \<^verbatim>\<open>src/src/crypto/cn/crypto/keccak.c\<close> (\<open>keccakf\<close>), the unrolled two-round form
  of \<^verbatim>\<open>src/src/crypto/cn/ethash/keccakf1600.c\<close> (\<open>ethash_keccakf1600\<close>) and its
  32-bit sibling \<^verbatim>\<open>src/src/crypto/cn/ethash/keccakf800.c\<close> (\<open>ethash_keccakf800\<close>).
  The reference is \<open>keccak_p\<close>, the permutation of FIPS 202 over lanes of any width:
  its rotation offsets come from the walk \<open>(x, y) := (y, 2x + 3y)\<close> and its round
  constants from the degree-eight feedback shift register, not from tables. The theory
  shows that each implementation computes the reference, so that the two 64-bit ones
  agree on every state, and that each of them is a length-keeping function on
  25-lane states.
\<close>

unbundle bit_operations_syntax

section \<open>The reference permutation\<close>

text \<open>Lane \<open>(x, y)\<close> of a state is element \<open>x + 5 * y\<close> of its list.\<close>

definition keccak_C :: "'a::len word list \<Rightarrow> nat \<Rightarrow> 'a word" where
  "keccak_C A x = A ! x XOR A ! (x + 5) XOR A ! (x + 10) XOR A ! (x + 15) XOR A ! (x + 20)"

definition keccak_D :: "'a::len word list \<Rightarrow> nat \<Rightarrow> 'a word" where
  "keccak_D A x = keccak_C A ((x + 4) mod 5) XOR word_rotl 1 (keccak_C A ((x + 1) mod 5))"

definition keccak_theta :: "'a::len word list \<Rightarrow> 'a word list" where
  "keccak_theta A = map (\<lambda>k. A ! k XOR keccak_D A (k mod 5)) [0..<25]"

text \<open>The offsets of \<open>rho\<close>: the walk visits lane number \<open>x + 5 * y\<close> at step \<open>t\<close>.\<close>

fun rho_walk :: "nat \<Rightarrow> nat \<Rightarrow> nat \<Rightarrow> nat \<Rightarrow> nat list \<Rightarrow> nat list" where
  "rho_walk 0 t x y off = off"
| "rho_walk (Suc n) t x y off =
     rho_walk n (t + 1) y ((2 * x + 3 * y) mod 5)
       (off[x + 5 * y := (t + 1) * (t + 2) div 2])"

definition rho_offsets :: "nat list" where
  "rho_offsets = rho_walk 24 0 1 0 (replicate 25 0)"

definition keccak_rho :: "'a::len word list \<Rightarrow> 'a word list" where
  "keccak_rho A = map (\<lambda>k. word_rotl (rho_offsets ! k) (A ! k)) [0..<25]"

definition keccak_pi :: "'a::len word list \<Rightarrow> 'a word list" where
  "keccak_pi A = map (\<lambda>k. A ! ((k mod 5 + 3 * (k div 5)) mod 5 + 5 * (k mod 5))) [0..<25]"

definition keccak_chi :: "'a::len word list \<Rightarrow> 'a word list" where
  "keccak_chi A = map (\<lambda>k. A ! k XOR
     (NOT (A ! ((k mod 5 + 1) mod 5 + 5 * (k div 5))) AND
      A ! ((k mod 5 + 2) mod 5 + 5 * (k div 5)))) [0..<25]"

text \<open>
  One step of the shift register of FIPS 202 (Algorithm 5) on a state of eight bits,
  and the round constant of round \<open>ir\<close>: bit \<open>2 ^ j - 1\<close> is \<open>rc (j + 7 * ir)\<close>, for
  as many \<open>j\<close> as the lane width \<open>2 ^ l\<close> has (\<open>j \<le> l\<close>).
\<close>

fun rc_step :: "bool list \<Rightarrow> bool list" where
  "rc_step R = (let R = False # R; o8 = R ! 8 in
     take 8 (R[0 := (R ! 0 \<noteq> o8), 4 := (R ! 4 \<noteq> o8), 5 := (R ! 5 \<noteq> o8), 6 := (R ! 6 \<noteq> o8)]))"

fun rc_stream :: "nat \<Rightarrow> bool list \<Rightarrow> bool list" where
  "rc_stream 0 R = []"
| "rc_stream (Suc n) R = hd R # rc_stream n (rc_step R)"

definition rc_bits :: "bool list" where
  "rc_bits = rc_stream 255 [True, False, False, False, False, False, False, False]"

definition keccak_rc :: "nat \<Rightarrow> nat \<Rightarrow> 'a::len word" where
  "keccak_rc l ir =
     fold (\<lambda>j w. if rc_bits ! ((j + 7 * ir) mod 255) then set_bit (2 ^ j - 1) w else w)
       [0..<Suc l] 0"

definition keccak_round :: "'a::len word \<Rightarrow> 'a word list \<Rightarrow> 'a word list" where
  "keccak_round rc A = (let B = keccak_chi (keccak_pi (keccak_rho (keccak_theta A)))
     in B[0 := B ! 0 XOR rc])"

definition keccak_p :: "nat \<Rightarrow> nat \<Rightarrow> 'a::len word list \<Rightarrow> 'a word list" where
  "keccak_p l rounds A = fold (\<lambda>ir A. keccak_round (keccak_rc l ir) A) [0..<rounds] A"

section \<open>The loop form: \<open>cn/crypto/keccak.c\<close>\<close>

definition ROTL64 :: "u64 \<Rightarrow> nat \<Rightarrow> u64" where
  "ROTL64 x y = push_bit y x OR drop_bit (64 - y) x"

definition keccakf_rndc :: "u64 list" where
  "keccakf_rndc =
   [0x0000000000000001, 0x0000000000008082, 0x800000000000808a,
    0x8000000080008000, 0x000000000000808b, 0x0000000080000001,
    0x8000000080008081, 0x8000000000008009, 0x000000000000008a,
    0x0000000000000088, 0x0000000080008009, 0x000000008000000a,
    0x000000008000808b, 0x800000000000008b, 0x8000000000008089,
    0x8000000000008003, 0x8000000000008002, 0x8000000000000080,
    0x000000000000800a, 0x800000008000000a, 0x8000000080008081,
    0x8000000000008080, 0x0000000080000001, 0x8000000080008008]"

definition keccakf_rotc :: "nat list" where
  "keccakf_rotc = [1,  3,  6,  10, 15, 21, 28, 36, 45, 55, 2,  14,
                   27, 41, 56, 8,  25, 43, 62, 18, 39, 61, 20, 44]"

definition keccakf_piln :: "nat list" where
  "keccakf_piln = [10, 7,  11, 17, 18, 3, 5,  16, 8,  21, 24, 4,
                   15, 23, 19, 13, 12, 2, 20, 14, 22, 9,  6,  1]"

text \<open>The three array loops of one round of \<open>keccakf\<close>; \<open>st\<close> is updated in place.\<close>

definition keccakf_theta :: "u64 list \<Rightarrow> u64 list" where
  "keccakf_theta st =
    (let bc = map (\<lambda>i. st ! i XOR st ! (i + 5) XOR st ! (i + 10) XOR st ! (i + 15) XOR
                       st ! (i + 20)) [0..<5]
     in fold (\<lambda>i st. let t = bc ! ((i + 4) mod 5) XOR ROTL64 (bc ! ((i + 1) mod 5)) 1
          in fold (\<lambda>j st. st[j + i := st ! (j + i) XOR t]) [0, 5, 10, 15, 20] st) [0..<5] st)"

definition keccakf_rho_pi :: "u64 list \<Rightarrow> u64 list" where
  "keccakf_rho_pi st =
     snd (fold (\<lambda>i (t, st). let j = keccakf_piln ! i; bc0 = st ! j
       in (bc0, st[j := ROTL64 t (keccakf_rotc ! i)])) [0..<24] (st ! 1, st))"

definition keccakf_chi :: "u64 list \<Rightarrow> u64 list" where
  "keccakf_chi st =
     fold (\<lambda>j st. let bc = map (\<lambda>i. st ! (j + i)) [0..<5]
       in fold (\<lambda>i st. st[j + i := st ! (j + i) XOR
            (NOT (bc ! ((i + 1) mod 5)) AND bc ! ((i + 2) mod 5))]) [0..<5] st)
       [0, 5, 10, 15, 20] st"

definition keccakf :: "u64 list \<Rightarrow> nat \<Rightarrow> u64 list" where
  "keccakf st rounds =
     fold (\<lambda>round st. let st = keccakf_chi (keccakf_rho_pi (keccakf_theta st))
       in st[0 := st ! 0 XOR keccakf_rndc ! round]) [0..<rounds] st"

section \<open>The unrolled form: \<open>cn/ethash/keccakf1600.c\<close>\<close>

definition keccakf1600_rol :: "u64 \<Rightarrow> nat \<Rightarrow> u64" where
  "keccakf1600_rol x s = push_bit s x OR drop_bit (64 - s) x"

definition keccakf1600_round_constants :: "u64 list" where
  "keccakf1600_round_constants =
   [0x0000000000000001, 0x0000000000008082, 0x800000000000808a, 0x8000000080008000,
    0x000000000000808b, 0x0000000080000001, 0x8000000080008081, 0x8000000000008009,
    0x000000000000008a, 0x0000000000000088, 0x0000000080008009, 0x000000008000000a,
    0x000000008000808b, 0x800000000000008b, 0x8000000000008089, 0x8000000000008003,
    0x8000000000008002, 0x8000000000000080, 0x000000000000800a, 0x800000008000000a,
    0x8000000080008081, 0x8000000000008080, 0x0000000080000001, 0x8000000080008008]"

text \<open>The two rounds of the loop body: from the \<open>A\<close> lanes to the \<open>E\<close> lanes and back.\<close>

definition keccakf1600_round_AE :: "nat \<Rightarrow> u64 list \<Rightarrow> u64 list" where
  "keccakf1600_round_AE round state =
    (let Aba = state ! 0;
         Abe = state ! 1;
         Abi = state ! 2;
         Abo = state ! 3;
         Abu = state ! 4;
         Aga = state ! 5;
         Age = state ! 6;
         Agi = state ! 7;
         Ago = state ! 8;
         Agu = state ! 9;
         Aka = state ! 10;
         Ake = state ! 11;
         Aki = state ! 12;
         Ako = state ! 13;
         Aku = state ! 14;
         Ama = state ! 15;
         Ame = state ! 16;
         Ami = state ! 17;
         Amo = state ! 18;
         Amu = state ! 19;
         Asa = state ! 20;
         Ase = state ! 21;
         Asi = state ! 22;
         Aso = state ! 23;
         Asu = state ! 24;
         Ba = Aba XOR Aga XOR Aka XOR Ama XOR Asa;
         Be = Abe XOR Age XOR Ake XOR Ame XOR Ase;
         Bi = Abi XOR Agi XOR Aki XOR Ami XOR Asi;
         Bo = Abo XOR Ago XOR Ako XOR Amo XOR Aso;
         Bu = Abu XOR Agu XOR Aku XOR Amu XOR Asu;
         Da = Bu XOR keccakf1600_rol Be 1;
         De = Ba XOR keccakf1600_rol Bi 1;
         Di = Be XOR keccakf1600_rol Bo 1;
         Do = Bi XOR keccakf1600_rol Bu 1;
         Du = Bo XOR keccakf1600_rol Ba 1;
         Ba = Aba XOR Da;
         Be = keccakf1600_rol (Age XOR De) 44;
         Bi = keccakf1600_rol (Aki XOR Di) 43;
         Bo = keccakf1600_rol (Amo XOR Do) 21;
         Bu = keccakf1600_rol (Asu XOR Du) 14;
         Eba = Ba XOR (NOT Be AND Bi) XOR keccakf1600_round_constants ! round;
         Ebe = Be XOR (NOT Bi AND Bo);
         Ebi = Bi XOR (NOT Bo AND Bu);
         Ebo = Bo XOR (NOT Bu AND Ba);
         Ebu = Bu XOR (NOT Ba AND Be);
         Ba = keccakf1600_rol (Abo XOR Do) 28;
         Be = keccakf1600_rol (Agu XOR Du) 20;
         Bi = keccakf1600_rol (Aka XOR Da) 3;
         Bo = keccakf1600_rol (Ame XOR De) 45;
         Bu = keccakf1600_rol (Asi XOR Di) 61;
         Ega = Ba XOR (NOT Be AND Bi);
         Ege = Be XOR (NOT Bi AND Bo);
         Egi = Bi XOR (NOT Bo AND Bu);
         Ego = Bo XOR (NOT Bu AND Ba);
         Egu = Bu XOR (NOT Ba AND Be);
         Ba = keccakf1600_rol (Abe XOR De) 1;
         Be = keccakf1600_rol (Agi XOR Di) 6;
         Bi = keccakf1600_rol (Ako XOR Do) 25;
         Bo = keccakf1600_rol (Amu XOR Du) 8;
         Bu = keccakf1600_rol (Asa XOR Da) 18;
         Eka = Ba XOR (NOT Be AND Bi);
         Eke = Be XOR (NOT Bi AND Bo);
         Eki = Bi XOR (NOT Bo AND Bu);
         Eko = Bo XOR (NOT Bu AND Ba);
         Eku = Bu XOR (NOT Ba AND Be);
         Ba = keccakf1600_rol (Abu XOR Du) 27;
         Be = keccakf1600_rol (Aga XOR Da) 36;
         Bi = keccakf1600_rol (Ake XOR De) 10;
         Bo = keccakf1600_rol (Ami XOR Di) 15;
         Bu = keccakf1600_rol (Aso XOR Do) 56;
         Ema = Ba XOR (NOT Be AND Bi);
         Eme = Be XOR (NOT Bi AND Bo);
         Emi = Bi XOR (NOT Bo AND Bu);
         Emo = Bo XOR (NOT Bu AND Ba);
         Emu = Bu XOR (NOT Ba AND Be);
         Ba = keccakf1600_rol (Abi XOR Di) 62;
         Be = keccakf1600_rol (Ago XOR Do) 55;
         Bi = keccakf1600_rol (Aku XOR Du) 39;
         Bo = keccakf1600_rol (Ama XOR Da) 41;
         Bu = keccakf1600_rol (Ase XOR De) 2;
         Esa = Ba XOR (NOT Be AND Bi);
         Ese = Be XOR (NOT Bi AND Bo);
         Esi = Bi XOR (NOT Bo AND Bu);
         Eso = Bo XOR (NOT Bu AND Ba);
         Esu = Bu XOR (NOT Ba AND Be)
     in [Eba, Ebe, Ebi, Ebo, Ebu,
         Ega, Ege, Egi, Ego, Egu,
         Eka, Eke, Eki, Eko, Eku,
         Ema, Eme, Emi, Emo, Emu,
         Esa, Ese, Esi, Eso, Esu])"

definition keccakf1600_round_EA :: "nat \<Rightarrow> u64 list \<Rightarrow> u64 list" where
  "keccakf1600_round_EA round state =
    (let Eba = state ! 0;
         Ebe = state ! 1;
         Ebi = state ! 2;
         Ebo = state ! 3;
         Ebu = state ! 4;
         Ega = state ! 5;
         Ege = state ! 6;
         Egi = state ! 7;
         Ego = state ! 8;
         Egu = state ! 9;
         Eka = state ! 10;
         Eke = state ! 11;
         Eki = state ! 12;
         Eko = state ! 13;
         Eku = state ! 14;
         Ema = state ! 15;
         Eme = state ! 16;
         Emi = state ! 17;
         Emo = state ! 18;
         Emu = state ! 19;
         Esa = state ! 20;
         Ese = state ! 21;
         Esi = state ! 22;
         Eso = state ! 23;
         Esu = state ! 24;
         Ba = Eba XOR Ega XOR Eka XOR Ema XOR Esa;
         Be = Ebe XOR Ege XOR Eke XOR Eme XOR Ese;
         Bi = Ebi XOR Egi XOR Eki XOR Emi XOR Esi;
         Bo = Ebo XOR Ego XOR Eko XOR Emo XOR Eso;
         Bu = Ebu XOR Egu XOR Eku XOR Emu XOR Esu;
         Da = Bu XOR keccakf1600_rol Be 1;
         De = Ba XOR keccakf1600_rol Bi 1;
         Di = Be XOR keccakf1600_rol Bo 1;
         Do = Bi XOR keccakf1600_rol Bu 1;
         Du = Bo XOR keccakf1600_rol Ba 1;
         Ba = Eba XOR Da;
         Be = keccakf1600_rol (Ege XOR De) 44;
         Bi = keccakf1600_rol (Eki XOR Di) 43;
         Bo = keccakf1600_rol (Emo XOR Do) 21;
         Bu = keccakf1600_rol (Esu XOR Du) 14;
         Aba = Ba XOR (NOT Be AND Bi) XOR keccakf1600_round_constants ! (round + 1);
         Abe = Be XOR (NOT Bi AND Bo);
         Abi = Bi XOR (NOT Bo AND Bu);
         Abo = Bo XOR (NOT Bu AND Ba);
         Abu = Bu XOR (NOT Ba AND Be);
         Ba = keccakf1600_rol (Ebo XOR Do) 28;
         Be = keccakf1600_rol (Egu XOR Du) 20;
         Bi = keccakf1600_rol (Eka XOR Da) 3;
         Bo = keccakf1600_rol (Eme XOR De) 45;
         Bu = keccakf1600_rol (Esi XOR Di) 61;
         Aga = Ba XOR (NOT Be AND Bi);
         Age = Be XOR (NOT Bi AND Bo);
         Agi = Bi XOR (NOT Bo AND Bu);
         Ago = Bo XOR (NOT Bu AND Ba);
         Agu = Bu XOR (NOT Ba AND Be);
         Ba = keccakf1600_rol (Ebe XOR De) 1;
         Be = keccakf1600_rol (Egi XOR Di) 6;
         Bi = keccakf1600_rol (Eko XOR Do) 25;
         Bo = keccakf1600_rol (Emu XOR Du) 8;
         Bu = keccakf1600_rol (Esa XOR Da) 18;
         Aka = Ba XOR (NOT Be AND Bi);
         Ake = Be XOR (NOT Bi AND Bo);
         Aki = Bi XOR (NOT Bo AND Bu);
         Ako = Bo XOR (NOT Bu AND Ba);
         Aku = Bu XOR (NOT Ba AND Be);
         Ba = keccakf1600_rol (Ebu XOR Du) 27;
         Be = keccakf1600_rol (Ega XOR Da) 36;
         Bi = keccakf1600_rol (Eke XOR De) 10;
         Bo = keccakf1600_rol (Emi XOR Di) 15;
         Bu = keccakf1600_rol (Eso XOR Do) 56;
         Ama = Ba XOR (NOT Be AND Bi);
         Ame = Be XOR (NOT Bi AND Bo);
         Ami = Bi XOR (NOT Bo AND Bu);
         Amo = Bo XOR (NOT Bu AND Ba);
         Amu = Bu XOR (NOT Ba AND Be);
         Ba = keccakf1600_rol (Ebi XOR Di) 62;
         Be = keccakf1600_rol (Ego XOR Do) 55;
         Bi = keccakf1600_rol (Eku XOR Du) 39;
         Bo = keccakf1600_rol (Ema XOR Da) 41;
         Bu = keccakf1600_rol (Ese XOR De) 2;
         Asa = Ba XOR (NOT Be AND Bi);
         Ase = Be XOR (NOT Bi AND Bo);
         Asi = Bi XOR (NOT Bo AND Bu);
         Aso = Bo XOR (NOT Bu AND Ba);
         Asu = Bu XOR (NOT Ba AND Be)
     in [Aba, Abe, Abi, Abo, Abu,
         Aga, Age, Agi, Ago, Agu,
         Aka, Ake, Aki, Ako, Aku,
         Ama, Ame, Ami, Amo, Amu,
         Asa, Ase, Asi, Aso, Asu])"

definition ethash_keccakf1600 :: "u64 list \<Rightarrow> u64 list" where
  "ethash_keccakf1600 state =
     fold (\<lambda>round state. keccakf1600_round_EA round (keccakf1600_round_AE round state))
       (map (\<lambda>k. 2 * k) [0..<12]) state"

section \<open>The 32-bit form: \<open>cn/ethash/keccakf800.c\<close>\<close>

definition keccakf800_rol :: "u32 \<Rightarrow> nat \<Rightarrow> u32" where
  "keccakf800_rol x s = push_bit s x OR drop_bit (32 - s) x"

definition keccakf800_round_constants :: "u32 list" where
  "keccakf800_round_constants =
   [0x00000001, 0x00008082, 0x0000808A, 0x80008000, 0x0000808B, 0x80000001,
    0x80008081, 0x00008009, 0x0000008A, 0x00000088, 0x80008009, 0x8000000A,
    0x8000808B, 0x0000008B, 0x00008089, 0x00008003, 0x00008002, 0x00000080,
    0x0000800A, 0x8000000A, 0x80008081, 0x00008080]"

definition keccakf800_round_AE :: "nat \<Rightarrow> u32 list \<Rightarrow> u32 list" where
  "keccakf800_round_AE round state =
    (let Aba = state ! 0;
         Abe = state ! 1;
         Abi = state ! 2;
         Abo = state ! 3;
         Abu = state ! 4;
         Aga = state ! 5;
         Age = state ! 6;
         Agi = state ! 7;
         Ago = state ! 8;
         Agu = state ! 9;
         Aka = state ! 10;
         Ake = state ! 11;
         Aki = state ! 12;
         Ako = state ! 13;
         Aku = state ! 14;
         Ama = state ! 15;
         Ame = state ! 16;
         Ami = state ! 17;
         Amo = state ! 18;
         Amu = state ! 19;
         Asa = state ! 20;
         Ase = state ! 21;
         Asi = state ! 22;
         Aso = state ! 23;
         Asu = state ! 24;
         Ba = Aba XOR Aga XOR Aka XOR Ama XOR Asa;
         Be = Abe XOR Age XOR Ake XOR Ame XOR Ase;
         Bi = Abi XOR Agi XOR Aki XOR Ami XOR Asi;
         Bo = Abo XOR Ago XOR Ako XOR Amo XOR Aso;
         Bu = Abu XOR Agu XOR Aku XOR Amu XOR Asu;
         Da = Bu XOR keccakf800_rol Be 1;
         De = Ba XOR keccakf800_rol Bi 1;
         Di = Be XOR keccakf800_rol Bo 1;
         Do = Bi XOR keccakf800_rol Bu 1;
         Du = Bo XOR keccakf800_rol Ba 1;
         Ba = Aba XOR Da;
         Be = keccakf800_rol (Age XOR De) 12;
         Bi = keccakf800_rol (Aki XOR Di) 11;
         Bo = keccakf800_rol (Amo XOR Do) 21;
         Bu = keccakf800_rol (Asu XOR Du) 14;
         Eba = Ba XOR (NOT Be AND Bi) XOR keccakf800_round_constants ! round;
         Ebe = Be XOR (NOT Bi AND Bo);
         Ebi = Bi XOR (NOT Bo AND Bu);
         Ebo = Bo XOR (NOT Bu AND Ba);
         Ebu = Bu XOR (NOT Ba AND Be);
         Ba = keccakf800_rol (Abo XOR Do) 28;
         Be = keccakf800_rol (Agu XOR Du) 20;
         Bi = keccakf800_rol (Aka XOR Da) 3;
         Bo = keccakf800_rol (Ame XOR De) 13;
         Bu = keccakf800_rol (Asi XOR Di) 29;
         Ega = Ba XOR (NOT Be AND Bi);
         Ege = Be XOR (NOT Bi AND Bo);
         Egi = Bi XOR (NOT Bo AND Bu);
         Ego = Bo XOR (NOT Bu AND Ba);
         Egu = Bu XOR (NOT Ba AND Be);
         Ba = keccakf800_rol (Abe XOR De) 1;
         Be = keccakf800_rol (Agi XOR Di) 6;
         Bi = keccakf800_rol (Ako XOR Do) 25;
         Bo = keccakf800_rol (Amu XOR Du) 8;
         Bu = keccakf800_rol (Asa XOR Da) 18;
         Eka = Ba XOR (NOT Be AND Bi);
         Eke = Be XOR (NOT Bi AND Bo);
         Eki = Bi XOR (NOT Bo AND Bu);
         Eko = Bo XOR (NOT Bu AND Ba);
         Eku = Bu XOR (NOT Ba AND Be);
         Ba = keccakf800_rol (Abu XOR Du) 27;
         Be = keccakf800_rol (Aga XOR Da) 4;
         Bi = keccakf800_rol (Ake XOR De) 10;
         Bo = keccakf800_rol (Ami XOR Di) 15;
         Bu = keccakf800_rol (Aso XOR Do) 24;
         Ema = Ba XOR (NOT Be AND Bi);
         Eme = Be XOR (NOT Bi AND Bo);
         Emi = Bi XOR (NOT Bo AND Bu);
         Emo = Bo XOR (NOT Bu AND Ba);
         Emu = Bu XOR (NOT Ba AND Be);
         Ba = keccakf800_rol (Abi XOR Di) 30;
         Be = keccakf800_rol (Ago XOR Do) 23;
         Bi = keccakf800_rol (Aku XOR Du) 7;
         Bo = keccakf800_rol (Ama XOR Da) 9;
         Bu = keccakf800_rol (Ase XOR De) 2;
         Esa = Ba XOR (NOT Be AND Bi);
         Ese = Be XOR (NOT Bi AND Bo);
         Esi = Bi XOR (NOT Bo AND Bu);
         Eso = Bo XOR (NOT Bu AND Ba);
         Esu = Bu XOR (NOT Ba AND Be)
     in [Eba, Ebe, Ebi, Ebo, Ebu,
         Ega, Ege, Egi, Ego, Egu,
         Eka, Eke, Eki, Eko, Eku,
         Ema, Eme, Emi, Emo, Emu,
         Esa, Ese, Esi, Eso, Esu])"

definition keccakf800_round_EA :: "nat \<Rightarrow> u32 list \<Rightarrow> u32 list" where
  "keccakf800_round_EA round state =
    (let Eba = state ! 0;
         Ebe = state ! 1;
         Ebi = state ! 2;
         Ebo = state ! 3;
         Ebu = state ! 4;
         Ega = state ! 5;
         Ege = state ! 6;
         Egi = state ! 7;
         Ego = state ! 8;
         Egu = state ! 9;
         Eka = state ! 10;
         Eke = state ! 11;
         Eki = state ! 12;
         Eko = state ! 13;
         Eku = state ! 14;
         Ema = state ! 15;
         Eme = state ! 16;
         Emi = state ! 17;
         Emo = state ! 18;
         Emu = state ! 19;
         Esa = state ! 20;
         Ese = state ! 21;
         Esi = state ! 22;
         Eso = state ! 23;
         Esu = state ! 24;
         Ba = Eba XOR Ega XOR Eka XOR Ema XOR Esa;
         Be = Ebe XOR Ege XOR Eke XOR Eme XOR Ese;
         Bi = Ebi XOR Egi XOR Eki XOR Emi XOR Esi;
         Bo = Ebo XOR Ego XOR Eko XOR Emo XOR Eso;
         Bu = Ebu XOR Egu XOR Eku XOR Emu XOR Esu;
         Da = Bu XOR keccakf800_rol Be 1;
         De = Ba XOR keccakf800_rol Bi 1;
         Di = Be XOR keccakf800_rol Bo 1;
         Do = Bi XOR keccakf800_rol Bu 1;
         Du = Bo XOR keccakf800_rol Ba 1;
         Ba = Eba XOR Da;
         Be = keccakf800_rol (Ege XOR De) 12;
         Bi = keccakf800_rol (Eki XOR Di) 11;
         Bo = keccakf800_rol (Emo XOR Do) 21;
         Bu = keccakf800_rol (Esu XOR Du) 14;
         Aba = Ba XOR (NOT Be AND Bi) XOR keccakf800_round_constants ! (round + 1);
         Abe = Be XOR (NOT Bi AND Bo);
         Abi = Bi XOR (NOT Bo AND Bu);
         Abo = Bo XOR (NOT Bu AND Ba);
         Abu = Bu XOR (NOT Ba AND Be);
         Ba = keccakf800_rol (Ebo XOR Do) 28;
         Be = keccakf800_rol (Egu XOR Du) 20;
         Bi = keccakf800_rol (Eka XOR Da) 3;
         Bo = keccakf800_rol (Eme XOR De) 13;
         Bu = keccakf800_rol (Esi XOR Di) 29;
         Aga = Ba XOR (NOT Be AND Bi);
         Age = Be XOR (NOT Bi AND Bo);
         Agi = Bi XOR (NOT Bo AND Bu);
         Ago = Bo XOR (NOT Bu AND Ba);
         Agu = Bu XOR (NOT Ba AND Be);
         Ba = keccakf800_rol (Ebe XOR De) 1;
         Be = keccakf800_rol (Egi XOR Di) 6;
         Bi = keccakf800_rol (Eko XOR Do) 25;
         Bo = keccakf800_rol (Emu XOR Du) 8;
         Bu = keccakf800_rol (Esa XOR Da) 18;
         Aka = Ba XOR (NOT Be AND Bi);
         Ake = Be XOR (NOT Bi AND Bo);
         Aki = Bi XOR (NOT Bo AND Bu);
         Ako = Bo XOR (NOT Bu AND Ba);
         Aku = Bu XOR (NOT Ba AND Be);
         Ba = keccakf800_rol (Ebu XOR Du) 27;
         Be = keccakf800_rol (Ega XOR Da) 4;
         Bi = keccakf800_rol (Eke XOR De) 10;
         Bo = keccakf800_rol (Emi XOR Di) 15;
         Bu = keccakf800_rol (Eso XOR Do) 24;
         Ama = Ba XOR (NOT Be AND Bi);
         Ame = Be XOR (NOT Bi AND Bo);
         Ami = Bi XOR (NOT Bo AND Bu);
         Amo = Bo XOR (NOT Bu AND Ba);
         Amu = Bu XOR (NOT Ba AND Be);
         Ba = keccakf800_rol (Ebi XOR Di) 30;
         Be = keccakf800_rol (Ego XOR Do) 23;
         Bi = keccakf800_rol (Eku XOR Du) 7;
         Bo = keccakf800_rol (Ema XOR Da) 9;
         Bu = keccakf800_rol (Ese XOR De) 2;
         Asa = Ba XOR (NOT Be AND Bi);
         Ase = Be XOR (NOT Bi AND Bo);
         Asi = Bi XOR (NOT Bo AND Bu);
         Aso = Bo XOR (NOT Bu AND Ba);
         Asu = Bu XOR (NOT Ba AND Be)
     in [Aba, Abe, Abi, Abo, Abu,
         Aga, Age, Agi, Ago, Agu,
         Aka, Ake, Aki, Ako, Aku,
         Ama, Ame, Ami, Amo, Amu,
         Asa, Ase, Asi, Aso, Asu])"

definition ethash_keccakf800 :: "u32 list \<Rightarrow> u32 list" where
  "ethash_keccakf800 state =
     fold (\<lambda>round state. keccakf800_round_EA round (keccakf800_round_AE round state))
       (map (\<lambda>k. 2 * k) [0..<11]) state"

section \<open>Agreement with the reference\<close>

lemma upt_25: "[0..<25] = [0, 1, 2, 3, 4, 5, 6, 7, 8, 9, 10, 11, 12, 13, 14, 15, 16, 17, 18, 19, 20, 21, 22, 23, 24]"
  by (simp add: upt_rec)

lemma upt_24: "[0..<24] = [0, 1, 2, 3, 4, 5, 6, 7, 8, 9, 10, 11, 12, 13, 14, 15, 16, 17, 18, 19, 20, 21, 22, 23]"
  by (simp add: upt_rec)

lemma upt_5: "[0..<5] = [0, 1, 2, 3, 4]"
  by (simp add: upt_rec)

lemma rho_offsets_eq: "rho_offsets = [0, 1, 190, 28, 91, 36, 300, 6, 55, 276, 3, 10, 171, 153, 231, 105, 45, 15, 21, 136, 210, 66, 253, 120, 78]"
  by code_simp

lemma rc_bits_eq: "rc_bits =
  [True, False, False, False, False, False, False, False, True, False, True, True, False, False, False, True, True, True, True, False, True, False, False, False, False, True, True, True, True, True, True, True, True, False, False, True, False, False, False, False, True, False, True, False, False, True, True, True, True, True, False, True, False, True, False, True, False, True, True, True, False, False, False, False, False, True, True, False, False, False, True, False, True, False, True, True, False, False, True, True, False, False, True, False, True, True, True, True, True, True, False, True, True, True, True, False, False, True, True, False, True, True, True, False, True, True, True, False, False, True, False, True, False, True, False, False, True, False, True, False, False, False, True, False, False, True, False, True, True, False, True, False, False, False, True, True, False, False, True, True, True, False, False, True, True, True, True, False, False, False, True, True, False, True, True, False, False, False, False, True, False, False, False, True, False, True, True, True, False, True, False, True, True, True, True, False, True, True, False, True, True, True, True, True, False, False, False, False, True, True, False, True, False, False, True, True, False, True, False, True, True, False, True, True, False, True, False, True, False, False, False, False, False, True, False, False, True, True, True, False, True, True, False, False, True, False, False, True, False, False, True, True, False, False, False, False, False, False, True, True, True, False, True, False, False, True, False, False, False, True, True, True, False, False, False]"
  by code_simp

lemma keccak_theta_list: "keccak_theta A =
     [A ! 0 XOR keccak_D A 0,
      A ! 1 XOR keccak_D A 1,
      A ! 2 XOR keccak_D A 2,
      A ! 3 XOR keccak_D A 3,
      A ! 4 XOR keccak_D A 4,
      A ! 5 XOR keccak_D A 0,
      A ! 6 XOR keccak_D A 1,
      A ! 7 XOR keccak_D A 2,
      A ! 8 XOR keccak_D A 3,
      A ! 9 XOR keccak_D A 4,
      A ! 10 XOR keccak_D A 0,
      A ! 11 XOR keccak_D A 1,
      A ! 12 XOR keccak_D A 2,
      A ! 13 XOR keccak_D A 3,
      A ! 14 XOR keccak_D A 4,
      A ! 15 XOR keccak_D A 0,
      A ! 16 XOR keccak_D A 1,
      A ! 17 XOR keccak_D A 2,
      A ! 18 XOR keccak_D A 3,
      A ! 19 XOR keccak_D A 4,
      A ! 20 XOR keccak_D A 0,
      A ! 21 XOR keccak_D A 1,
      A ! 22 XOR keccak_D A 2,
      A ! 23 XOR keccak_D A 3,
      A ! 24 XOR keccak_D A 4]"
  by (simp add: keccak_theta_def upt_25)

lemma keccak_pi_rho_list: "keccak_pi (keccak_rho A) =
     [A ! 0,
      word_rotl 300 (A ! 6),
      word_rotl 171 (A ! 12),
      word_rotl 21 (A ! 18),
      word_rotl 78 (A ! 24),
      word_rotl 28 (A ! 3),
      word_rotl 276 (A ! 9),
      word_rotl 3 (A ! 10),
      word_rotl 45 (A ! 16),
      word_rotl 253 (A ! 22),
      word_rotl 1 (A ! 1),
      word_rotl 6 (A ! 7),
      word_rotl 153 (A ! 13),
      word_rotl 136 (A ! 19),
      word_rotl 210 (A ! 20),
      word_rotl 91 (A ! 4),
      word_rotl 36 (A ! 5),
      word_rotl 10 (A ! 11),
      word_rotl 15 (A ! 17),
      word_rotl 120 (A ! 23),
      word_rotl 190 (A ! 2),
      word_rotl 55 (A ! 8),
      word_rotl 231 (A ! 14),
      word_rotl 105 (A ! 15),
      word_rotl 66 (A ! 21)]"
  by (simp add: keccak_pi_def keccak_rho_def upt_25 rho_offsets_eq numeral_2_eq_2 word_rotl_zero)

lemma keccak_chi_list: "keccak_chi A =
     [A ! 0 XOR (NOT (A ! 1) AND A ! 2),
      A ! 1 XOR (NOT (A ! 2) AND A ! 3),
      A ! 2 XOR (NOT (A ! 3) AND A ! 4),
      A ! 3 XOR (NOT (A ! 4) AND A ! 0),
      A ! 4 XOR (NOT (A ! 0) AND A ! 1),
      A ! 5 XOR (NOT (A ! 6) AND A ! 7),
      A ! 6 XOR (NOT (A ! 7) AND A ! 8),
      A ! 7 XOR (NOT (A ! 8) AND A ! 9),
      A ! 8 XOR (NOT (A ! 9) AND A ! 5),
      A ! 9 XOR (NOT (A ! 5) AND A ! 6),
      A ! 10 XOR (NOT (A ! 11) AND A ! 12),
      A ! 11 XOR (NOT (A ! 12) AND A ! 13),
      A ! 12 XOR (NOT (A ! 13) AND A ! 14),
      A ! 13 XOR (NOT (A ! 14) AND A ! 10),
      A ! 14 XOR (NOT (A ! 10) AND A ! 11),
      A ! 15 XOR (NOT (A ! 16) AND A ! 17),
      A ! 16 XOR (NOT (A ! 17) AND A ! 18),
      A ! 17 XOR (NOT (A ! 18) AND A ! 19),
      A ! 18 XOR (NOT (A ! 19) AND A ! 15),
      A ! 19 XOR (NOT (A ! 15) AND A ! 16),
      A ! 20 XOR (NOT (A ! 21) AND A ! 22),
      A ! 21 XOR (NOT (A ! 22) AND A ! 23),
      A ! 22 XOR (NOT (A ! 23) AND A ! 24),
      A ! 23 XOR (NOT (A ! 24) AND A ! 20),
      A ! 24 XOR (NOT (A ! 20) AND A ! 21)]"
  by (simp add: keccak_chi_def upt_25 numeral_2_eq_2)

lemma list25: "length st = 25 \<Longrightarrow>
  \<exists>a0 a1 a2 a3 a4 a5 a6 a7 a8 a9 a10 a11 a12 a13 a14 a15 a16 a17 a18 a19 a20 a21 a22 a23 a24.
   st = [a0, a1, a2, a3, a4, a5, a6, a7, a8, a9, a10, a11, a12, a13, a14, a15, a16, a17, a18,
     a19, a20, a21, a22, a23, a24]"
  by (auto simp: numeral_eq_Suc length_Suc_conv)

lemma ROTL64_word_rotl: "0 < s \<Longrightarrow> s < 64 \<Longrightarrow> ROTL64 x s = word_rotl s x"
  unfolding ROTL64_def using shift_or_rotl [of s x] by simp

lemma keccakf1600_rol_word_rotl: "0 < s \<Longrightarrow> s < 64 \<Longrightarrow> keccakf1600_rol x s = word_rotl s x"
  unfolding keccakf1600_rol_def using shift_or_rotl [of s x] by simp

lemma keccakf800_rol_word_rotl: "0 < s \<Longrightarrow> s < 32 \<Longrightarrow> keccakf800_rol x s = word_rotl s x"
  unfolding keccakf800_rol_def using shift_or_rotl [of s x] by simp

lemma word_rotl_ge64: "64 \<le> n \<Longrightarrow> word_rotl n (x :: u64) = word_rotl (n mod 64) x"
  using word_rotl_mod [of n x] by simp

lemma word_rotl_ge32: "32 \<le> n \<Longrightarrow> word_rotl n (x :: u32) = word_rotl (n mod 32) x"
  using word_rotl_mod [of n x] by simp

lemma upt_22: "[0..<22] = [0, 1, 2, 3, 4, 5, 6, 7, 8, 9, 10, 11, 12, 13, 14, 15, 16, 17, 18, 19, 20, 21]"
  by (simp add: upt_rec)

declare rc_bits_eq [code]

lemma keccak_rc_64: "map (keccak_rc 6) [0..<24] = keccakf_rndc"
  by code_simp

lemma keccak_rc_32: "map (keccak_rc 5) [0..<22] = keccakf800_round_constants"
  by code_simp

lemma keccak_linear_list: "keccak_pi (keccak_rho (keccak_theta A)) =
     [A ! 0 XOR keccak_D A 0,
      word_rotl 300 (A ! 6 XOR keccak_D A 1),
      word_rotl 171 (A ! 12 XOR keccak_D A 2),
      word_rotl 21 (A ! 18 XOR keccak_D A 3),
      word_rotl 78 (A ! 24 XOR keccak_D A 4),
      word_rotl 28 (A ! 3 XOR keccak_D A 3),
      word_rotl 276 (A ! 9 XOR keccak_D A 4),
      word_rotl 3 (A ! 10 XOR keccak_D A 0),
      word_rotl 45 (A ! 16 XOR keccak_D A 1),
      word_rotl 253 (A ! 22 XOR keccak_D A 2),
      word_rotl 1 (A ! 1 XOR keccak_D A 1),
      word_rotl 6 (A ! 7 XOR keccak_D A 2),
      word_rotl 153 (A ! 13 XOR keccak_D A 3),
      word_rotl 136 (A ! 19 XOR keccak_D A 4),
      word_rotl 210 (A ! 20 XOR keccak_D A 0),
      word_rotl 91 (A ! 4 XOR keccak_D A 4),
      word_rotl 36 (A ! 5 XOR keccak_D A 0),
      word_rotl 10 (A ! 11 XOR keccak_D A 1),
      word_rotl 15 (A ! 17 XOR keccak_D A 2),
      word_rotl 120 (A ! 23 XOR keccak_D A 3),
      word_rotl 190 (A ! 2 XOR keccak_D A 2),
      word_rotl 55 (A ! 8 XOR keccak_D A 3),
      word_rotl 231 (A ! 14 XOR keccak_D A 4),
      word_rotl 105 (A ! 15 XOR keccak_D A 0),
      word_rotl 66 (A ! 21 XOR keccak_D A 1)]"
  unfolding keccak_theta_list keccak_pi_rho_list by (simp add: numeral_2_eq_2)

lemma keccak_chi_vars: "keccak_chi [b0, b1, b2, b3, b4, b5, b6, b7, b8, b9, b10, b11, b12, b13, b14, b15, b16, b17, b18, b19, b20, b21, b22, b23, b24] =
     [b0 XOR (NOT b1 AND b2),
      b1 XOR (NOT b2 AND b3),
      b2 XOR (NOT b3 AND b4),
      b3 XOR (NOT b4 AND b0),
      b4 XOR (NOT b0 AND b1),
      b5 XOR (NOT b6 AND b7),
      b6 XOR (NOT b7 AND b8),
      b7 XOR (NOT b8 AND b9),
      b8 XOR (NOT b9 AND b5),
      b9 XOR (NOT b5 AND b6),
      b10 XOR (NOT b11 AND b12),
      b11 XOR (NOT b12 AND b13),
      b12 XOR (NOT b13 AND b14),
      b13 XOR (NOT b14 AND b10),
      b14 XOR (NOT b10 AND b11),
      b15 XOR (NOT b16 AND b17),
      b16 XOR (NOT b17 AND b18),
      b17 XOR (NOT b18 AND b19),
      b18 XOR (NOT b19 AND b15),
      b19 XOR (NOT b15 AND b16),
      b20 XOR (NOT b21 AND b22),
      b21 XOR (NOT b22 AND b23),
      b22 XOR (NOT b23 AND b24),
      b23 XOR (NOT b24 AND b20),
      b24 XOR (NOT b20 AND b21)]"
  by (simp add: keccak_chi_list)

lemma keccak_iota_chi: "(let B = keccak_chi [b0, b1, b2, b3, b4, b5, b6, b7, b8, b9, b10, b11, b12, b13, b14, b15, b16, b17, b18, b19, b20, b21, b22, b23, b24] in B[0 := B ! 0 XOR rc]) =
     [b0 XOR (NOT b1 AND b2) XOR rc,
      b1 XOR (NOT b2 AND b3),
      b2 XOR (NOT b3 AND b4),
      b3 XOR (NOT b4 AND b0),
      b4 XOR (NOT b0 AND b1),
      b5 XOR (NOT b6 AND b7),
      b6 XOR (NOT b7 AND b8),
      b7 XOR (NOT b8 AND b9),
      b8 XOR (NOT b9 AND b5),
      b9 XOR (NOT b5 AND b6),
      b10 XOR (NOT b11 AND b12),
      b11 XOR (NOT b12 AND b13),
      b12 XOR (NOT b13 AND b14),
      b13 XOR (NOT b14 AND b10),
      b14 XOR (NOT b10 AND b11),
      b15 XOR (NOT b16 AND b17),
      b16 XOR (NOT b17 AND b18),
      b17 XOR (NOT b18 AND b19),
      b18 XOR (NOT b19 AND b15),
      b19 XOR (NOT b15 AND b16),
      b20 XOR (NOT b21 AND b22),
      b21 XOR (NOT b22 AND b23),
      b22 XOR (NOT b23 AND b24),
      b23 XOR (NOT b24 AND b20),
      b24 XOR (NOT b20 AND b21)]"
  by (simp add: keccak_chi_vars Let_def xor.assoc)

lemma keccak_D_unfold:
  "keccak_D A 0 = keccak_C A 4 XOR word_rotl 1 (keccak_C A 1)"
  "keccak_D A 1 = keccak_C A 0 XOR word_rotl 1 (keccak_C A 2)"
  "keccak_D A 2 = keccak_C A 1 XOR word_rotl 1 (keccak_C A 3)"
  "keccak_D A 3 = keccak_C A 2 XOR word_rotl 1 (keccak_C A 4)"
  "keccak_D A 4 = keccak_C A 3 XOR word_rotl 1 (keccak_C A 0)"
  by (simp_all add: keccak_D_def numeral_2_eq_2)

lemma keccak_C_unfold:
  "keccak_C A 0 = A ! 0 XOR A ! 5 XOR A ! 10 XOR A ! 15 XOR A ! 20"
  "keccak_C A 1 = A ! 1 XOR A ! 6 XOR A ! 11 XOR A ! 16 XOR A ! 21"
  "keccak_C A 2 = A ! 2 XOR A ! 7 XOR A ! 12 XOR A ! 17 XOR A ! 22"
  "keccak_C A 3 = A ! 3 XOR A ! 8 XOR A ! 13 XOR A ! 18 XOR A ! 23"
  "keccak_C A 4 = A ! 4 XOR A ! 9 XOR A ! 14 XOR A ! 19 XOR A ! 24"
  by (simp_all add: keccak_C_def)

lemma word_rotl_rol64:
  "word_rotl 1 (x :: u64) = keccakf1600_rol x 1"
  "word_rotl 3 (x :: u64) = keccakf1600_rol x 3"
  "word_rotl 6 (x :: u64) = keccakf1600_rol x 6"
  "word_rotl 10 (x :: u64) = keccakf1600_rol x 10"
  "word_rotl 15 (x :: u64) = keccakf1600_rol x 15"
  "word_rotl 21 (x :: u64) = keccakf1600_rol x 21"
  "word_rotl 28 (x :: u64) = keccakf1600_rol x 28"
  "word_rotl 36 (x :: u64) = keccakf1600_rol x 36"
  "word_rotl 45 (x :: u64) = keccakf1600_rol x 45"
  "word_rotl 55 (x :: u64) = keccakf1600_rol x 55"
  "word_rotl 66 (x :: u64) = keccakf1600_rol x 2"
  "word_rotl 78 (x :: u64) = keccakf1600_rol x 14"
  "word_rotl 91 (x :: u64) = keccakf1600_rol x 27"
  "word_rotl 105 (x :: u64) = keccakf1600_rol x 41"
  "word_rotl 120 (x :: u64) = keccakf1600_rol x 56"
  "word_rotl 136 (x :: u64) = keccakf1600_rol x 8"
  "word_rotl 153 (x :: u64) = keccakf1600_rol x 25"
  "word_rotl 171 (x :: u64) = keccakf1600_rol x 43"
  "word_rotl 190 (x :: u64) = keccakf1600_rol x 62"
  "word_rotl 210 (x :: u64) = keccakf1600_rol x 18"
  "word_rotl 231 (x :: u64) = keccakf1600_rol x 39"
  "word_rotl 253 (x :: u64) = keccakf1600_rol x 61"
  "word_rotl 276 (x :: u64) = keccakf1600_rol x 20"
  "word_rotl 300 (x :: u64) = keccakf1600_rol x 44"
  by (simp_all add: keccakf1600_rol_word_rotl word_rotl_ge64)

lemma word_rotl_rol32:
  "word_rotl 1 (x :: u32) = keccakf800_rol x 1"
  "word_rotl 3 (x :: u32) = keccakf800_rol x 3"
  "word_rotl 6 (x :: u32) = keccakf800_rol x 6"
  "word_rotl 10 (x :: u32) = keccakf800_rol x 10"
  "word_rotl 15 (x :: u32) = keccakf800_rol x 15"
  "word_rotl 21 (x :: u32) = keccakf800_rol x 21"
  "word_rotl 28 (x :: u32) = keccakf800_rol x 28"
  "word_rotl 36 (x :: u32) = keccakf800_rol x 4"
  "word_rotl 45 (x :: u32) = keccakf800_rol x 13"
  "word_rotl 55 (x :: u32) = keccakf800_rol x 23"
  "word_rotl 66 (x :: u32) = keccakf800_rol x 2"
  "word_rotl 78 (x :: u32) = keccakf800_rol x 14"
  "word_rotl 91 (x :: u32) = keccakf800_rol x 27"
  "word_rotl 105 (x :: u32) = keccakf800_rol x 9"
  "word_rotl 120 (x :: u32) = keccakf800_rol x 24"
  "word_rotl 136 (x :: u32) = keccakf800_rol x 8"
  "word_rotl 153 (x :: u32) = keccakf800_rol x 25"
  "word_rotl 171 (x :: u32) = keccakf800_rol x 11"
  "word_rotl 190 (x :: u32) = keccakf800_rol x 30"
  "word_rotl 210 (x :: u32) = keccakf800_rol x 18"
  "word_rotl 231 (x :: u32) = keccakf800_rol x 7"
  "word_rotl 253 (x :: u32) = keccakf800_rol x 29"
  "word_rotl 276 (x :: u32) = keccakf800_rol x 20"
  "word_rotl 300 (x :: u32) = keccakf800_rol x 12"
  by (simp_all add: keccakf800_rol_word_rotl word_rotl_ge32)

lemmas keccak_unroll = keccak_round_def keccak_linear_list keccak_iota_chi
  keccak_D_unfold keccak_C_unfold

lemma keccakf1600_round_AE_spec:
  "keccakf1600_round_AE r A = keccak_round (keccakf1600_round_constants ! r) A"
  unfolding keccakf1600_round_AE_def keccak_unroll word_rotl_rol64 unfolding Let_def by (rule refl)

lemma keccakf1600_round_EA_spec:
  "keccakf1600_round_EA r A = keccak_round (keccakf1600_round_constants ! (r + 1)) A"
  unfolding keccakf1600_round_EA_def keccak_unroll word_rotl_rol64 unfolding Let_def by (rule refl)

lemma keccakf800_round_AE_spec:
  "keccakf800_round_AE r A = keccak_round (keccakf800_round_constants ! r) A"
  unfolding keccakf800_round_AE_def keccak_unroll word_rotl_rol32 unfolding Let_def by (rule refl)

lemma keccakf800_round_EA_spec:
  "keccakf800_round_EA r A = keccak_round (keccakf800_round_constants ! (r + 1)) A"
  unfolding keccakf800_round_EA_def keccak_unroll word_rotl_rol32 unfolding Let_def by (rule refl)
lemma keccakf_theta_columns:
  assumes "length A = 25"
  shows "fold (\<lambda>i st. let t = f i
          in fold (\<lambda>j st. st[j + i := st ! (j + i) XOR t]) [0, 5, 10, 15, 20] st) [0, 1, 2, 3, 4] A =
     [A ! 0 XOR f 0,
      A ! 1 XOR f 1,
      A ! 2 XOR f 2,
      A ! 3 XOR f 3,
      A ! 4 XOR f 4,
      A ! 5 XOR f 0,
      A ! 6 XOR f 1,
      A ! 7 XOR f 2,
      A ! 8 XOR f 3,
      A ! 9 XOR f 4,
      A ! 10 XOR f 0,
      A ! 11 XOR f 1,
      A ! 12 XOR f 2,
      A ! 13 XOR f 3,
      A ! 14 XOR f 4,
      A ! 15 XOR f 0,
      A ! 16 XOR f 1,
      A ! 17 XOR f 2,
      A ! 18 XOR f 3,
      A ! 19 XOR f 4,
      A ! 20 XOR f 0,
      A ! 21 XOR f 1,
      A ! 22 XOR f 2,
      A ! 23 XOR f 3,
      A ! 24 XOR f 4]"
  using list25 [OF assms] by (elim exE) (simp add: Let_def numeral_2_eq_2)

lemma keccakf_theta_spec:
  assumes "length st = 25"
  shows "keccakf_theta st = keccak_theta st"
  unfolding keccakf_theta_def keccak_theta_list upt_5
  by (subst Let_def, subst keccakf_theta_columns [OF assms])
    (simp add: keccak_D_def keccak_C_def ROTL64_word_rotl numeral_2_eq_2)

lemma ROTL64_rol: "ROTL64 = keccakf1600_rol"
  by (simp add: fun_eq_iff ROTL64_def keccakf1600_rol_def)

lemma keccakf_rho_pi_spec:
  assumes "length st = 25"
  shows "keccakf_rho_pi st = keccak_pi (keccak_rho st)"
  using list25 [OF assms] unfolding keccakf_rho_pi_def keccak_pi_rho_list ROTL64_rol word_rotl_rol64
  by (elim exE) (simp add: upt_24 keccakf_piln_def keccakf_rotc_def)

lemma keccakf_chi_spec:
  assumes "length st = 25"
  shows "keccakf_chi st = keccak_chi st"
  using list25 [OF assms] unfolding keccakf_chi_def keccak_chi_list
  by (elim exE) (simp add: upt_5 numeral_2_eq_2)

lemma length_keccak_steps [simp]:
  "length (keccak_theta A) = 25" "length (keccak_rho A) = 25" "length (keccak_pi A) = 25"
  "length (keccak_chi A) = 25" "length (keccak_round rc A) = 25"
  by (simp_all add: keccak_theta_def keccak_rho_def keccak_pi_def keccak_chi_def
      keccak_round_def Let_def)

lemma keccakf_round_spec:
  assumes "length st = 25"
  shows "(let st = keccakf_chi (keccakf_rho_pi (keccakf_theta st))
          in st[0 := st ! 0 XOR rc]) = keccak_round rc st"
  using assms by (simp add: keccak_round_def keccakf_theta_spec keccakf_rho_pi_spec keccakf_chi_spec)

lemma keccak_rounds_length:
  "length A = 25 \<Longrightarrow> length (fold (\<lambda>ir A. keccak_round (f ir) A) rs A) = 25"
  by (induction rs arbitrary: A) simp_all

lemma keccakf_fold:
  "length st = 25 \<Longrightarrow> (\<forall>r \<in> set rs. f r = keccakf_rndc ! r) \<Longrightarrow>
   fold (\<lambda>round st. let st = keccakf_chi (keccakf_rho_pi (keccakf_theta st))
       in st[0 := st ! 0 XOR keccakf_rndc ! round]) rs st =
   fold (\<lambda>ir A. keccak_round (f ir) A) rs st"
  by (induction rs arbitrary: st) (simp_all add: keccakf_round_spec)

lemma keccak_rc_64_nth: "r < 24 \<Longrightarrow> keccak_rc 6 r = keccakf_rndc ! r"
  by (simp flip: keccak_rc_64)

lemma keccakf_spec_le24:
  assumes "length st = 25" and "rounds \<le> 24"
  shows "keccakf st rounds = keccak_p 6 rounds st"
  unfolding keccakf_def keccak_p_def using assms
  by (intro keccakf_fold) (simp_all add: keccak_rc_64_nth)

lemma keccakf_spec_24: "length st = 25 \<Longrightarrow> keccakf st 24 = keccak_p 6 24 st"
  by (simp add: keccakf_spec_le24)

text \<open>C32: the table-driven loop \<open>keccakf\<close> computes the rounds of the FIPS 202
  permutation on 64-bit lanes, on every 25-lane state and for every number of rounds
  its constant table covers.\<close>

theorem keccakf_spec:
  assumes "length st = 25" and "rounds \<le> 24"
  shows "keccakf st rounds = keccak_p 6 rounds st"
  by (rule keccakf_spec_le24 [OF assms])

theorem keccakf_spec_witness:
  "length (replicate 25 (1 :: u64)) = 25 \<and>
   keccakf (replicate 25 1) 24 = keccak_p 6 24 (replicate 25 1)"
  using keccakf_spec [of "replicate 25 1" 24] by simp

lemma keccakf1600_round_constants_eq: "keccakf1600_round_constants = keccakf_rndc"
  by (simp add: keccakf1600_round_constants_def keccakf_rndc_def)

lemma ethash_keccakf1600_ref: "ethash_keccakf1600 st = keccak_p 6 24 st"
proof -
  have "ethash_keccakf1600 st =
      fold (\<lambda>r. keccak_round (keccakf1600_round_constants ! r)) [0..<2 * 12] st"
    unfolding ethash_keccakf1600_def
    by (rule fold_pairs [where k = 0, simplified]) (simp add: keccakf1600_round_AE_spec keccakf1600_round_EA_spec)
  also have "\<dots> = keccak_p 6 24 st"
    unfolding keccak_p_def
    by (rule fold_cong) (simp_all add: keccak_rc_64_nth keccakf1600_round_constants_eq)
  finally show ?thesis .
qed

text \<open>The unrolled Ethash permutation and the table-driven CryptoNote
  permutation are the same function on 25-lane states.\<close>

theorem ethash_keccakf1600_keccakf:
  assumes "length st = 25"
  shows "ethash_keccakf1600 st = keccakf st 24"
  by (simp add: ethash_keccakf1600_ref keccakf_spec_24 assms)

theorem ethash_keccakf1600_keccakf_witness:
  "ethash_keccakf1600 (replicate 25 7) = keccakf (replicate 25 7) 24"
  using ethash_keccakf1600_keccakf [of "replicate 25 7"] by simp

lemma keccak_rc_32_nth: "r < 22 \<Longrightarrow> keccak_rc 5 r = keccakf800_round_constants ! r"
  by (simp flip: keccak_rc_32)

text \<open>The unrolled 32-bit permutation of ProgPoW is the 22-round FIPS 202
  permutation on 32-bit lanes, for every input state.\<close>

theorem ethash_keccakf800_spec: "ethash_keccakf800 st = keccak_p 5 22 st"
proof -
  have "ethash_keccakf800 st =
      fold (\<lambda>r. keccak_round (keccakf800_round_constants ! r)) [0..<2 * 11] st"
    unfolding ethash_keccakf800_def
    by (rule fold_pairs [where k = 0, simplified]) (simp add: keccakf800_round_AE_spec keccakf800_round_EA_spec)
  also have "\<dots> = keccak_p 5 22 st"
    unfolding keccak_p_def
    by (rule fold_cong) (simp_all add: keccak_rc_32_nth)
  finally show ?thesis .
qed

end
