(* ===== verification/Keccak_Sponge.thy ===== *)
theory Keccak_Sponge
  imports Keccak_Perm
begin

text \<open>
  The Keccak digests of the pool: \<open>keccak\<close> and \<open>cn_fast_hash\<close> of
  \<^verbatim>\<open>src/src/crypto/cn/crypto\<close> (block templates, the Merkle tree of a block, the random
  generator) and \<open>ethash_keccak256\<close>, \<open>ethash_keccak512\<close> of
  \<^verbatim>\<open>src/src/crypto/cn/ethash/keccak.c\<close> (the proof of work). A byte string is a list;
  the word accesses through cast pointers are little-endian loads, as on the x86-64
  target. The reference is the sponge over an arbitrary lane permutation; the locale
  \<open>lane_permutation\<close> states what a permutation owes to it, and is interpreted on the
  reference permutation and on both implementations.
\<close>

unbundle bit_operations_syntax

section \<open>The reference sponge\<close>

definition absorb_word :: "u8 list \<Rightarrow> nat \<Rightarrow> u64" where
  "absorb_word blk i = le_load (take 8 (drop (8 * i) blk))"

definition absorb_block :: "u64 list \<Rightarrow> u8 list \<Rightarrow> u64 list" where
  "absorb_block st blk =
     map (\<lambda>i. if i < length blk div 8 then st ! i XOR absorb_word blk i else st ! i) [0..<length st]"

definition keccak_pad :: "nat \<Rightarrow> u8 list \<Rightarrow> u8 list" where
  "keccak_pad r m = (let q = r - length m mod r in
     if q = 1 then m @ [0x81] else m @ [0x01] @ replicate (q - 2) 0 @ [0x80])"

definition lane_bytes :: "u64 list \<Rightarrow> u8 list" where
  "lane_bytes st = concat (map (le_store 8) st)"

definition sponge_state :: "(u64 list \<Rightarrow> u64 list) \<Rightarrow> nat \<Rightarrow> u8 list \<Rightarrow> u64 list" where
  "sponge_state f r m =
     fold (\<lambda>blk st. f (absorb_block st blk)) (chunks r (keccak_pad r m)) (replicate 25 0)"

definition sponge :: "(u64 list \<Rightarrow> u64 list) \<Rightarrow> nat \<Rightarrow> nat \<Rightarrow> u8 list \<Rightarrow> u8 list" where
  "sponge f r d m = take d (lane_bytes (sponge_state f r m))"

section \<open>\<open>cn/crypto/keccak.c\<close>\<close>

text \<open>\<open>for (i = 0; i < rsizw; i++) st[i] ^= ((uint64_t *)in)[i];\<close>\<close>

definition keccak_xor_in :: "u64 list \<Rightarrow> nat \<Rightarrow> u8 list \<Rightarrow> u64 list" where
  "keccak_xor_in st rsizw inp =
     fold (\<lambda>i st. st[i := st ! i XOR le_load (take 8 (drop (8 * i) inp))]) [0..<rsizw] st"

function keccak_loop :: "nat \<Rightarrow> u64 list \<Rightarrow> u8 list \<Rightarrow> u64 list \<times> u8 list" where
  "keccak_loop rsiz st inp =
     (if 0 < rsiz \<and> rsiz \<le> length inp
      then keccak_loop rsiz (keccakf (keccak_xor_in st (rsiz div 8) inp) 24) (drop rsiz inp)
      else (st, inp))"
  by pat_completeness auto
termination
  by (relation "measure (\<lambda>(rsiz, st, inp). length inp)") auto

declare keccak_loop.simps [simp del]

definition keccak :: "u8 list \<Rightarrow> nat \<Rightarrow> u8 list option" where
  "keccak inp mdlen =
    (let rsiz = (if 200 = int mdlen then 136 else 200 - 2 * int mdlen)
     in if rsiz \<le> 0 \<or> 144 < rsiz then None
        else
          let rsiz = nat rsiz; rsizw = rsiz div 8;
              (st, inp) = keccak_loop rsiz (replicate 25 0) inp;
              temp = inp @ [1] @ replicate (rsiz - (length inp + 1)) 0;
              temp = temp[rsiz - 1 := temp ! (rsiz - 1) OR 0x80];
              st = keccakf (keccak_xor_in st rsizw temp) 24
          in Some (take mdlen (lane_bytes st)))"

definition keccak1600 :: "u8 list \<Rightarrow> u8 list option" where
  "keccak1600 inp = keccak inp 200"

section \<open>\<open>cn/crypto/hash.c\<close>\<close>

text \<open>
  The callers ignore the return value of \<open>keccak\<close>; \<open>keccak_sponge\<close> and
  \<open>keccak1600_sponge\<close> below show that for these two digest lengths it never fails, so
  the empty string of the failing branch is never returned.
\<close>

definition keccak_md :: "u8 list option \<Rightarrow> u8 list" where
  "keccak_md r = (case r of None \<Rightarrow> [] | Some md \<Rightarrow> md)"

definition hash_permutation :: "u64 list \<Rightarrow> u64 list" where
  "hash_permutation state = keccakf state 24"

definition hash_process :: "u8 list \<Rightarrow> u8 list" where
  "hash_process buf = keccak_md (keccak1600 buf)"

definition cn_fast_hash_old :: "u8 list \<Rightarrow> u8 list" where
  "cn_fast_hash_old data = take 32 (hash_process data)"

definition cn_fast_hash :: "u8 list \<Rightarrow> u8 list" where
  "cn_fast_hash data = keccak_md (keccak data 32)"

section \<open>\<open>cn/ethash/keccak.c\<close>\<close>

definition load_le :: "u8 list \<Rightarrow> u64" where
  "load_le data = le_load (take 8 data)"

text \<open>The inner loop of a full block and the word loop of the tail share their step.\<close>

definition ethash_absorb_step :: "u64 list \<times> u8 list \<Rightarrow> nat \<Rightarrow> u64 list \<times> u8 list" where
  "ethash_absorb_step = (\<lambda>(state, data) i. (state[i := state ! i XOR load_le data], drop 8 data))"

function ethash_block_loop :: "nat \<Rightarrow> u64 list \<Rightarrow> u8 list \<Rightarrow> nat \<Rightarrow> u64 list \<times> u8 list \<times> nat" where
  "ethash_block_loop block_size state data sz =
     (if 0 < block_size \<and> block_size \<le> sz
      then let (state, data) = foldl ethash_absorb_step (state, data) [0..<block_size div 8]
           in ethash_block_loop block_size (ethash_keccakf1600 state) data (sz - block_size)
      else (state, data, sz))"
  by pat_completeness auto
termination
  by (relation "measure (\<lambda>(b, st, d, n). n)") auto

declare ethash_block_loop.simps [simp del]

fun ethash_word_loop :: "u64 list \<Rightarrow> nat \<Rightarrow> u8 list \<Rightarrow> nat \<Rightarrow> u64 list \<times> nat \<times> u8 list \<times> nat" where
  "ethash_word_loop state state_iter data sz =
     (if 8 \<le> sz
      then ethash_word_loop (state[state_iter := state ! state_iter XOR load_le data])
             (state_iter + 1) (drop 8 data) (sz - 8)
      else (state, state_iter, data, sz))"

declare ethash_word_loop.simps [simp del]

definition ethash_last_word :: "u8 list \<Rightarrow> nat \<Rightarrow> u64" where
  "ethash_last_word data sz =
     (let b = fold (\<lambda>k b. b[k := data ! k]) [0..<sz] (replicate 8 0);
          b = b[sz := 0x01]
      in le_load b)"

definition ethash_keccak :: "nat \<Rightarrow> u8 list \<Rightarrow> u64 list" where
  "ethash_keccak bits data =
    (let hash_size = bits div 8;
         block_size = (1600 - bits * 2) div 8;
         (state, data, sz) = ethash_block_loop block_size (replicate 25 0) data (length data);
         (state, state_iter, data, sz) = ethash_word_loop state 0 data sz;
         last_word = ethash_last_word data sz;
         state = state[state_iter := state ! state_iter XOR last_word];
         k = block_size div 8 - 1;
         state = state[k := state ! k XOR 0x8000000000000000];
         state = ethash_keccakf1600 state
     in map (\<lambda>i. state ! i) [0..<hash_size div 8])"

definition ethash_keccak256 :: "u8 list \<Rightarrow> u64 list" where
  "ethash_keccak256 data = ethash_keccak 256 data"

definition ethash_keccak512 :: "u8 list \<Rightarrow> u64 list" where
  "ethash_keccak512 data = ethash_keccak 512 data"

text \<open>The state after the first \<open>j\<close> words of a partial block, used in the proofs below.\<close>

definition absorb_prefix :: "u64 list \<Rightarrow> u8 list \<Rightarrow> nat \<Rightarrow> u64 list" where
  "absorb_prefix st m j =
     map (\<lambda>i. if i < j then st ! i XOR absorb_word m i else st ! i) [0..<length st]"

section \<open>Lane permutations as an interface\<close>

locale lane_permutation =
  fixes f :: "u64 list \<Rightarrow> u64 list"
  assumes lanes_kept: "length st = 25 \<Longrightarrow> length (f st) = 25"
begin

lemma absorb_lanes: "length st = 25 \<Longrightarrow> length (f (absorb_block st blk)) = 25"
  by (simp add: lanes_kept absorb_block_def)

lemma fold_lanes: "length st = 25 \<Longrightarrow> length (fold (\<lambda>blk st. f (absorb_block st blk)) bs st) = 25"
  by (induction bs arbitrary: st) (simp_all add: absorb_lanes)

lemma state_lanes: "length (sponge_state f r m) = 25"
  by (simp add: sponge_state_def fold_lanes)

lemma fold_cong_perm:
  assumes "\<And>st. length st = 25 \<Longrightarrow> g st = f st" and "length st = 25"
  shows "fold (\<lambda>blk st. g (absorb_block st blk)) bs st = fold (\<lambda>blk st. f (absorb_block st blk)) bs st"
  using assms(2)
  by (induction bs arbitrary: st) (simp_all add: assms(1) absorb_block_def lanes_kept)

lemma sponge_cong_perm:
  assumes "\<And>st. length st = 25 \<Longrightarrow> g st = f st"
  shows "sponge g r d m = sponge f r d m"
  by (simp add: sponge_def sponge_state_def fold_cong_perm [OF assms])

end

lemma length_lane_bytes [simp]: "length (lane_bytes st) = 8 * length st"
  by (induction st) (simp_all add: lane_bytes_def)

context lane_permutation
begin

lemma digest_length: "d \<le> 200 \<Longrightarrow> length (sponge f r d m) = d"
  by (simp add: sponge_def state_lanes)

end

lemma keccakf_lanes: "length st = 25 \<Longrightarrow> length (keccakf st 24) = 25"
  by (simp add: keccakf_spec_24 keccak_p_def keccak_rounds_length)

lemma ethash_keccakf1600_lanes: "length st = 25 \<Longrightarrow> length (ethash_keccakf1600 st) = 25"
  by (simp add: ethash_keccakf1600_ref keccak_p_def keccak_rounds_length)

lemma keccak_p_lanes: "length st = 25 \<Longrightarrow> length (keccak_p 6 24 st) = 25"
  by (simp add: keccak_p_def keccak_rounds_length)

interpretation ref_perm: lane_permutation "\<lambda>st. keccak_p 6 24 st"
  by unfold_locales (rule keccak_p_lanes)

interpretation cn_perm: lane_permutation "\<lambda>st. keccakf st 24"
  by unfold_locales (rule keccakf_lanes)

interpretation ethash_perm: lane_permutation ethash_keccakf1600
  by unfold_locales (rule ethash_keccakf1600_lanes)

section \<open>The loop form is the sponge\<close>

lemma keccak_xor_in_absorb:
  assumes "rsizw \<le> length st" and "rsizw = length blk div 8" and "take (8 * rsizw) inp = take (8 * rsizw) blk"
  shows "keccak_xor_in st rsizw inp = absorb_block st blk"
proof -
  have "take 8 (drop (8 * i) inp) = take 8 (drop (8 * i) blk)" if "i < rsizw" for i
  proof -
    have "take 8 (drop (8 * i) xs) = take 8 (drop (8 * i) (take (8 * rsizw) xs))" for xs :: "u8 list"
      using that by (simp add: drop_take)
    then show ?thesis using assms(3) by metis
  qed
  then show ?thesis
    unfolding keccak_xor_in_def absorb_block_def
    using fold_update_map [of rsizw st "\<lambda>i x. x XOR le_load (take 8 (drop (8 * i) inp))"] assms
    by (auto simp: absorb_word_def intro!: map_cong)
qed

lemma keccak_pad_drop:
  assumes "0 < r" and "r \<le> length m"
  shows "keccak_pad r m = take r m @ keccak_pad r (drop r m)"
proof -
  have "(length m - r) mod r = length m mod r" using assms by (simp add: le_mod_geq)
  then show ?thesis
    by (simp add: keccak_pad_def Let_def)
qed

lemma length_keccak_pad_short: "length m < r \<Longrightarrow> length (keccak_pad r m) = r"
  by (auto simp: keccak_pad_def Let_def)

lemma chunks_pad_long:
  "0 < r \<Longrightarrow> r \<le> length m \<Longrightarrow>
   chunks r (keccak_pad r m) = take r m # chunks r (keccak_pad r (drop r m))"
  by (simp add: keccak_pad_drop chunks_append)

lemma chunks_pad_short: "length m < r \<Longrightarrow> chunks r (keccak_pad r m) = [keccak_pad r m]"
  by (rule chunks_short) (auto simp: length_keccak_pad_short keccak_pad_def Let_def)

lemma keccak_loop_sponge:
  assumes "0 < r" and "r \<le> 200" and "length st = 25" and "keccak_loop r st inp = (st', rest)"
  shows "length st' = 25 \<and> length rest < r \<and>
    fold (\<lambda>blk st. keccakf (absorb_block st blk) 24) (chunks r (keccak_pad r inp)) st =
    fold (\<lambda>blk st. keccakf (absorb_block st blk) 24) (chunks r (keccak_pad r rest)) st'"
  using assms
proof (induction r st inp rule: keccak_loop.induct)
  case (1 r st inp)
  show ?case
  proof (cases "r \<le> length inp")
    case True
    have absorb: "keccak_xor_in st (r div 8) inp = absorb_block st (take r inp)"
      using "1.prems" True by (intro keccak_xor_in_absorb) (auto simp: min_def)
    then have "keccak_loop r (keccakf (absorb_block st (take r inp)) 24) (drop r inp) = (st', rest)"
      using "1.prems" True by (simp add: keccak_loop.simps [of r st inp])
    then show ?thesis
      using "1.IH" "1.prems" True cn_perm.absorb_lanes [of st "take r inp"] absorb
      by (simp add: chunks_pad_long)
  next
    case False
    then show ?thesis using "1.prems" by (simp add: keccak_loop.simps [of r st inp])
  qed
qed

lemma keccak_final_block:
  assumes "length m < r"
  defines "temp \<equiv> m @ [1] @ replicate (r - (length m + 1)) 0"
  shows "temp[r - 1 := temp ! (r - 1) OR 0x80] = keccak_pad r m"
proof (cases "r = Suc (length m)")
  case True
  then show ?thesis by (simp add: temp_def keccak_pad_def)
next
  case False
  then obtain q where q: "r = length m + q + 2" using assms
    by (metis add_2_eq_Suc' add_Suc_right less_iff_Suc_add less_antisym not_less_eq add.commute)
  have "replicate (Suc q) (0::u8) = replicate q 0 @ [0]" by (simp add: replicate_append_same)
  then have temp: "temp = (m @ [1] @ replicate q 0) @ [0]" using q by (simp add: temp_def)
  have "r - 1 = length (m @ [1] @ replicate q (0::u8))" using q by simp
  then show ?thesis unfolding temp
    by (simp only: nth_append_length list_update_length) (simp add: keccak_pad_def q)
qed

lemma keccak_sponge_rate:
  assumes "rsiz = (if mdlen = 200 then 136 else 200 - 2 * int mdlen)"
    and "0 < r" and "r \<le> 144" and "rsiz = int r"
  shows "keccak inp mdlen = Some (sponge (\<lambda>st. keccakf st 24) r mdlen inp)"
proof -
  have rate: "(if 200 = int mdlen then 136 else 200 - 2 * int mdlen) = int r" using assms by auto
  obtain st rest where loop: "keccak_loop r (replicate 25 0) inp = (st, rest)" by fastforce
  note inv = keccak_loop_sponge [OF assms(2) _ _ loop]
  have "length st = 25" "length rest < r" using inv assms(3) by auto
  then have "keccak_xor_in st (r div 8) (keccak_pad r rest) = absorb_block st (keccak_pad r rest)"
    using assms(3) by (intro keccak_xor_in_absorb) (auto simp: length_keccak_pad_short)
  then have "keccak inp mdlen =
      Some (take mdlen (lane_bytes (keccakf (absorb_block st (keccak_pad r rest)) 24)))"
    using assms(2,3) loop \<open>length rest < r\<close> keccak_final_block [of rest r]
    unfolding keccak_def Let_def rate by simp
  also have "\<dots> = Some (sponge (\<lambda>st. keccakf st 24) r mdlen inp)"
    using inv assms(3) \<open>length rest < r\<close> by (simp add: sponge_def sponge_state_def chunks_pad_short)
  finally show ?thesis .
qed

lemma keccak_None_iff: "keccak inp mdlen = None \<longleftrightarrow> mdlen \<noteq> 200 \<and> (100 \<le> mdlen \<or> mdlen < 28)"
  by (auto simp: keccak_def Let_def split: if_splits prod.splits)

lemma keccak1600_sponge: "keccak1600 inp = Some (sponge (\<lambda>st. keccakf st 24) 136 200 inp)"
  unfolding keccak1600_def by (rule keccak_sponge_rate [OF refl]) simp_all

lemma keccak_digest_sponge:
  assumes "28 \<le> mdlen" and "mdlen < 100"
  shows "keccak inp mdlen = Some (sponge (\<lambda>st. keccakf st 24) (200 - 2 * mdlen) mdlen inp)"
  by (rule keccak_sponge_rate [OF refl]) (use assms in auto)



section \<open>The unrolled form is the sponge\<close>

lemma ethash_absorb_words:
  assumes "n \<le> length st"
  shows "foldl ethash_absorb_step (st, data) [0..<n] =
    (map (\<lambda>i. if i < n then st ! i XOR absorb_word data i else st ! i) [0..<length st],
     drop (8 * n) data)"
  using assms
proof (induction n)
  case 0
  then show ?case by (simp add: map_nth)
next
  case (Suc n)
  then show ?case
    by (auto simp: ethash_absorb_step_def absorb_word_def load_le_def nth_list_update
        intro!: nth_equalityI)
qed

lemma absorb_word_take: "8 * i + 8 \<le> r \<Longrightarrow> absorb_word (take r m) i = absorb_word m i"
  by (simp add: absorb_word_def drop_take)

lemma ethash_block_absorb:
  assumes "r mod 8 = 0" and "r \<le> 200" and "length st = 25" and "r \<le> length data"
  shows "foldl ethash_absorb_step (st, data) [0..<r div 8] =
    (absorb_block st (take r data), drop r data)"
proof -
  have "8 * (r div 8) = r" using assms(1) by (simp add: mult.commute dvd_mult_div_cancel mod_0_imp_dvd)
  then show ?thesis
    using assms by (auto simp: ethash_absorb_words absorb_block_def absorb_word_take)
qed

lemma ethash_block_loop_sponge:
  assumes "0 < r" and "r mod 8 = 0" and "r \<le> 200" and "length st = 25"
    and "ethash_block_loop r st data (length data) = (st', rest, sz)"
  shows "length st' = 25 \<and> sz = length rest \<and> length rest < r \<and>
    fold (\<lambda>blk st. ethash_keccakf1600 (absorb_block st blk)) (chunks r (keccak_pad r data)) st =
    fold (\<lambda>blk st. ethash_keccakf1600 (absorb_block st blk)) (chunks r (keccak_pad r rest)) st'"
  using assms(4,5)
proof (induction "length data" arbitrary: st data rule: less_induct)
  case less
  show ?case
  proof (cases "r \<le> length data")
    case True
    define st1 where "st1 = ethash_keccakf1600 (absorb_block st (take r data))"
    have len: "length st1 = 25"
      using less.prems ethash_perm.absorb_lanes by (simp add: st1_def)
    have "ethash_block_loop r st1 (drop r data) (length (drop r data)) = (st', rest, sz)"
      using less.prems True assms
      by (simp add: ethash_block_loop.simps [of r st data] ethash_block_absorb st1_def)
    from less.hyps [OF _ len this] show ?thesis
      using True assms(1) by (simp add: chunks_pad_long st1_def)
  next
    case False
    then show ?thesis using less.prems by (auto simp: ethash_block_loop.simps [of r st data])
  qed
qed

lemma absorb_prefix_0: "absorb_prefix st m 0 = st"
  by (simp add: absorb_prefix_def map_nth)

lemma absorb_prefix_Suc:
  "j < length st \<Longrightarrow>
   (absorb_prefix st m j)[j := absorb_prefix st m j ! j XOR absorb_word m j] = absorb_prefix st m (Suc j)"
  by (auto intro!: nth_equalityI simp: absorb_prefix_def nth_list_update)

lemma ethash_word_loop_prefix:
  assumes "k \<le> length m div 8" and "length m div 8 \<le> length st"
  shows "ethash_word_loop (absorb_prefix st m k) k (drop (8 * k) m) (length m - 8 * k) =
    (absorb_prefix st m (length m div 8), length m div 8, drop (8 * (length m div 8)) m, length m mod 8)"
  using assms(1)
proof (induction rule: inc_induct)
  case base
  have "\<not> 8 \<le> length m - 8 * (length m div 8)"
    by (simp add: minus_mult_div_eq_mod not_le)
  then show ?case by (subst ethash_word_loop.simps) (simp add: minus_mult_div_eq_mod)
next
  case (step k)
  have "8 \<le> length m - 8 * k" using step.hyps by (simp add: less_eq_div_iff_mult_less_eq Suc_le_eq [symmetric])
  moreover have "k < length st" using step.hyps assms(2) by simp
  ultimately show ?case
    using step.IH absorb_prefix_Suc [of k st m]
    by (subst ethash_word_loop.simps) (simp add: load_le_def absorb_word_def add.commute)
qed

lemma xor_list_zeros: "xor_list u (replicate (length u) 0) = u"
  by (auto simp: xor_list_def intro!: nth_equalityI)

lemma xor_list_snoc:
  "length u = length v \<Longrightarrow> xor_list (u @ [a]) (v @ [b]) = xor_list u v @ [a XOR b]"
  by (simp add: xor_list_def)

lemma keccak_pad_xor:
  assumes "length m < r"
  shows "keccak_pad r m =
    xor_list (m @ [1] @ replicate (r - (length m + 1)) 0) (replicate (r - 1) 0 @ [0x80])"
proof (cases "r = Suc (length m)")
  case True
  then show ?thesis by (simp add: keccak_pad_def xor_list_snoc xor_list_zeros)
next
  case False
  then obtain q where q: "r = length m + q + 2" using assms
    by (metis add_2_eq_Suc' add_Suc_right less_iff_Suc_add less_antisym not_less_eq add.commute)
  let ?u = "m @ [1] @ replicate q 0"
  have "m @ [1] @ replicate (r - (length m + 1)) 0 = ?u @ [0]"
    using q by (simp add: replicate_append_same)
  moreover have "r - 1 = length ?u" using q by simp
  ultimately show ?thesis
    by (simp only: xor_list_snoc xor_list_zeros length_replicate) (simp add: keccak_pad_def q)
qed

lemma absorb_word_xor:
  "length xs = length ys \<Longrightarrow> absorb_word (xor_list xs ys) i = absorb_word xs i XOR absorb_word ys i"
proof -
  assume len: "length xs = length ys"
  have "take 8 (drop (8 * i) (xor_list xs ys)) =
      xor_list (take 8 (drop (8 * i) xs)) (take 8 (drop (8 * i) ys))"
    by (simp add: xor_list_def take_map drop_map take_zip drop_zip)
  then show ?thesis using len by (simp add: absorb_word_def le_load_xor_list)
qed

lemma le_load_zeros [simp]: "le_load (replicate n 0) = 0"
  using le_load_append_zeros [of "[]"] by simp

lemma absorb_word_end:
  assumes "r mod 8 = 0" and "i < r div 8"
  shows "absorb_word (replicate (r - 1) 0 @ [0x80]) i =
    (if i = r div 8 - 1 then 0x8000000000000000 else 0)"
proof -
  obtain n where r: "r = 8 * n" using assms(1) by (metis mod_0_imp_dvd dvdE)
  show ?thesis
  proof (cases "i = n - 1")
    case True
    then have "8 * n - 1 - 8 * i = 7" "8 * i \<le> 8 * n - 1" using assms r by auto
    then have "take 8 (drop (8 * i) (replicate (r - 1) 0 @ [0x80])) = replicate 7 0 @ [0x80::u8]"
      using r by simp
    moreover have "le_load (replicate 7 0 @ [0x80]) = (0x8000000000000000 :: u64)"
      by code_simp
    ultimately show ?thesis using True r by (simp add: absorb_word_def)
  next
    case False
    then have "8 * i + 8 \<le> r - 1" using assms r by auto
    then have "take 8 (drop (8 * i) (replicate (r - 1) 0 @ [0x80])) = replicate 8 (0::u8)"
      by (simp add: min_def)
    then show ?thesis using False r by (simp add: absorb_word_def)
  qed
qed

lemma absorb_word_tail:
  assumes "length m < r" and "r mod 8 = 0" and "i < r div 8"
  shows "absorb_word (m @ [1] @ replicate (r - (length m + 1)) 0) i =
    (if i < length m div 8 then absorb_word m i
     else if i = length m div 8 then le_load (drop (8 * i) m @ [1])
     else 0)"
proof -
  let ?z = "replicate (r - (length m + 1)) (0::u8)"
  consider "i < length m div 8" | "i = length m div 8" | "length m div 8 < i" by linarith
  then show ?thesis
  proof cases
    case 1
    then have "8 * i + 8 \<le> length m" by (simp add: less_eq_div_iff_mult_less_eq Suc_le_eq [symmetric])
    then show ?thesis using 1 by (simp add: absorb_word_def)
  next
    case 2
    have "8 * i \<le> length m" "length m < 8 * i + 8" using 2 by auto
    then obtain d where "8 - (length m - 8 * i) = Suc d"
      by (metis add.commute less_diff_conv2 Suc_diff_Suc)
    then have "take 8 (drop (8 * i) (m @ [1] @ ?z)) =
        (drop (8 * i) m @ [1]) @ replicate (min (r - (length m + 1)) d) 0"
      using \<open>8 * i \<le> length m\<close> by (simp add: min.commute)
    then show ?thesis using 2 by (simp only: absorb_word_def le_load_append_zeros) simp
  next
    case 3
    then have "length m + 1 \<le> 8 * i" by auto
    then have "drop (8 * i) ((m @ [1]) @ ?z) = replicate (r - 8 * i) 0"
      by (simp only: drop_append) simp
    then show ?thesis using 3 by (simp add: absorb_word_def)
  qed
qed

lemma ethash_last_word_eq:
  assumes "length data = n" and "n < 8"
  shows "ethash_last_word data n = le_load (data @ [1])"
proof -
  have "fold (\<lambda>k b. b[k := data ! k]) [0..<n] (replicate 8 (0::u8)) = data @ replicate (8 - n) 0"
    using fold_update_map [of n "replicate 8 (0::u8)" "\<lambda>k _. data ! k"] assms
    by (auto intro!: nth_equalityI simp: nth_append)
  moreover have "(data @ replicate (8 - n) 0)[n := 1] = (data @ [1]) @ replicate (7 - n) (0::u8)"
    using assms by (cases "8 - n") (auto simp: list_update_append)
  ultimately show ?thesis
    by (simp only: ethash_last_word_def Let_def le_load_append_zeros)
qed

lemma ethash_final_block:
  assumes "length m < r" and "r mod 8 = 0" and "r \<le> 200" and "length st = 25"
  defines "n \<equiv> length m div 8" and "k \<equiv> r div 8 - 1"
  defines "st1 \<equiv> (absorb_prefix st m n)[n := absorb_prefix st m n ! n XOR le_load (drop (8 * n) m @ [1])]"
  shows "st1[k := st1 ! k XOR 0x8000000000000000] = absorb_block st (keccak_pad r m)"
proof -
  have n: "n < r div 8" using assms(1,2) unfolding n_def
    by (metis mod_0_imp_dvd less_mult_imp_div_less dvd_div_mult_self)
  have word: "absorb_word (keccak_pad r m) i =
      (if i < n then absorb_word m i else if i = n then le_load (drop (8 * i) m @ [1]) else 0) XOR
      (if i = k then 0x8000000000000000 else 0)" if "i < r div 8" for i
    unfolding keccak_pad_xor [OF assms(1)] n_def k_def
    using assms(1) by (subst absorb_word_xor)
      (simp, simp only: absorb_word_end [OF assms(2) that] absorb_word_tail [OF assms(1,2) that])
  show ?thesis
    using n assms(3,4) word
    by (intro nth_equalityI)
      (auto simp: st1_def absorb_prefix_def absorb_block_def nth_list_update
        length_keccak_pad_short [OF assms(1)] k_def xor.assoc)
qed

lemma take_lane_bytes: "take (8 * w) (lane_bytes st) = lane_bytes (take w st)"
proof (induction st arbitrary: w)
  case (Cons a st)
  then show ?case by (cases w) (simp_all add: lane_bytes_def)
qed (simp add: lane_bytes_def)

lemma ethash_keccak_sponge_aux:
  assumes "0 < bits" and "bits < 800" and "bits mod 64 = 0"
  shows "lane_bytes (ethash_keccak bits data) =
    sponge ethash_keccakf1600 (200 - bits div 4) (bits div 8) data"
proof -
  obtain w where w: "bits = 64 * w" using assms(3) by (metis mod_0_imp_dvd dvdE)
  define r where "r = 200 - bits div 4"
  have r: "0 < r" "r mod 8 = 0" "r \<le> 200" "(1600 - bits * 2) div 8 = r" "w < 25" "bits div 8 = 8 * w"
    using assms w by (auto simp: r_def)
  obtain st rest sz where loop: "ethash_block_loop r (replicate 25 0) data (length data) = (st, rest, sz)"
    by (metis prod_cases3)
  note inv = ethash_block_loop_sponge [OF r(1,2,3) _ loop]
  have st: "length st = 25" "sz = length rest" "length rest < r" using inv by auto
  define n where "n = length rest div 8"
  have n: "n \<le> length st" using st r(3) by (simp add: n_def)
  have words: "ethash_word_loop st 0 rest sz =
      (absorb_prefix st rest n, n, drop (8 * n) rest, length rest mod 8)"
    using ethash_word_loop_prefix [of 0 rest st] n st absorb_prefix_0 [of st rest]
    by (simp add: n_def)
  have last: "ethash_last_word (drop (8 * n) rest) (length rest mod 8) = le_load (drop (8 * n) rest @ [1])"
    by (rule ethash_last_word_eq) (simp_all add: n_def minus_mult_div_eq_mod)
  define fin where "fin = ethash_keccakf1600 (absorb_block st (keccak_pad r rest))"
  have "length fin = 25" using st by (simp add: fin_def ethash_perm.absorb_lanes)
  have "bits div 8 div 8 = w" using w by simp
  then have "ethash_keccak bits data = map (\<lambda>i. fin ! i) [0..<w]"
    using ethash_final_block [OF st(3) r(2,3) st(1)]
    by (simp add: ethash_keccak_def r(4) loop words last fin_def n_def [symmetric] Let_def)
  also have "\<dots> = take w fin" using \<open>length fin = 25\<close> r(5) by (auto intro!: nth_equalityI)
  finally have "lane_bytes (ethash_keccak bits data) = take (8 * w) (lane_bytes fin)"
    using take_lane_bytes by simp
  also have "\<dots> = sponge ethash_keccakf1600 r (8 * w) data"
    using inv st(3) by (simp add: sponge_def sponge_state_def chunks_pad_short fin_def)
  finally show ?thesis using r(6) by (simp add: r_def)
qed

text \<open>The word-at-a-time digest routine of \<open>cn/ethash/keccak.c\<close> (full blocks, then
  full words, then the last partial word carrying the padding bit) computes the same
  Keccak sponge, for every message and every digest length in whole words.\<close>

theorem ethash_keccak_sponge:
  assumes "0 < bits" and "bits < 800" and "bits mod 64 = 0"
  shows "lane_bytes (ethash_keccak bits data) =
    sponge (\<lambda>st. keccak_p 6 24 st) (200 - bits div 4) (bits div 8) data"
  unfolding ethash_keccak_sponge_aux [OF assms]
  using ref_perm.sponge_cong_perm [of ethash_keccakf1600] by (simp add: ethash_keccakf1600_ref)

theorem ethash_keccak_sponge_witness:
  "lane_bytes (ethash_keccak 512 [0x61, 0x62, 0x63]) =
    sponge (\<lambda>st. keccak_p 6 24 st) 72 64 [0x61, 0x62, 0x63]"
  using ethash_keccak_sponge [of 512 "[0x61, 0x62, 0x63]"] by simp


lemma cn_fast_hash_length [simp]: "length (cn_fast_hash data) = 32"
  using keccak_digest_sponge [of 32 data] cn_perm.digest_length [of 32]
  by (simp add: cn_fast_hash_def keccak_md_def)

text \<open>The two digest entry points of \<open>hash.c\<close> agree: truncating the 200-byte state
  that \<open>hash_process\<close> leaves gives the 32-byte digest of \<open>cn_fast_hash\<close>.\<close>

theorem cn_fast_hash_old_eq: "cn_fast_hash_old data = cn_fast_hash data"
  using keccak1600_sponge [of data] keccak_digest_sponge [of 32 data]
  by (simp add: cn_fast_hash_old_def hash_process_def cn_fast_hash_def keccak_md_def sponge_def min_def)

end
