(* ===== verification/Hash_Tree.thy ===== *)
theory Hash_Tree
  imports Prelude
begin

text \<open>
  Binary hash trees over a pairing hash \<open>H\<close>, shared by the CryptoNote tree of
  \<^verbatim>\<open>src/src/crypto/cn/crypto/tree-hash.c\<close> and the Bitcoin-style tree of
  \<^verbatim>\<open>src/src/crypto/merkle_tree.hpp\<close>. Both files hash a level of the tree in place
  (\<open>pair_level\<close>): node \<open>j\<close> of the next level overwrites slot \<open>j\<close> of the array that
  still holds the current level. The lemmas turn that loop into the functional
  \<open>pair_up\<close>, and \<open>pair_up\<close> levels into the recursive \<open>tree_root\<close>.
\<close>

section \<open>Reference trees\<close>

fun pair_up :: "('h \<Rightarrow> 'h \<Rightarrow> 'h) \<Rightarrow> 'h list \<Rightarrow> 'h list" where
  "pair_up H (a # b # xs) = H a b # pair_up H xs"
| "pair_up H xs = xs"

fun tree_root :: "('h \<Rightarrow> 'h \<Rightarrow> 'h) \<Rightarrow> nat \<Rightarrow> 'h list \<Rightarrow> 'h" where
  "tree_root H 0 xs = hd xs"
| "tree_root H (Suc k) xs =
     H (tree_root H k (take (2 ^ k) xs)) (tree_root H k (drop (2 ^ k) xs))"

text \<open>One level in place: the loop \<open>for (i = 0, j = 0; j < n; i += 2, ++j)\<close>.\<close>

definition pair_level :: "('h \<Rightarrow> 'h \<Rightarrow> 'h) \<Rightarrow> nat \<Rightarrow> 'h list \<Rightarrow> 'h list" where
  "pair_level H n xs = fold (\<lambda>j xs. xs[j := H (xs ! (2 * j)) (xs ! (2 * j + 1))]) [0..<n] xs"

section \<open>The loop and the recursion\<close>

lemma length_pair_level [simp]: "length (pair_level H n xs) = length xs"
  unfolding pair_level_def by (induction n) simp_all

lemma pair_level_nth:
  assumes "2 * n \<le> length xs" and "i < length xs"
  shows "pair_level H n xs ! i = (if i < n then H (xs ! (2 * i)) (xs ! (2 * i + 1)) else xs ! i)"
  using assms
proof (induction n arbitrary: i)
  case 0
  then show ?case by (simp add: pair_level_def)
next
  case (Suc n)
  have "pair_level H (Suc n) xs =
      (pair_level H n xs)[n := H (pair_level H n xs ! (2 * n)) (pair_level H n xs ! (2 * n + 1))]"
    by (simp add: pair_level_def)
  then show ?case using Suc by (cases "n = 0") (auto simp: nth_list_update less_Suc_eq)
qed

lemma length_pair_up: "length (pair_up H xs) = (length xs + 1) div 2"
  by (induction H xs rule: pair_up.induct) simp_all

lemma pair_up_nth:
  "2 * i + 1 < length xs \<Longrightarrow> pair_up H xs ! i = H (xs ! (2 * i)) (xs ! (2 * i + 1))"
proof (induction H xs arbitrary: i rule: pair_up.induct)
  case (1 H a b xs)
  then show ?case by (cases i) simp_all
qed simp_all

lemma pair_up_append: "even (length xs) \<Longrightarrow> pair_up H (xs @ ys) = pair_up H xs @ pair_up H ys"
  by (induction H xs rule: pair_up.induct) auto

lemma pair_level_pair_up:
  assumes "2 * n \<le> length xs"
  shows "take n (pair_level H n xs) = pair_up H (take (2 * n) xs)"
proof (rule nth_equalityI)
  show "length (take n (pair_level H n xs)) = length (pair_up H (take (2 * n) xs))"
    using assms by (simp add: length_pair_up)
  fix i assume "i < length (take n (pair_level H n xs))"
  then have "i < n" by simp
  then show "take n (pair_level H n xs) ! i = pair_up H (take (2 * n) xs) ! i"
    using assms by (simp add: pair_level_nth pair_up_nth)
qed

lemma tree_root_pair_up:
  "length xs = 2 ^ Suc k \<Longrightarrow> tree_root H (Suc k) xs = tree_root H k (pair_up H xs)"
proof (induction k arbitrary: xs)
  case 0
  then obtain a b where "xs = [a, b]" by (auto simp: numeral_2_eq_2 length_Suc_conv)
  then show ?case by simp
next
  case (Suc k)
  let ?l = "take (2 ^ Suc k) xs" and ?r = "drop (2 ^ Suc k) xs"
  have len: "length ?l = 2 ^ Suc k" "length ?r = 2 ^ Suc k" using Suc.prems by simp_all
  have "pair_up H xs = pair_up H ?l @ pair_up H ?r"
    using pair_up_append [of ?l H ?r] len by simp
  moreover have "length (pair_up H ?l) = 2 ^ k" using len by (simp add: length_pair_up)
  ultimately show ?case using Suc.IH [OF len(1)] Suc.IH [OF len(2)] by (simp del: power_Suc)
qed

section \<open>Digests as an interface\<close>

text \<open>What a tree needs of its hash: every inner node is a 32-byte digest.\<close>

locale digest_pair =
  fixes H :: "u8 list \<Rightarrow> u8 list \<Rightarrow> u8 list"
  assumes digest_size: "length (H a b) = 32"
begin

lemma pair_up_digests: "\<forall>x \<in> set xs. length x = 32 \<Longrightarrow> \<forall>x \<in> set (pair_up H xs). length x = 32"
  by (induction xs rule: induct_list012) (simp_all add: digest_size)

lemma tree_root_digest:
  assumes "\<forall>x \<in> set xs. length x = 32" and "xs \<noteq> []"
  shows "length (tree_root H k xs) = 32"
  using assms by (cases k) (simp_all add: digest_size)

end

end
