(* ===== verification/Tree_Hash.thy ===== *)
theory Tree_Hash
  imports Keccak_Sponge Hash_Tree
begin

text \<open>
  The Merkle tree of a CryptoNote block, \<^verbatim>\<open>src/src/crypto/cn/crypto/tree-hash.c\<close>.
  The array of digests is a list of byte strings; \<open>hashes[i]\<close> read as 64 bytes is the
  concatenation of elements \<open>i\<close> and \<open>i + 1\<close>. The two assertions of the source are the
  \<open>None\<close> results, and \<open>junk\<close> is the content the \<open>alloca\<close> buffer starts with.
\<close>

unbundle bit_operations_syntax

definition cn_pair :: "u8 list \<Rightarrow> u8 list \<Rightarrow> u8 list" where
  "cn_pair a b = cn_fast_hash (a @ b)"

text \<open>The bit trick on \<open>size_t\<close> that finds the width of the last full level.\<close>

definition tree_smear :: "u64 \<Rightarrow> u64" where
  "tree_smear cnt = fold (\<lambda>i cnt. cnt OR drop_bit i cnt) [1, 2, 4, 8, 16, 32] cnt"

definition tree_cnt :: "u64 \<Rightarrow> u64" where
  "tree_cnt count = (let cnt = tree_smear (count - 1) in cnt AND NOT (drop_bit 1 cnt))"

text \<open>\<open>while (cnt > 2) { cnt >>= 1; ... }\<close>\<close>

fun tree_levels :: "nat \<Rightarrow> u8 list list \<Rightarrow> u8 list list" where
  "tree_levels cnt ints =
     (if 2 < cnt then tree_levels (cnt div 2) (pair_level cn_pair (cnt div 2) ints) else ints)"

declare tree_levels.simps [simp del]

text \<open>One turn of the loop that hashes the leaves of the lowest level in pairs.\<close>

definition tree_fill_step :: "u8 list list \<Rightarrow> nat \<Rightarrow> nat \<times> u8 list list \<Rightarrow> nat \<times> u8 list list" where
  "tree_fill_step hashes =
     (\<lambda>j (i, ints). (i + 2, ints[j := cn_fast_hash (hashes ! i @ hashes ! (i + 1))]))"

definition tree_hash :: "u8 list \<Rightarrow> u8 list list \<Rightarrow> u8 list option" where
  "tree_hash junk hashes =
    (let count = length hashes in
     if count = 0 then None
     else if count = 1 then Some (hashes ! 0)
     else if count = 2 then Some (cn_fast_hash (hashes ! 0 @ hashes ! 1))
     else
       let cnt = unat (tree_cnt (of_nat count));
           ints = take (2 * cnt - count) hashes @ replicate (cnt - (2 * cnt - count)) junk;
           (i, ints) = fold (tree_fill_step hashes)
              [2 * cnt - count..<cnt] (2 * cnt - count, ints)
       in if i \<noteq> count then None
          else let ints = tree_levels cnt ints
               in Some (cn_fast_hash (ints ! 0 @ ints ! 1)))"

section \<open>The width of the last full level\<close>

lemma bit_smear_step:
  assumes "\<And>n. bit w n \<longleftrightarrow> (\<exists>m. n \<le> m \<and> m < n + i \<and> bit v m)"
  shows "bit (w OR drop_bit i w) n \<longleftrightarrow> (\<exists>m. n \<le> m \<and> m < n + 2 * i \<and> bit (v :: u64) m)"
proof -
  have "bit (w OR drop_bit i w) n \<longleftrightarrow> bit w n \<or> bit w (i + n)"
    by (simp add: bit_or_iff bit_drop_bit_eq)
  also have "\<dots> \<longleftrightarrow> (\<exists>m. n \<le> m \<and> m < n + 2 * i \<and> bit v m)"
  proof -
    have "n \<le> m \<and> m < n + 2 * i \<longleftrightarrow> n \<le> m \<and> m < n + i \<or> i + n \<le> m \<and> m < i + n + i" for m
      by auto
    then show ?thesis unfolding assms by blast
  qed
  finally show ?thesis .
qed

lemma bit_tree_smear: "bit (tree_smear v) n \<longleftrightarrow> (\<exists>m. n \<le> m \<and> bit v m)"
proof -
  have 0: "bit v n \<longleftrightarrow> (\<exists>m. n \<le> m \<and> m < n + 1 \<and> bit v m)" for n
    by (auto simp: le_antisym less_Suc_eq_le)
  note s1 = bit_smear_step [OF 0]
  note s2 = bit_smear_step [OF s1]
  note s3 = bit_smear_step [OF s2]
  note s4 = bit_smear_step [OF s3]
  note s5 = bit_smear_step [OF s4]
  note s6 = bit_smear_step [OF s5]
  have "bit (tree_smear v) n \<longleftrightarrow> (\<exists>m. n \<le> m \<and> m < n + 64 \<and> bit v m)"
    using s6 [of n] by (simp add: tree_smear_def)
  also have "\<dots> \<longleftrightarrow> (\<exists>m. n \<le> m \<and> bit v m)"
    using bit_imp_le_length by (fastforce dest: bit_imp_le_length)
  finally show ?thesis .
qed

lemma tree_cnt_power:
  assumes "2 ^ k < count" and "count \<le> 2 ^ Suc k" and "count < 2 ^ 64"
  shows "unat (tree_cnt (of_nat count)) = 2 ^ k"
proof -
  let ?v = "of_nat count - 1 :: u64"
  have k: "k < 64" using assms(1,3) by (meson less_trans power_less_imp_less_exp one_less_numeral_iff semiring_norm(76))
  have "1 \<le> count" using assms(1) by (metis One_nat_def Suc_leI gr0I not_less0)
  then have v: "?v = of_nat (count - 1)" by (simp add: of_nat_diff)
  have bitv: "bit ?v m \<longleftrightarrow> m < 64 \<and> bit (count - 1) m" for m
    unfolding v by (simp add: bit_of_nat_iff)
  have top: "bit (count - 1) k"
  proof -
    have "(count - 1) div 2 ^ k = 1"
      using assms(1,2) by (intro div_nat_eqI) auto
    then show ?thesis by (simp add: bit_iff_odd)
  qed
  have above: "\<not> bit (count - 1) m" if "k < m" for m
  proof -
    have "count - 1 < 2 ^ m"
      using assms(1,2) that by (metis One_nat_def Suc_leI diff_Suc_less gr0I le_trans less_le_trans not_less0
          one_le_numeral power_increasing)
    then show ?thesis by (simp add: bit_iff_odd)
  qed
  have smear: "bit (tree_smear ?v) n \<longleftrightarrow> n \<le> k" for n
    unfolding bit_tree_smear bitv using top above k by (metis leI le_trans)
  have "tree_cnt (of_nat count) = push_bit k 1"
    unfolding tree_cnt_def Let_def
    by (rule bit_word_eqI) (auto simp: bit_and_iff bit_not_iff bit_drop_bit_eq smear bit_push_bit_iff bit_1_iff
        bit_exp_iff)
  also have "\<dots> = of_nat (2 ^ k)" by (simp add: push_bit_eq_mult)
  moreover have "(2 :: nat) ^ k < 2 ^ 64" using k by (rule power_strict_increasing) simp
  ultimately show ?thesis by (simp only: unat_of_nat) simp
qed

section \<open>The levels\<close>

lemma tree_levels_root:
  assumes "length ints \<ge> 2 ^ Suc k"
  shows "(let r = tree_levels (2 ^ Suc k) ints in cn_pair (r ! 0) (r ! 1)) =
    tree_root cn_pair (Suc k) (take (2 ^ Suc k) ints)"
  using assms
proof (induction k arbitrary: ints)
  case 0
  then obtain a b xs where "ints = a # b # xs"
    by (metis One_nat_def Suc_le_length_iff numeral_2_eq_2 power_one_right)
  then show ?case by (simp add: tree_levels.simps Let_def)
next
  case (Suc k)
  let ?n = "2 ^ Suc k :: nat"
  let ?next = "pair_level cn_pair ?n ints"
  have len: "2 * ?n \<le> length ints" "?n \<le> length ?next" using Suc.prems by simp_all
  have lev: "tree_levels (2 ^ Suc (Suc k)) ints = tree_levels ?n ?next"
    using one_less_power [of "2 :: nat" "Suc k"] by (subst tree_levels.simps) simp
  have "length (take (2 * ?n) ints) = 2 ^ Suc (Suc k)" using Suc.prems by simp
  then have root: "tree_root cn_pair (Suc (Suc k)) (take (2 * ?n) ints) =
      tree_root cn_pair (Suc k) (pair_up cn_pair (take (2 * ?n) ints))"
    by (rule tree_root_pair_up)
  show ?case
    unfolding lev Suc.IH [OF len(2)] pair_level_pair_up [OF len(1)] root [symmetric] by simp
qed

lemma tree_fill_snoc:
  "\<forall>j \<in> set js. j < length xs \<Longrightarrow>
   fold (tree_fill_step hashes) js (i, xs @ [y]) =
   (case fold (tree_fill_step hashes) js (i, xs) of (i, zs) \<Rightarrow> (i, zs @ [y]))"
  by (induction js arbitrary: i xs) (auto simp: tree_fill_step_def list_update_append)

text \<open>The loop that fills the second part of the buffer, and its index \<open>i\<close>.\<close>

lemma tree_fill:
  assumes "k \<le> c" and "length ints = c" and "k + 2 * (c - k) \<le> length hashes"
  shows "fold (tree_fill_step hashes) [k..<c] (k, ints) =
    (k + 2 * (c - k), take k ints @ pair_up cn_pair (take (2 * (c - k)) (drop k hashes)))"
  using assms
proof (induction c arbitrary: ints)
  case 0
  then show ?case by simp
next
  case (Suc c)
  show ?case
  proof (cases "k = Suc c")
    case True
    then show ?thesis using Suc.prems by simp
  next
    case False
    then have kc: "k \<le> c" using Suc.prems(1) by simp
    obtain xs y where ints: "ints = xs @ [y]" "length xs = c"
      using Suc.prems(2) by (metis length_Suc_conv_rev)
    let ?d = "drop k hashes"
    have len: "2 * (c - k) + 1 < length ?d" using Suc.prems(3) kc by simp
    have "take (2 * (Suc c - k)) ?d = take (2 * (c - k)) ?d @ [?d ! (2 * (c - k)), ?d ! (2 * (c - k) + 1)]"
      using len kc by (simp add: Suc_diff_le take_Suc_conv_app_nth)
    then have pairs: "pair_up cn_pair (take (2 * (Suc c - k)) ?d) =
        pair_up cn_pair (take (2 * (c - k)) ?d) @ [cn_pair (?d ! (2 * (c - k))) (?d ! (2 * (c - k) + 1))]"
      using len by (simp add: pair_up_append)
    define zs where "zs = take k xs @ pair_up cn_pair (take (2 * (c - k)) ?d)"
    have zs: "length zs = c" using len kc ints(2) by (simp add: zs_def length_pair_up)
    have "fold (tree_fill_step hashes) [k..<Suc c] (k, ints) =
        tree_fill_step hashes c (fold (tree_fill_step hashes) [k..<c] (k, xs @ [y]))"
      using kc ints(1) by simp
    also have "\<dots> = tree_fill_step hashes c (k + 2 * (c - k), zs @ [y])"
      using Suc.IH [OF kc ints(2)] Suc.prems(3) kc ints(2)
      by (simp add: tree_fill_snoc zs_def)
    also have "\<dots> = (k + 2 * (Suc c - k),
        zs @ [cn_pair (?d ! (2 * (c - k))) (?d ! (2 * (c - k) + 1))])"
      using kc len zs by (simp add: tree_fill_step_def cn_pair_def Suc_diff_le list_update_append)
    finally show ?thesis using pairs kc ints by (simp add: zs_def)
  qed
qed

lemma power_bracket:
  assumes "2 < (n :: nat)"
  shows "\<exists>k. 2 ^ Suc k < n \<and> n \<le> 2 ^ Suc (Suc k)"
  using assms
proof (induction n)
  case (Suc n)
  show ?case
  proof (cases "2 < n")
    case True
    then obtain k where k: "2 ^ Suc k < n" "n \<le> 2 ^ Suc (Suc k)" using Suc.IH by blast
    then show ?thesis
    proof (cases "n = 2 ^ Suc (Suc k)")
      case True
      have "Suc (2 ^ Suc (Suc k)) \<le> (2 :: nat) ^ Suc (Suc (Suc k))" by simp
      then show ?thesis using True by (intro exI [of _ "Suc k"]) (simp del: power_Suc)
    next
      case False
      then show ?thesis using k by (intro exI [of _ k]) auto
    qed
  next
    case False
    then have "n = 2" using Suc.prems by simp
    then show ?thesis by (intro exI [of _ 0]) simp
  qed
qed simp

lemma tree_hash_digest_root:
  assumes "2 ^ Suc k < length hashes" and "length hashes \<le> 2 ^ Suc (Suc k)" and "length hashes < 2 ^ 64"
  defines "n \<equiv> 2 ^ Suc (Suc k) - length hashes"
  shows "tree_hash junk hashes =
    Some (tree_root cn_pair (Suc k) (take n hashes @ pair_up cn_pair (drop n hashes)))"
proof -
  let ?c = "2 ^ Suc k :: nat"
  define ints where "ints = take n hashes @ replicate (?c - n) junk"
  have "(2 :: nat) ^ 1 \<le> 2 ^ Suc k" by (rule power_increasing) simp_all
  then have "2 < length hashes" using assms(1) by (simp only: power_one_right)
  have cnt: "unat (tree_cnt (of_nat (length hashes))) = ?c"
    using tree_cnt_power [of "Suc k" "length hashes"] assms by simp
  have n: "2 * ?c - length hashes = n" "n \<le> ?c" "n + 2 * (?c - n) = length hashes" "n \<le> length hashes"
    "length ints = ?c" "take n ints = take n hashes"
    using assms(1,2) by (auto simp: n_def ints_def)
  have fill: "fold (tree_fill_step hashes)
      [n..<?c] (n, ints) = (length hashes, take n hashes @ pair_up cn_pair (drop n hashes))"
    using tree_fill [of n ?c ints hashes] n by simp
  define ys where "ys = take n hashes @ pair_up cn_pair (drop n hashes)"
  have "length ys = ?c" using n by (simp add: ys_def length_pair_up)
  then have "(let r = tree_levels ?c ys in cn_pair (r ! 0) (r ! 1)) = tree_root cn_pair (Suc k) ys"
    using tree_levels_root [of k ys] by (simp del: tree_root.simps)
  then show ?thesis
    using \<open>2 < length hashes\<close> fill
    unfolding tree_hash_def Let_def cnt n(1) ints_def [symmetric] ys_def [symmetric]
    by (auto simp: cn_pair_def simp del: tree_root.simps)
qed

interpretation cn_digest: digest_pair cn_pair
  by unfold_locales (simp add: cn_pair_def)

text \<open>C33: for three or more leaves \<open>tree_hash\<close> never trips its assertions and returns the
  root of the CryptoNote tree: with \<open>2 ^ (k + 1) < n \<le> 2 ^ (k + 2)\<close> leaves, the first
  \<open>2 ^ (k + 2) - n\<close> leaves stand one level above the others, which are hashed in pairs,
  and the \<open>2 ^ (k + 1)\<close> nodes of the last full level are combined by halves. The result
  does not depend on what the stack buffer held before.\<close>

theorem tree_hash_root:
  assumes "2 ^ Suc k < length hashes" and "length hashes \<le> 2 ^ Suc (Suc k)" and "length hashes < 2 ^ 64"
  shows "tree_hash junk hashes =
    Some (tree_root cn_pair (Suc k)
      (take (2 ^ Suc (Suc k) - length hashes) hashes @
       pair_up cn_pair (drop (2 ^ Suc (Suc k) - length hashes) hashes)))"
  by (rule tree_hash_digest_root [OF assms])

theorem tree_hash_root_witness:
  "tree_hash [] [[1], [2], [3], [4], [5]] =
    Some (tree_root cn_pair (Suc 1) [[1], [2], [3], cn_pair [4] [5]])"
  using tree_hash_root [of 1 "[[1], [2], [3], [4], [5]]" "[]"] by simp

text \<open>The function \<open>tree_hash\<close> is defined exactly on non-empty lists of digests, and its result is a
  32-byte digest.\<close>

theorem tree_hash_total:
  assumes "length hashes < 2 ^ 64" and "\<forall>h \<in> set hashes. length h = 32"
  shows "case tree_hash junk hashes of None \<Rightarrow> hashes = [] | Some r \<Rightarrow> hashes \<noteq> [] \<and> length r = 32"
proof (cases "length hashes \<le> 2")
  case True
  then show ?thesis using assms(2) nth_mem [of 0 hashes]
    by (cases hashes) (auto simp: tree_hash_def Let_def le_Suc_eq numeral_2_eq_2)
next
  case False
  then obtain k where k: "2 ^ Suc k < length hashes" "length hashes \<le> 2 ^ Suc (Suc k)"
    using power_bracket [of "length hashes"] by auto
  let ?n = "2 ^ Suc (Suc k) - length hashes"
  define ys where "ys = take ?n hashes @ pair_up cn_pair (drop ?n hashes)"
  have "\<forall>x \<in> set ys. length x = 32"
    using assms(2) cn_digest.pair_up_digests [of "drop ?n hashes"]
    by (auto simp: ys_def dest: in_set_takeD in_set_dropD)
  moreover have "ys \<noteq> []"
    using k length_pair_up [of cn_pair "drop ?n hashes"] by (auto simp: ys_def)
  ultimately have "length (tree_root cn_pair (Suc k) ys) = 32"
    by (rule cn_digest.tree_root_digest)
  moreover have "tree_hash junk hashes = Some (tree_root cn_pair (Suc k) ys)"
    unfolding ys_def by (rule tree_hash_digest_root [OF k assms(1)])
  ultimately show ?thesis using k(1) by auto
qed

theorem tree_hash_total_witness:
  "case tree_hash [] (replicate 5 (replicate 32 7)) of
     None \<Rightarrow> replicate 5 (replicate 32 (7 :: u8)) = []
   | Some r \<Rightarrow> replicate 5 (replicate 32 (7 :: u8)) \<noteq> [] \<and> length r = 32"
  using tree_hash_total [of "replicate 5 (replicate 32 7)" "[]"] by simp

end
