(* ===== verification/Chacha8.thy ===== *)
theory Chacha8
  imports Keccak_Sponge
begin

text \<open>
  The ChaCha8 stream cipher of \<^verbatim>\<open>src/src/crypto/cn/crypto/chacha8.c\<close> and the wallet
  encryption \<open>chacha_crypt\<close> of \<^verbatim>\<open>chacha8.h\<close> that calls it. The sixteen local words
  \<open>x0..x15\<close> and \<open>j0..j15\<close> are lists of sixteen words; the last partial block goes
  through the stack buffer \<open>tmp\<close>, whose stale bytes are the parameter \<open>junk\<close>. The main
  results: the cipher is the exclusive or with a key stream whose block \<open>n\<close> has the
  64-bit counter \<open>n\<close> (the carry from \<open>j12\<close> to \<open>j13\<close> included), independent of
  \<open>junk\<close>, and encrypting twice gives the plain text back.
\<close>

unbundle bit_operations_syntax

section \<open>The cipher\<close>

definition rol32 :: "u32 \<Rightarrow> nat \<Rightarrow> u32" where
  "rol32 x r = push_bit (r mod 32) x OR drop_bit ((32 - r mod 32) mod 32) x"

definition QUARTERROUND :: "nat \<Rightarrow> nat \<Rightarrow> nat \<Rightarrow> nat \<Rightarrow> u32 list \<Rightarrow> u32 list" where
  "QUARTERROUND a b c d x =
    (let x = x[a := x ! a + x ! b]; x = x[d := rol32 (x ! d XOR x ! a) 16];
         x = x[c := x ! c + x ! d]; x = x[b := rol32 (x ! b XOR x ! c) 12];
         x = x[a := x ! a + x ! b]; x = x[d := rol32 (x ! d XOR x ! a) 8];
         x = x[c := x ! c + x ! d]; x = x[b := rol32 (x ! b XOR x ! c) 7]
     in x)"

definition chacha8_double_round :: "u32 list \<Rightarrow> u32 list" where
  "chacha8_double_round x =
    (let x = QUARTERROUND 0 4 8 12 x; x = QUARTERROUND 1 5 9 13 x;
         x = QUARTERROUND 2 6 10 14 x; x = QUARTERROUND 3 7 11 15 x;
         x = QUARTERROUND 0 5 10 15 x; x = QUARTERROUND 1 6 11 12 x;
         x = QUARTERROUND 2 7 8 13 x; x = QUARTERROUND 3 4 9 14 x
     in x)"

definition sigma :: "u8 list" where
  "sigma = map (\<lambda>c. of_nat (of_char c)) ''expand 32-byte k''"

definition U8TO32_LITTLE :: "u8 list \<Rightarrow> nat \<Rightarrow> u32" where
  "U8TO32_LITTLE p i = le_load (take 4 (drop i p))"

definition chacha8_init :: "u8 list \<Rightarrow> u8 list \<Rightarrow> u32 list" where
  "chacha8_init key iv =
     [U8TO32_LITTLE sigma 0, U8TO32_LITTLE sigma 4, U8TO32_LITTLE sigma 8, U8TO32_LITTLE sigma 12,
      U8TO32_LITTLE key 0, U8TO32_LITTLE key 4, U8TO32_LITTLE key 8, U8TO32_LITTLE key 12,
      U8TO32_LITTLE key 16, U8TO32_LITTLE key 20, U8TO32_LITTLE key 24, U8TO32_LITTLE key 28,
      0, 0, U8TO32_LITTLE iv 0, U8TO32_LITTLE iv 4]"

text \<open>\<open>for (i = 8; i > 0; i -= 2)\<close>: four double rounds, then the feed-forward.\<close>

definition chacha8_core :: "u32 list \<Rightarrow> u32 list" where
  "chacha8_core j = map2 (+) ((chacha8_double_round ^^ 4) j) j"

definition chacha8_block :: "u32 list \<Rightarrow> u8 list \<Rightarrow> u8 list" where
  "chacha8_block j data =
     concat (map (\<lambda>i. le_store 4 (chacha8_core j ! i XOR U8TO32_LITTLE data (4 * i))) [0..<16])"

definition chacha8_next :: "u32 list \<Rightarrow> u32 list" where
  "chacha8_next j =
    (let j = j[12 := j ! 12 + 1]
     in if j ! 12 = 0 then j[13 := j ! 13 + 1] else j)"

function chacha8_loop :: "u8 list \<Rightarrow> u32 list \<Rightarrow> u8 list \<Rightarrow> u8 list" where
  "chacha8_loop junk j data =
    (if length data < 64
     then take (length data) (chacha8_block j (data @ drop (length data) junk))
     else if length data \<le> 64 then chacha8_block j data
     else chacha8_block j (take 64 data) @ chacha8_loop junk (chacha8_next j) (drop 64 data))"
  by pat_completeness auto
termination
  by (relation "measure (\<lambda>(junk, j, data). length data)") auto

declare chacha8_loop.simps [simp del]

definition chacha8 :: "u8 list \<Rightarrow> u8 list \<Rightarrow> u8 list \<Rightarrow> u8 list \<Rightarrow> u8 list" where
  "chacha8 junk data key iv =
     (if length data = 0 then [] else chacha8_loop junk (chacha8_init key iv) data)"

definition generate_chacha8_key :: "u8 list \<Rightarrow> u8 list" where
  "generate_chacha8_key pass = cn_fast_hash pass"

definition chacha_crypt :: "u8 list \<Rightarrow> u8 list \<Rightarrow> u8 list \<Rightarrow> u8 list" where
  "chacha_crypt junk buff pass = chacha8 junk buff (generate_chacha8_key pass) (replicate 8 0)"

section \<open>The key stream\<close>

text \<open>Block \<open>n\<close> of the key stream: the counter is the 64-bit number \<open>n\<close> in \<open>j12\<close> and \<open>j13\<close>.\<close>

definition chacha8_counter :: "u32 list \<Rightarrow> nat \<Rightarrow> u32 list" where
  "chacha8_counter j n = j[12 := of_nat n, 13 := of_nat (n div 2 ^ 32)]"

definition chacha8_keystream :: "u8 list \<Rightarrow> u8 list \<Rightarrow> nat \<Rightarrow> u8" where
  "chacha8_keystream key iv i =
     concat (map (le_store 4) (chacha8_core (chacha8_counter (chacha8_init key iv) (i div 64)))) ! (i mod 64)"

lemma length_QUARTERROUND [simp]: "length (QUARTERROUND a b c d x) = length x"
  by (simp add: QUARTERROUND_def Let_def)

lemma length_double_rounds [simp]: "length ((chacha8_double_round ^^ n) x) = length x"
  by (induction n) (simp_all add: chacha8_double_round_def Let_def)

lemma length_chacha8_core [simp]: "length (chacha8_core j) = length j"
  by (simp add: chacha8_core_def)

lemma length_chacha8_init [simp]: "length (chacha8_init key iv) = 16"
  by (simp add: chacha8_init_def)

lemma length_chacha8_counter [simp]: "length (chacha8_counter j n) = length j"
  by (simp add: chacha8_counter_def)

lemma le_store_xor: "le_store n (a XOR b) = xor_list (le_store n a) (le_store n b)"
  by (intro nth_equalityI) (auto simp: le_store_nth drop_bit_xor intro!: bit_word_eqI simp: bit_simps)

lemma length_chacha8_block [simp]: "length (chacha8_block j data) = 64"
  by (simp add: chacha8_block_def length_concat_fixed [where k = 4])

lemma chacha8_block_nth:
  assumes "length data = 64" and "length j = 16" and "i < 64"
  shows "chacha8_block j data ! i =
    data ! i XOR concat (map (le_store 4) (chacha8_core j)) ! i"
proof -
  let ?k = "i div 4"
  have k: "?k < 16" "4 * ?k + i mod 4 = i" using assms(3) by auto
  have "chacha8_block j data ! i = le_store 4 (chacha8_core j ! ?k XOR U8TO32_LITTLE data (4 * ?k)) ! (i mod 4)"
    using assms k by (simp add: chacha8_block_def nth_concat_fixed [where k = 4])
  also have "\<dots> = le_store 4 (chacha8_core j ! ?k) ! (i mod 4) XOR take 4 (drop (4 * ?k) data) ! (i mod 4)"
    using assms k(1) by (simp add: le_store_xor U8TO32_LITTLE_def le_store_le_load)
  also have "take 4 (drop (4 * ?k) data) ! (i mod 4) = data ! i"
    using assms k by (simp add: nth_drop)
  also have "le_store 4 (chacha8_core j ! ?k) ! (i mod 4) = concat (map (le_store 4) (chacha8_core j)) ! i"
    using assms by (simp add: nth_concat_fixed [where k = 4])
  finally show ?thesis by (simp add: xor.commute)
qed

lemma chacha8_next_counter:
  assumes "length j = 16"
  shows "chacha8_next (chacha8_counter j n) = chacha8_counter j (Suc n)"
proof -
  have zero: "(of_nat n + 1 :: u32) = 0 \<longleftrightarrow> Suc n mod 2 ^ 32 = 0"
  proof -
    have "(of_nat n + 1 :: u32) = of_nat (Suc n)" by (simp only: of_nat_Suc add.commute)
    then show ?thesis by (simp only: word_of_nat_eq_0_iff dvd_eq_mod_eq_0) simp
  qed
  have "Suc n div 2 ^ 32 = (if Suc n mod 2 ^ 32 = 0 then Suc (n div 2 ^ 32) else n div 2 ^ 32)"
    by (rule div_Suc)
  then show ?thesis
    using assms zero by (simp add: chacha8_next_def chacha8_counter_def Let_def add.commute list_update_swap [of 12 13])
qed

lemma chacha8_loop_keystream:
  assumes "length junk = 64" and "length j = 16"
  shows "chacha8_loop junk (chacha8_counter j n) data =
    map (\<lambda>i. data ! i XOR
      concat (map (le_store 4) (chacha8_core (chacha8_counter j (n + i div 64)))) ! (i mod 64)) [0..<length data]"
proof (induction "length data" arbitrary: n data rule: less_induct)
  case less
  consider "length data < 64" | "length data = 64" | "64 < length data" by linarith
  then show ?case
  proof cases
    case 1
    then show ?thesis using assms
      by (subst chacha8_loop.simps) (auto simp: chacha8_block_nth nth_append intro!: nth_equalityI)
  next
    case 2
    then show ?thesis using assms
      by (subst chacha8_loop.simps) (auto simp: chacha8_block_nth intro!: nth_equalityI)
  next
    case 3
    have IH: "chacha8_loop junk (chacha8_counter j (Suc n)) (drop 64 data) =
      map (\<lambda>i. drop 64 data ! i XOR concat (map (le_store 4) (chacha8_core (chacha8_counter j (Suc n + i div 64)))) !
        (i mod 64)) [0..<length (drop 64 data)]"
      using 3 by (intro less) simp
    have "chacha8_loop junk (chacha8_counter j n) data =
        chacha8_block (chacha8_counter j n) (take 64 data) @
        chacha8_loop junk (chacha8_counter j (Suc n)) (drop 64 data)"
      using 3 assms(2) by (subst chacha8_loop.simps) (simp add: chacha8_next_counter)
    then show ?thesis using 3 assms(2) unfolding IH
      by (intro nth_equalityI)
        (auto simp: nth_append chacha8_block_nth le_div_geq le_mod_geq not_less)
  qed
qed

lemma chacha8_counter_init: "chacha8_counter (chacha8_init key iv) 0 = chacha8_init key iv"
  by (simp add: chacha8_counter_def chacha8_init_def)

lemma chacha8_xor_keystream:
  assumes "length junk = 64"
  shows "chacha8 junk data key iv = map (\<lambda>i. data ! i XOR chacha8_keystream key iv i) [0..<length data]"
  using chacha8_loop_keystream [OF assms, of "chacha8_init key iv" 0 data]
  by (simp add: chacha8_def chacha8_counter_init chacha8_keystream_def)

text \<open>Every byte of the cipher text is the plain byte at the same position combined
  with the key stream byte of that position; block \<open>n\<close> of the key stream uses the
  64-bit counter \<open>n\<close>, through the carry at \<open>2 ^ 32\<close> blocks, and the stale bytes of the
  stack buffer never reach the output.\<close>

theorem chacha8_keystream_xor:
  assumes "length junk = 64"
  shows "chacha8 junk data key iv = map (\<lambda>i. data ! i XOR chacha8_keystream key iv i) [0..<length data]"
  by (rule chacha8_xor_keystream [OF assms])

theorem chacha8_keystream_xor_witness:
  "chacha8 (replicate 64 9) [1, 2, 3] (replicate 32 5) (replicate 8 6) =
    map (\<lambda>i. [1, 2, 3] ! i XOR chacha8_keystream (replicate 32 5) (replicate 8 6) i)
      [0..<length [1, 2, 3 :: u8]]"
  by (rule chacha8_keystream_xor) (rule length_replicate)

text \<open>Wallet encryption is its own inverse: applying \<open>chacha_crypt\<close> twice with the
  same pass phrase gives the buffer back, whatever the stack buffers held.\<close>

theorem chacha_crypt_twice:
  assumes "length junk = 64" and "length junk' = 64"
  shows "chacha_crypt junk' (chacha_crypt junk buff pass) pass = buff"
  using assms by (auto simp: chacha_crypt_def chacha8_xor_keystream xor.assoc intro!: nth_equalityI)

theorem chacha_crypt_twice_witness:
  "chacha_crypt (replicate 64 1) (chacha_crypt (replicate 64 0) [1, 2, 3] [7]) [7] = [1, 2, 3]"
  using chacha_crypt_twice [of "replicate 64 0" "replicate 64 1" "[1, 2, 3]" "[7]"] by simp

end
