(* ===== verification/Primes.thy ===== *)
theory Primes
  imports Prelude
begin

text \<open>
  The prime search of \<^verbatim>\<open>src/src/crypto/cn/ethash/primes.c\<close>, which sizes the light cache
  and the data set of an Ethash epoch. The C \<open>int\<close>s are integers here: every value the two
  loops compute lies within 32 bits (\<open>odd_prime_factors_int32\<close>), and \<open>%\<close> is only compared with
  zero. Both loops are total functions, with their termination proofs.
\<close>

section \<open>The search\<close>

text \<open>The loop \<open>for (d = 3; d * d <= number; d += 2)\<close>, the product in 64 bits.\<close>

function is_odd_prime_loop :: "int \<Rightarrow> int \<Rightarrow> bool" where
  "is_odd_prime_loop number d =
    (if d * d \<le> number
     then if number mod d = 0 then False else is_odd_prime_loop number (d + 2)
     else True)"
  by pat_completeness auto
termination
proof (relation "measure (\<lambda>(number, d). nat (number - d + 1))")
  fix number d :: int
  assume "d * d \<le> number"
  moreover have "d \<le> d * d" by (cases "d \<le> 0") (auto simp: mult_le_cancel_left1 intro: order_trans)
  ultimately show "((number, d + 2), (number, d)) \<in> measure (\<lambda>(number, d). nat (number - d + 1))"
    by simp
qed simp

declare is_odd_prime_loop.simps [simp del]

definition is_odd_prime :: "int \<Rightarrow> bool" where
  "is_odd_prime number = is_odd_prime_loop number 3"

lemma is_odd_prime_small: "n < 9 \<Longrightarrow> is_odd_prime n"
  by (simp add: is_odd_prime_def is_odd_prime_loop.simps)

text \<open>\<open>while (!is_odd_prime(n)) n -= 2;\<close>\<close>

function descend_to_prime :: "int \<Rightarrow> int" where
  "descend_to_prime n = (if \<not> is_odd_prime n then descend_to_prime (n - 2) else n)"
  by pat_completeness auto
termination
proof (relation "measure nat")
  fix n assume "\<not> is_odd_prime n"
  then have "9 \<le> n" using is_odd_prime_small [of n] by linarith
  then show "(n - 2, n) \<in> measure nat" by simp
qed simp

declare descend_to_prime.simps [simp del]

definition ethash_find_largest_prime :: "int \<Rightarrow> int" where
  "ethash_find_largest_prime upper_bound =
    (let n = upper_bound in
     if n < 2 then 0
     else if n = 2 then 2
     else let n = (if n mod 2 = 0 then n - 1 else n) in descend_to_prime n)"

section \<open>Trial division is a primality test\<close>

definition int_prime :: "int \<Rightarrow> bool" where
  "int_prime p \<longleftrightarrow> 1 < p \<and> (\<forall>d. 1 < d \<and> d dvd p \<longrightarrow> d = p)"

lemma is_odd_prime_loop_iff:
  "odd d \<Longrightarrow> is_odd_prime_loop number d \<longleftrightarrow> (\<forall>e. d \<le> e \<and> odd e \<and> e * e \<le> number \<longrightarrow> \<not> e dvd number)"
  if "0 < d" for d
  using that
proof (induction number d rule: is_odd_prime_loop.induct)
  case (1 number d)
  have step: "(\<forall>e. d \<le> e \<and> odd e \<longrightarrow> P e) \<longleftrightarrow> P d \<and> (\<forall>e. d + 2 \<le> e \<and> odd e \<longrightarrow> P e)" for P
  proof -
    have "d \<le> e \<and> odd e \<longleftrightarrow> e = d \<or> d + 2 \<le> e \<and> odd e" for e
      using "1.prems"(1) by (cases "e = d + 1") auto
    then show ?thesis by metis
  qed
  show ?case
  proof (cases "d * d \<le> number")
    case False
    then have "\<not> e * e \<le> number" if "d \<le> e" for e
      using that "1.prems"(2) mult_mono [of d e d e] by linarith
    then show ?thesis using False by (auto simp: is_odd_prime_loop.simps)
  next
    case True
    have eq: "is_odd_prime_loop number d \<longleftrightarrow> \<not> d dvd number \<and> is_odd_prime_loop number (d + 2)"
      using True by (subst is_odd_prime_loop.simps) (simp add: dvd_eq_mod_eq_0)
    show ?thesis
    proof (cases "d dvd number")
      case True
      then show ?thesis unfolding eq using \<open>d * d \<le> number\<close> "1.prems" by blast
    next
      case False
      then have "is_odd_prime_loop number (d + 2) \<longleftrightarrow>
          (\<forall>e. d + 2 \<le> e \<and> odd e \<and> e * e \<le> number \<longrightarrow> \<not> e dvd number)"
        using True "1.prems" by (intro "1.IH") (simp_all add: dvd_eq_mod_eq_0)
      then show ?thesis
        unfolding eq using False step [of "\<lambda>e. e * e \<le> number \<longrightarrow> \<not> e dvd number"] by blast
    qed
  qed
qed

text \<open>A composite number has a divisor at most its square root.\<close>

lemma small_factor:
  fixes n :: int
  assumes "1 < d" and "d dvd n" and "d \<noteq> n" and "1 < n"
  shows "\<exists>e. 1 < e \<and> e * e \<le> n \<and> e dvd n"
proof -
  obtain k where k: "n = d * k" using assms(2) by (rule dvdE)
  have "1 < k" using assms k by (metis mult.right_neutral mult_less_0_iff mult_zero_right
        not_one_less_zero order_less_trans zero_less_one int_one_le_iff_zero_less linorder_neqE_linordered_idom less_le_not_le)
  show ?thesis
  proof (cases "d \<le> k")
    case True
    then have "d * d \<le> n" using assms(1) k by simp
    then show ?thesis using assms by blast
  next
    case False
    then have "k * k \<le> n" using \<open>1 < k\<close> k by (simp add: mult_right_mono)
    then show ?thesis using \<open>1 < k\<close> k by auto
  qed
qed

lemma is_odd_prime_iff:
  assumes "odd n" and "2 < n"
  shows "is_odd_prime n \<longleftrightarrow> int_prime n"
proof
  assume "int_prime n"
  then have "e = n" if "3 \<le> e" "e dvd n" for e using that by (simp add: int_prime_def)
  moreover have "\<not> n * n \<le> n" using assms(2) by (simp add: mult_le_cancel_left1)
  ultimately show "is_odd_prime n" by (auto simp: is_odd_prime_def is_odd_prime_loop_iff)
next
  assume "is_odd_prime n"
  then have none: "\<not> e dvd n" if "3 \<le> e" "odd e" "e * e \<le> n" for e
    using that by (auto simp: is_odd_prime_def is_odd_prime_loop_iff)
  have "d = n" if d: "1 < d" "d dvd n" for d
  proof (rule ccontr)
    assume "d \<noteq> n"
    then obtain e where e: "1 < e" "e * e \<le> n" "e dvd n"
      using small_factor [OF d] assms(2) by auto
    then have "odd e" using assms(1) by (meson dvd_trans)
    then have "3 \<le> e" using e(1) by (cases "e = 2") auto
    then show False using none [of e] e \<open>odd e\<close> by blast
  qed
  then show "int_prime n" using assms(2) by (simp add: int_prime_def)
qed

lemma int_prime_2: "int_prime 2"
  by (auto simp: int_prime_def dest: zdvd_imp_le)

lemma int_prime_odd: "int_prime p \<Longrightarrow> p \<noteq> 2 \<Longrightarrow> odd p"
  unfolding int_prime_def by (metis one_less_numeral_iff semiring_norm(76))

lemma descend_to_prime_spec:
  assumes "odd n" and "3 \<le> n"
  shows "int_prime (descend_to_prime n) \<and> 3 \<le> descend_to_prime n \<and> descend_to_prime n \<le> n \<and>
    (\<forall>p. int_prime p \<and> p \<le> n \<longrightarrow> p \<le> descend_to_prime n)"
  using assms
proof (induction n rule: descend_to_prime.induct)
  case (1 n)
  show ?case
  proof (cases "is_odd_prime n")
    case True
    then have "descend_to_prime n = n" by (simp add: descend_to_prime.simps)
    then show ?thesis using 1 True is_odd_prime_iff [of n] by simp
  next
    case False
    then have "9 \<le> n" using is_odd_prime_small [of n] by linarith
    then have IH: "int_prime (descend_to_prime (n - 2)) \<and> 3 \<le> descend_to_prime (n - 2) \<and>
        descend_to_prime (n - 2) \<le> n - 2 \<and>
        (\<forall>p. int_prime p \<and> p \<le> n - 2 \<longrightarrow> p \<le> descend_to_prime (n - 2))"
      using 1 False by simp
    have "p \<le> n - 2" if "int_prime p" "p \<le> n" for p
    proof -
      have "p \<noteq> n" using that(1) False 1(2,3) is_odd_prime_iff [of n] by auto
      moreover have "p \<noteq> n - 1" using that(1) int_prime_odd [of p] \<open>9 \<le> n\<close> 1(2) by auto
      ultimately show ?thesis using that(2) by linarith
    qed
    moreover have "descend_to_prime n = descend_to_prime (n - 2)"
      using False by (simp add: descend_to_prime.simps)
    ultimately show ?thesis using IH by auto
  qed
qed

text \<open>C34: the search returns the largest prime not above its argument, and 0 exactly
  when there is none.\<close>

theorem ethash_find_largest_prime_max:
  "ethash_find_largest_prime upper_bound = Max (insert 0 {p. int_prime p \<and> p \<le> upper_bound})"
proof -
  let ?P = "{p. int_prime p \<and> p \<le> upper_bound}"
  have "finite ?P"
    by (rule finite_subset [of _ "{0..upper_bound}"]) (auto simp: int_prime_def)
  note Max = Max_eqI [OF finite.insertI [OF this], of 0, symmetric]
  consider "upper_bound < 2" | "upper_bound = 2" | "3 \<le> upper_bound" by linarith
  then show ?thesis
  proof cases
    case 1
    then show ?thesis by (intro Max) (auto simp: ethash_find_largest_prime_def int_prime_def)
  next
    case 2
    then show ?thesis by (intro Max) (auto simp: ethash_find_largest_prime_def int_prime_2)
  next
    case 3
    let ?n = "if upper_bound mod 2 = 0 then upper_bound - 1 else upper_bound"
    have n: "odd ?n" "3 \<le> ?n" using 3 by presburger+
    have below: "p \<le> ?n" if "int_prime p" "p \<le> upper_bound" for p
    proof (cases "upper_bound mod 2 = 0 \<and> p = upper_bound")
      case True
      then have "even p" by (simp add: even_iff_mod_2_eq_zero)
      then show ?thesis using that(1) int_prime_odd [of p] True 3 by auto
    next
      case False
      then show ?thesis using that(2) by (simp, linarith)
    qed
    have "?n \<le> upper_bound" by simp
    moreover have "ethash_find_largest_prime upper_bound = descend_to_prime ?n"
      using 3 by (simp add: ethash_find_largest_prime_def)
    ultimately show ?thesis
      using descend_to_prime_spec [OF n] below by (intro Max) fastforce+
  qed
qed

section \<open>The machine integers suffice\<close>

text \<open>Whenever the loop goes on to \<open>d + 2\<close>, that divisor fits an \<open>int\<close> and its square fits 64 bits.\<close>

lemma odd_prime_factors_int32:
  fixes d :: int
  assumes "3 \<le> d" and "d * d \<le> number" and "number < 2 ^ 31"
  shows "d + 2 < 2 ^ 31" and "(d + 2) * (d + 2) < 2 ^ 63"
proof -
  have "d < 46341"
  proof (rule ccontr)
    assume "\<not> d < 46341"
    then have "46341 * 46341 \<le> d * d" by (intro mult_mono) simp_all
    then show False using assms by simp
  qed
  then show "d + 2 < 2 ^ 31" by simp
  have "(d + 2) * (d + 2) \<le> 46343 * 46343" using \<open>d < 46341\<close> assms(1) by (intro mult_mono) simp_all
  then show "(d + 2) * (d + 2) < 2 ^ 63" by simp
qed

end
