(* ===== verification/Random_Prng.thy ===== *)
theory Random_Prng
  imports Keccak_Sponge
begin

text \<open>
  The pseudo random generator of \<^verbatim>\<open>src/src/crypto/cn/crypto/random.c\<close>. Its static variables
  are the record \<open>prng\<close>: the 25 lanes of \<open>union hash_state\<close>, the debugging variable \<open>curstate\<close>
  and the \<open>initalized\<close> flag of \<open>grant_random_initialize\<close>. What the operating system answers
  to \<open>open\<close>, \<open>read\<close> and \<open>close\<close> of \<^verbatim>\<open>/dev/urandom\<close> is the parameter \<open>os\<close>. A failed assertion and
  each \<open>err(EXIT_FAILURE, ...)\<close> is an error value; \<open>Rng_pending\<close> says that the answers given so
  far do not yet finish the read.
\<close>

section \<open>Reading \<^verbatim>\<open>/dev/urandom\<close>\<close>

datatype sys_read = Got "u8 list" | Interrupted | Failed

record os =
  os_open :: bool
  os_reads :: "sys_read list"
  os_close :: bool

datatype rng_error = Rng_open | Rng_read | Rng_eof | Rng_close | Rng_pending | Rng_assert

fun urandom_loop :: "nat \<Rightarrow> sys_read list \<Rightarrow> rng_error + u8 list" where
  "urandom_loop n [] = Inl Rng_pending"
| "urandom_loop n (Got bs # rs) =
    (if length bs = n then Inr bs
     else if bs = [] then Inl Rng_eof
     else case urandom_loop (n - length bs) rs of Inl e \<Rightarrow> Inl e | Inr cs \<Rightarrow> Inr (bs @ cs))"
| "urandom_loop n (Interrupted # rs) = urandom_loop n rs"
| "urandom_loop n (Failed # rs) = Inl Rng_read"

definition generate_system_random_bytes :: "os \<Rightarrow> nat \<Rightarrow> rng_error + u8 list" where
  "generate_system_random_bytes os n =
    (if \<not> os_open os then Inl Rng_open
     else case urandom_loop n (os_reads os) of
         Inl e \<Rightarrow> Inl e
       | Inr bs \<Rightarrow> if \<not> os_close os then Inl Rng_close else Inr bs)"

section \<open>The generator\<close>

record prng =
  rng_state :: "u64 list"
  curstate :: int
  initalized :: bool

definition prng_start :: prng where
  "prng_start = \<lparr>rng_state = replicate 25 0, curstate = 0, initalized = False\<rparr>"

text \<open>\<open>memcpy(&state, bs, length bs)\<close> on the union of bytes and lanes.\<close>

definition bytes_lanes :: "u8 list \<Rightarrow> u64 list" where
  "bytes_lanes bs = map (\<lambda>i. le_load (take 8 (drop (8 * i) bs))) [0..<length bs div 8]"

definition poke_state :: "u8 list \<Rightarrow> u64 list \<Rightarrow> u64 list" where
  "poke_state bs st = bytes_lanes (bs @ drop (length bs) (lane_bytes st))"

text \<open>\<open>assert(curstate == k)\<close>, then the assignment that follows it.\<close>

definition rng_move :: "int \<Rightarrow> int \<Rightarrow> prng \<Rightarrow> rng_error + prng" where
  "rng_move k k' s = (if curstate s = k then Inr (s\<lparr>curstate := k'\<rparr>) else Inl Rng_assert)"

definition rng_bind :: "rng_error + 'a \<Rightarrow> ('a \<Rightarrow> rng_error + 'b) \<Rightarrow> rng_error + 'b" where
  "rng_bind x f = (case x of Inl e \<Rightarrow> Inl e | Inr a \<Rightarrow> f a)"

definition init_random :: "os \<Rightarrow> prng \<Rightarrow> rng_error + prng" where
  "init_random os s =
    rng_bind (generate_system_random_bytes os 32) (\<lambda>bs.
      rng_move 0 1 (s\<lparr>rng_state := poke_state bs (rng_state s)\<rparr>))"

definition grant_random_initialize :: "os \<Rightarrow> prng \<Rightarrow> rng_error + prng" where
  "grant_random_initialize os s =
    (if \<not> initalized s
     then rng_bind (init_random os s) (\<lambda>s. Inr (s\<lparr>initalized := True\<rparr>))
     else Inr s)"

definition random_prng_initialize_with_seed :: "os \<Rightarrow> u64 \<Rightarrow> prng \<Rightarrow> rng_error + prng" where
  "random_prng_initialize_with_seed os seed s =
    rng_bind (grant_random_initialize os s) (\<lambda>s.
    rng_bind (rng_move 1 3 s) (\<lambda>s.
      let st = poke_state (le_store 8 seed) (replicate 25 0);
          st = (hash_permutation ^^ unat (and seed 31)) st
      in rng_move 3 1 (s\<lparr>rng_state := st\<rparr>)))"

definition random_prng_get_state :: "os \<Rightarrow> nat \<Rightarrow> prng \<Rightarrow> rng_error + u8 list \<times> prng" where
  "random_prng_get_state os buffer_size s =
    rng_bind (grant_random_initialize os s) (\<lambda>s.
    rng_bind (rng_move 1 4 s) (\<lambda>s.
      if 200 \<noteq> buffer_size then Inl Rng_assert
      else rng_bind (rng_move 4 1 s) (\<lambda>s.
        Inr (take buffer_size (lane_bytes (rng_state s)), s))))"

definition random_prng_set_state :: "os \<Rightarrow> u8 list \<Rightarrow> prng \<Rightarrow> rng_error + prng" where
  "random_prng_set_state os state_buffer s =
    rng_bind (grant_random_initialize os s) (\<lambda>s.
    rng_bind (rng_move 1 5 s) (\<lambda>s.
      if 200 \<noteq> length state_buffer then Inl Rng_assert
      else rng_move 5 1 (s\<lparr>rng_state := poke_state state_buffer (rng_state s)\<rparr>)))"

fun random_bytes_loop :: "nat \<Rightarrow> u64 list \<Rightarrow> u8 list \<times> u64 list" where
  "random_bytes_loop n st =
    (let st = hash_permutation st in
     if n \<le> 136 then (take n (lane_bytes st), st)
     else let (out, st') = random_bytes_loop (n - 136) st in (take 136 (lane_bytes st) @ out, st'))"

declare random_bytes_loop.simps [simp del]

definition generate_random_bytes :: "os \<Rightarrow> nat \<Rightarrow> prng \<Rightarrow> rng_error + u8 list \<times> prng" where
  "generate_random_bytes os n s =
    rng_bind (grant_random_initialize os s) (\<lambda>s.
    rng_bind (rng_move 1 2 s) (\<lambda>s.
      if n = 0 then rng_bind (rng_move 2 1 s) (\<lambda>s. Inr ([], s))
      else let (out, st) = random_bytes_loop n (rng_state s)
           in rng_bind (rng_move 2 1 (s\<lparr>rng_state := st\<rparr>)) (\<lambda>s. Inr (out, s))))"

text \<open>The calls a client can make, and the states a sequence of them reaches.\<close>

datatype prng_call = Grant | Seed u64 | Get_state nat | Set_state "u8 list" | Generate nat

fun prng_run :: "os \<Rightarrow> prng_call \<Rightarrow> prng \<Rightarrow> rng_error + u8 list \<times> prng" where
  "prng_run os Grant s = rng_bind (grant_random_initialize os s) (\<lambda>s. Inr ([], s))"
| "prng_run os (Seed seed) s = rng_bind (random_prng_initialize_with_seed os seed s) (\<lambda>s. Inr ([], s))"
| "prng_run os (Get_state n) s = random_prng_get_state os n s"
| "prng_run os (Set_state buf) s = rng_bind (random_prng_set_state os buf s) (\<lambda>s. Inr ([], s))"
| "prng_run os (Generate n) s = generate_random_bytes os n s"

text \<open>POSIX promises that \<open>read\<close> returns no more bytes than it was asked for.\<close>

fun reads_bounded :: "nat \<Rightarrow> sys_read list \<Rightarrow> bool" where
  "reads_bounded n [] = True"
| "reads_bounded n (Got bs # rs) =
    (length bs \<le> n \<and> (length bs = n \<or> reads_bounded (n - length bs) rs))"
| "reads_bounded n (Interrupted # rs) = reads_bounded n rs"
| "reads_bounded n (Failed # rs) = True"

inductive prng_reachable :: "prng \<Rightarrow> bool" where
  start: "prng_reachable prng_start"
| call: "prng_reachable s \<Longrightarrow> reads_bounded 32 (os_reads os) \<Longrightarrow>
    prng_run os c s = Inr (out, s') \<Longrightarrow> prng_reachable s'"

section \<open>Reading the system generator\<close>

fun delivered :: "sys_read list \<Rightarrow> u8 list" where
  "delivered [] = []"
| "delivered (Got bs # rs) = bs @ delivered rs"
| "delivered (Interrupted # rs) = delivered rs"
| "delivered (Failed # rs) = []"

text \<open>No error and no end of file: the loop goes on until the request is served.\<close>

fun reads_ok :: "nat \<Rightarrow> sys_read list \<Rightarrow> bool" where
  "reads_ok n [] = True"
| "reads_ok n (Got bs # rs) = (bs \<noteq> [] \<and> length bs \<le> n \<and> (length bs = n \<or> reads_ok (n - length bs) rs))"
| "reads_ok n (Interrupted # rs) = reads_ok n rs"
| "reads_ok n (Failed # rs) = False"

lemma urandom_loop_delivered:
  "reads_ok n rs \<Longrightarrow> 0 < n \<Longrightarrow> n \<le> length (delivered rs) \<Longrightarrow>
   urandom_loop n rs = Inr (take n (delivered rs))"
proof (induction n rs rule: urandom_loop.induct)
  case (2 n bs rs)
  show ?case
  proof (cases "length bs = n")
    case False
    then have "urandom_loop (n - length bs) rs = Inr (take (n - length bs) (delivered rs))"
      using 2 by (intro "2.IH") simp_all
    then show ?thesis using False "2.prems"(1) by simp
  qed simp
qed simp_all

lemma urandom_loop_length:
  "reads_bounded n rs \<Longrightarrow> urandom_loop n rs = Inr bs \<Longrightarrow> length bs = n"
proof (induction n rs arbitrary: bs rule: urandom_loop.induct)
  case (2 n bs rs cs)
  show ?case
  proof (cases "length bs = n")
    case True
    then show ?thesis using "2.prems" by simp
  next
    case False
    then obtain ds where "urandom_loop (n - length bs) rs = Inr ds" "cs = bs @ ds" "bs \<noteq> []"
      using "2.prems"(2) by (auto split: if_splits sum.splits)
    then show ?thesis using "2.IH" [of ds] "2.prems"(1) False by simp
  qed
qed simp_all

text \<open>C36: the read loop survives interrupts and short reads: it returns exactly the first
  \<open>n\<close> bytes the system delivers, as soon as it has delivered that many.\<close>

theorem urandom_read_complete:
  assumes "reads_ok n rs" and "0 < n" and "n \<le> length (delivered rs)"
  shows "generate_system_random_bytes \<lparr>os_open = True, os_reads = rs, os_close = True\<rparr> n =
    Inr (take n (delivered rs))"
  using urandom_loop_delivered [OF assms] by (simp add: generate_system_random_bytes_def)

theorem urandom_read_complete_witness:
  "generate_system_random_bytes
     \<lparr>os_open = True, os_reads = [Got [1, 2], Interrupted, Got [3], Failed], os_close = True\<rparr> 3 =
   Inr [1, 2, 3]"
  using urandom_read_complete [of 3 "[Got [1, 2], Interrupted, Got [3], Failed]"] by simp

section \<open>The invariant\<close>

text \<open>Between calls, \<open>curstate\<close> tells whether the generator has been initialised.\<close>

definition prng_inv :: "prng \<Rightarrow> bool" where
  "prng_inv s \<longleftrightarrow> length (rng_state s) = 25 \<and> curstate s = (if initalized s then 1 else 0)"

lemma rng_bind_Inr_iff [simp]: "rng_bind x f = Inr b \<longleftrightarrow> (\<exists>a. x = Inr a \<and> f a = Inr b)"
  by (cases x) (simp_all add: rng_bind_def)

lemma rng_bind_Inl_iff [simp]:
  "rng_bind x f = Inl e \<longleftrightarrow> x = Inl e \<or> (\<exists>a. x = Inr a \<and> f a = Inl e)"
  by (cases x) (auto simp: rng_bind_def)

lemma rng_move_Inr_iff [simp]: "rng_move k k' s = Inr s' \<longleftrightarrow> curstate s = k \<and> s' = s\<lparr>curstate := k'\<rparr>"
  by (auto simp: rng_move_def)

lemma rng_move_Inl_iff [simp]: "rng_move k k' s = Inl e \<longleftrightarrow> curstate s \<noteq> k \<and> e = Rng_assert"
  by (auto simp: rng_move_def)

lemma length_hash_permutation [simp]: "length st = 25 \<Longrightarrow> length (hash_permutation st) = 25"
  by (simp add: hash_permutation_def keccakf_lanes)

lemma length_hash_permutation_pow [simp]: "length st = 25 \<Longrightarrow> length ((hash_permutation ^^ n) st) = 25"
  by (induction n) simp_all

lemma length_bytes_lanes [simp]: "length (bytes_lanes bs) = length bs div 8"
  by (simp add: bytes_lanes_def)

lemma length_poke_state [simp]:
  "length bs \<le> 8 * length st \<Longrightarrow> length (poke_state bs st) = length st"
  by (simp add: poke_state_def)

lemma grant_random_initialize_inv:
  assumes "prng_inv s" and "reads_bounded 32 (os_reads os)"
  shows "case grant_random_initialize os s of
      Inl e \<Rightarrow> e \<noteq> Rng_assert
    | Inr s' \<Rightarrow> prng_inv s' \<and> initalized s' \<and> (initalized s \<longrightarrow> s' = s)"
proof (cases "initalized s")
  case True
  then show ?thesis using assms by (simp add: grant_random_initialize_def)
next
  case False
  have no_assert: "urandom_loop n rs \<noteq> Inl Rng_assert" for n rs
    by (induction n rs rule: urandom_loop.induct) (auto split: sum.splits)
  then have sys: "generate_system_random_bytes os n \<noteq> Inl Rng_assert" for n
    by (auto simp: generate_system_random_bytes_def split: sum.splits)
  have "length bs = 32" if "generate_system_random_bytes os 32 = Inr bs" for bs
    using that assms(2) by (auto simp: generate_system_random_bytes_def
        split: if_splits sum.splits dest: urandom_loop_length)
  then show ?thesis using False assms(1) sys
    by (auto simp: grant_random_initialize_def init_random_def prng_inv_def split: sum.splits)
qed

section \<open>The output stream\<close>

text \<open>Byte \<open>i\<close> of the stream that starts in state \<open>st\<close>: every permutation yields 136 bytes.\<close>

definition rng_byte :: "u64 list \<Rightarrow> nat \<Rightarrow> u8" where
  "rng_byte st i = lane_bytes ((hash_permutation ^^ Suc (i div 136)) st) ! (i mod 136)"

lemma rng_byte_next: "136 \<le> i \<Longrightarrow> rng_byte st i = rng_byte (hash_permutation st) (i - 136)"
  by (simp add: rng_byte_def le_div_geq le_mod_geq funpow_swap1)

lemma random_bytes_first:
  assumes "length st = 25" and "n \<le> 136"
  shows "take n (lane_bytes (hash_permutation st)) = map (rng_byte st) [0..<n]"
  using assms by (intro nth_equalityI) (simp_all add: rng_byte_def)

lemma random_bytes_loop_stream:
  "length st = 25 \<Longrightarrow> 0 < n \<Longrightarrow>
   random_bytes_loop n st = (map (rng_byte st) [0..<n], (hash_permutation ^^ ((n + 135) div 136)) st)"
proof (induction n st rule: random_bytes_loop.induct)
  case (1 n st)
  show ?case
  proof (cases "n \<le> 136")
    case True
    then have "(n + 135) div 136 = 1" using "1.prems"(2) by simp
    then show ?thesis
      using True "1.prems"(1) by (subst random_bytes_loop.simps) (simp add: Let_def random_bytes_first)
  next
    case False
    have IH: "random_bytes_loop (n - 136) (hash_permutation st) =
        (map (rng_byte (hash_permutation st)) [0..<n - 136],
         (hash_permutation ^^ ((n - 136 + 135) div 136)) (hash_permutation st))"
      using False "1.prems" by (intro "1.IH") simp_all
    have "(n + 135) div 136 = Suc ((n - 136 + 135) div 136)" using False by (simp add: le_div_geq)
    moreover have "map (rng_byte st) [0..<136] @ map (rng_byte (hash_permutation st)) [0..<n - 136] =
        map (rng_byte st) [0..<n]"
      using False by (intro nth_equalityI) (simp_all add: nth_append rng_byte_next)
    ultimately show ?thesis
      using False "1.prems"(1)
      by (subst random_bytes_loop.simps)
        (simp add: Let_def IH random_bytes_first funpow_swap1 del: upt.simps)
  qed
qed

lemma generate_random_bytes_run:
  assumes "prng_inv s" and "initalized s"
  shows "generate_random_bytes os n s =
    Inr (map (rng_byte (rng_state s)) [0..<n],
         s\<lparr>rng_state := (hash_permutation ^^ ((n + 135) div 136)) (rng_state s)\<rparr>)"
  using assms
  by (cases "n = 0") (simp_all add: generate_random_bytes_def grant_random_initialize_def rng_bind_def
      rng_move_def prng_inv_def random_bytes_loop_stream)

section \<open>Sequences of calls\<close>

text \<open>A call with a buffer of the right size; only the two state transfers check it.\<close>

fun call_ok :: "prng_call \<Rightarrow> bool" where
  "call_ok (Get_state n) \<longleftrightarrow> n = 200"
| "call_ok (Set_state buf) \<longleftrightarrow> length buf = 200"
| "call_ok _ \<longleftrightarrow> True"

text \<open>Once initialised, every call with a proper buffer succeeds and keeps the invariant.\<close>

lemma prng_run_initalized:
  assumes "prng_inv s" and "initalized s" and "call_ok c"
  shows "\<exists>out s'. prng_run os c s = Inr (out, s') \<and> prng_inv s' \<and> initalized s'"
  using assms
proof (cases c)
  case (Generate n)
  then show ?thesis using assms by (simp add: generate_random_bytes_run) (simp add: prng_inv_def)
qed (simp_all add: prng_inv_def rng_bind_def rng_move_def grant_random_initialize_def Let_def
    random_prng_initialize_with_seed_def random_prng_get_state_def random_prng_set_state_def)

text \<open>Every call is \<open>grant_random_initialize\<close> followed by the call on what that leaves.\<close>

lemma prng_run_grant:
  "prng_run os c s = rng_bind (grant_random_initialize os s) (\<lambda>s'. prng_run os c s')"
  if "\<And>s'. grant_random_initialize os s = Inr s' \<Longrightarrow> initalized s'"
proof (cases "grant_random_initialize os s")
  case (Inl e)
  then show ?thesis
    by (cases c) (simp_all add: rng_bind_def random_prng_initialize_with_seed_def random_prng_get_state_def
        random_prng_set_state_def generate_random_bytes_def)
next
  case (Inr s')
  have "initalized s'" by (rule that [OF Inr])
  then have "grant_random_initialize os s' = Inr s'" by (simp add: grant_random_initialize_def)
  then show ?thesis using Inr
    by (cases c) (simp_all add: rng_bind_def random_prng_initialize_with_seed_def random_prng_get_state_def
        random_prng_set_state_def generate_random_bytes_def)
qed

lemma prng_run_inv:
  assumes "prng_inv s" and "reads_bounded 32 (os_reads os)"
  shows "case prng_run os c s of
      Inl e \<Rightarrow> e = Rng_assert \<longrightarrow> \<not> call_ok c
    | Inr (out, s') \<Rightarrow> prng_inv s' \<and> initalized s'"
proof -
  note grant = grant_random_initialize_inv [OF assms]
  show ?thesis
  proof (cases "grant_random_initialize os s")
    case (Inl e)
    then have "prng_run os c s = Inl e" by (subst prng_run_grant) (simp_all add: rng_bind_def)
    then show ?thesis using grant Inl by simp
  next
    case (Inr s')
    then have s': "prng_inv s'" "initalized s'" using grant by simp_all
    have run: "prng_run os c s = prng_run os c s'"
      using Inr s'(2) by (subst prng_run_grant) (simp_all add: rng_bind_def)
    show ?thesis
    proof (cases "call_ok c")
      case True
      then show ?thesis using prng_run_initalized [OF s' True, of os] run by auto
    next
      case False
      then have "prng_run os c s' = Inl Rng_assert" using s'
        by (cases c) (simp_all add: prng_inv_def rng_bind_def rng_move_def grant_random_initialize_def
            random_prng_get_state_def random_prng_set_state_def)
      then show ?thesis using run False by simp
    qed
  qed
qed

lemma prng_reachable_inv: "prng_reachable s \<Longrightarrow> prng_inv s"
proof (induction rule: prng_reachable.induct)
  case start
  then show ?case by (simp add: prng_inv_def prng_start_def)
next
  case (call s os c out s')
  then show ?case using prng_run_inv [of s os c] by simp
qed

text \<open>C35: in every state that a sequence of calls reaches, a call fails an assertion only
  if its buffer has the wrong size: the \<open>curstate\<close> checks never fire. Any other failure is
  one of the system's, and a successful call leaves a reachable state with the flag set.\<close>

theorem prng_calls_never_assert:
  assumes "prng_reachable s" and "reads_bounded 32 (os_reads os)"
  shows "case prng_run os c s of
      Inl e \<Rightarrow> e = Rng_assert \<longrightarrow> \<not> call_ok c
    | Inr (out, s') \<Rightarrow> prng_reachable s' \<and> curstate s' = 1 \<and> length (rng_state s') = 25"
  using prng_run_inv [OF prng_reachable_inv [OF assms(1)] assms(2), of c] assms
  by (auto simp: prng_inv_def split: sum.splits intro: prng_reachable.call)

theorem prng_calls_never_assert_witness:
  "case prng_run \<lparr>os_open = True, os_reads = [Got (replicate 32 7)], os_close = True\<rparr> (Generate 5) prng_start of
      Inl e \<Rightarrow> e = Rng_assert \<longrightarrow> \<not> call_ok (Generate 5)
    | Inr (out, s') \<Rightarrow> prng_reachable s' \<and> curstate s' = 1 \<and> length (rng_state s') = 25"
  by (rule prng_calls_never_assert) (simp_all add: prng_reachable.start)

text \<open>An initialised generator asked for \<open>n\<close> bytes returns exactly the first \<open>n\<close> bytes
  of the stream of its state, 136 per permutation, and advances the state by the
  permutations used.\<close>

theorem generate_random_bytes_stream:
  assumes "prng_reachable s" and "initalized s"
  shows "generate_random_bytes os n s =
    Inr (map (rng_byte (rng_state s)) [0..<n],
         s\<lparr>rng_state := (hash_permutation ^^ ((n + 135) div 136)) (rng_state s)\<rparr>)"
  by (rule generate_random_bytes_run [OF prng_reachable_inv [OF assms(1)] assms(2)])

definition prng_seven :: prng where
  "prng_seven = \<lparr>rng_state = poke_state (replicate 32 7) (replicate 25 0), curstate = 1, initalized = True\<rparr>"

lemma prng_seven_reachable: "prng_reachable prng_seven"
proof (rule prng_reachable.call [OF prng_reachable.start,
      where os = "\<lparr>os_open = True, os_reads = [Got (replicate 32 7)], os_close = True\<rparr>" and c = Grant])
  show "prng_run \<lparr>os_open = True, os_reads = [Got (replicate 32 7)], os_close = True\<rparr> Grant prng_start =
      Inr ([], prng_seven)"
    by (simp add: grant_random_initialize_def init_random_def generate_system_random_bytes_def prng_start_def
        rng_bind_def rng_move_def prng_seven_def)
qed simp

theorem generate_random_bytes_stream_witness:
  "generate_random_bytes undefined 300 prng_seven =
    Inr (map (rng_byte (rng_state prng_seven)) [0..<300],
         prng_seven\<lparr>rng_state := (hash_permutation ^^ ((300 + 135) div 136)) (rng_state prng_seven)\<rparr>)"
  by (rule generate_random_bytes_stream [OF prng_seven_reachable]) (simp add: prng_seven_def)

text \<open>Storing the lanes as bytes and loading them again.\<close>

lemma bytes_lanes_lane_bytes: "bytes_lanes (lane_bytes st) = st"
proof (rule nth_equalityI)
  fix i assume "i < length (bytes_lanes (lane_bytes st))"
  then have i: "i < length st" by simp
  have "take 8 (drop (8 * i) (lane_bytes st)) = le_store 8 (st ! i)"
  proof (rule nth_equalityI)
    fix k assume "k < length (take 8 (drop (8 * i) (lane_bytes st)))"
    then have "k < 8" by simp
    then show "take 8 (drop (8 * i) (lane_bytes st)) ! k = le_store 8 (st ! i) ! k"
      using i by (simp add: lane_bytes_def length_concat_fixed [where k = 8] nth_concat_fixed [where k = 8])
  qed (use i in simp)
  then show "bytes_lanes (lane_bytes st) ! i = st ! i"
    using i by (simp add: bytes_lanes_def le_load_le_store take_bit_word_eq_self)
qed simp

text \<open>A saved generator state can be restored: after \<open>random_prng_get_state\<close>, whatever
  calls come in between, \<open>random_prng_set_state\<close> with the saved buffer makes the generator
  produce the same bytes again.\<close>

theorem random_state_replay:
  assumes "prng_reachable s" and "initalized s" and "prng_reachable s'" and "initalized s'"
    and "random_prng_get_state os 200 s = Inr (buf, s1)"
  shows "\<exists>s2. random_prng_set_state os buf s' = Inr s2 \<and>
    map_sum id fst (generate_random_bytes os n s2) = map_sum id fst (generate_random_bytes os n s1)"
proof -
  have inv: "prng_inv s" "prng_inv s'" using assms by (simp_all add: prng_reachable_inv)
  have buf: "buf = lane_bytes (rng_state s)" and s1: "s1 = s"
    using assms(2,5) inv(1)
    by (auto simp: random_prng_get_state_def grant_random_initialize_def prng_inv_def)
  let ?s2 = "s'\<lparr>rng_state := rng_state s\<rparr>"
  have "poke_state buf (rng_state s') = rng_state s"
    using inv by (simp add: poke_state_def buf prng_inv_def bytes_lanes_lane_bytes)
  then have "random_prng_set_state os buf s' = Inr ?s2"
    using inv assms(4) by (simp add: random_prng_set_state_def grant_random_initialize_def rng_bind_def
        rng_move_def prng_inv_def buf)
  moreover have "prng_inv ?s2" "initalized ?s2" using inv assms(4) by (simp_all add: prng_inv_def)
  ultimately show ?thesis
    using inv assms(2) by (simp add: generate_random_bytes_run s1)
qed

theorem random_state_replay_witness:
  "\<exists>s2. random_prng_set_state undefined (lane_bytes (rng_state prng_seven)) prng_seven = Inr s2 \<and>
    map_sum id fst (generate_random_bytes undefined 9 s2) =
    map_sum id fst (generate_random_bytes undefined 9 prng_seven)"
  by (rule random_state_replay [OF prng_seven_reachable _ prng_seven_reachable])
    (simp_all add: prng_seven_def random_prng_get_state_def grant_random_initialize_def rng_bind_def rng_move_def)

end
