(* ===== verification/Md_Stream.thy ===== *)
theory Md_Stream
  imports Prelude
begin

text \<open>
  Iterated (Merkle-Damgard) hashing, shared by RIPEMD-160 and SHA-256. \<open>md_absorb\<close> folds a
  compression function over the full blocks of a message and \<open>md_tail\<close> is what is left;
  \<open>md_pad\<close> is the padding with a 64-bit length. \<open>md_ctx\<close> and \<open>ctx_write\<close> are the buffering
  context that \<^verbatim>\<open>src/src/crypto/verushash/ripemd160.cpp\<close> and \<^verbatim>\<open>sha256.cpp\<close> have in common, line by
  line the same code. The locale \<open>md_stream\<close> states what any such context owes its clients; it is
  interpreted on every streaming implementation of the development.
\<close>

section \<open>The reference\<close>

function md_absorb :: "nat \<Rightarrow> ('s \<Rightarrow> u8 list \<Rightarrow> 's) \<Rightarrow> 's \<Rightarrow> u8 list \<Rightarrow> 's" where
  "md_absorb B f s m = (if 0 < B \<and> B \<le> length m then md_absorb B f (f s (take B m)) (drop B m) else s)"
  by pat_completeness auto
termination
  by (relation "measure (\<lambda>(B, f, s, m). length m)") auto

declare md_absorb.simps [simp del]

definition md_tail :: "nat \<Rightarrow> u8 list \<Rightarrow> u8 list" where
  "md_tail B m = drop (B * (length m div B)) m"

definition md_pad :: "(u64 \<Rightarrow> u8 list) \<Rightarrow> u8 list \<Rightarrow> u8 list" where
  "md_pad enc m = m @ 0x80 # replicate ((119 - length m mod 64) mod 64) 0 @ enc (8 * of_nat (length m))"

lemma md_absorb_short: "length m < B \<Longrightarrow> md_absorb B f s m = s"
  by (simp add: md_absorb.simps)

lemma md_absorb_block: "0 < B \<Longrightarrow> length b = B \<Longrightarrow> md_absorb B f s (b @ m) = md_absorb B f (f s b) m"
  by (subst md_absorb.simps) simp

text \<open>Two compression functions that agree on the states that occur.\<close>

lemma md_absorb_cong:
  assumes "\<And>s b. P s \<Longrightarrow> f s b = g s b \<and> P (g s b)" and "P s"
  shows "md_absorb B f s m = md_absorb B g s m \<and> P (md_absorb B g s m)"
  using assms(2)
proof (induction "length m" arbitrary: s m rule: less_induct)
  case less
  show ?case
  proof (cases "0 < B \<and> B \<le> length m")
    case True
    let ?s = "g s (take B m)"
    have "f s (take B m) = ?s" "P ?s" using assms(1) less(2) by simp_all
    moreover have "md_absorb B f ?s (drop B m) = md_absorb B g ?s (drop B m) \<and> P (md_absorb B g ?s (drop B m))"
      using True \<open>P ?s\<close> by (intro less(1)) auto
    ultimately show ?thesis
      using True by (simp add: md_absorb.simps [of B f s m] md_absorb.simps [of B g s m])
  next
    case False
    then show ?thesis using less(2) by (auto simp: md_absorb.simps [of B f s m] md_absorb.simps [of B g s m])
  qed
qed

lemma length_md_tail [simp]: "length (md_tail B m) = length m mod B"
  by (simp add: md_tail_def minus_mult_div_eq_mod)

lemma md_tail_short: "length m < B \<Longrightarrow> md_tail B m = m"
  by (simp add: md_tail_def)

lemma md_tail_drop: "0 < B \<Longrightarrow> B \<le> length m \<Longrightarrow> md_tail B m = md_tail B (drop B m)"
  by (simp add: md_tail_def le_div_geq add.commute)

lemma md_tail_Nil: "length m mod B = 0 \<Longrightarrow> md_tail B m = []"
  by (metis length_0_conv length_md_tail)

lemma md_absorb_append:
  assumes "0 < B"
  shows "md_absorb B f s (m @ d) = md_absorb B f (md_absorb B f s m) (md_tail B m @ d) \<and>
    md_tail B (m @ d) = md_tail B (md_tail B m @ d)"
  using assms
proof (induction B f s m rule: md_absorb.induct)
  case (1 B f s m)
  show ?case
  proof (cases "B \<le> length m")
    case True
    have "md_absorb B f s (m @ d) = md_absorb B f (f s (take B m)) (drop B m @ d)"
      using True 1(2) by (subst md_absorb.simps) simp
    moreover have "md_absorb B f s m = md_absorb B f (f s (take B m)) (drop B m)"
      using True 1(2) by (subst md_absorb.simps) simp
    moreover have "md_tail B (m @ d) = md_tail B (drop B m @ d)"
      using True 1(2) md_tail_drop [of B "m @ d"] by simp
    ultimately show ?thesis using 1 True md_tail_drop [of B m] by simp
  next
    case False
    then show ?thesis by (simp add: md_absorb_short md_tail_short)
  qed
qed

lemma length_md_pad:
  assumes "\<And>w. length (enc w) = 8"
  shows "length (md_pad enc m) mod 64 = 0"
proof -
  have "(n + 1 + (119 - n mod 64) mod 64 + 8) mod 64 = 0" for n :: nat
  proof -
    define q r where "q = n div 64" and "r = n mod 64"
    have n: "n = 64 * q + r" "r < 64" by (simp_all add: q_def r_def)
    have "(119 - r) mod 64 = (if r \<le> 55 then 55 - r else 119 - r)"
      using n(2) by (auto simp: le_mod_geq)
    then have "n + 1 + (119 - r) mod 64 + 8 = 64 * (if r \<le> 55 then q + 1 else q + 2)"
      using n by simp
    then show ?thesis by (simp add: r_def)
  qed
  from this [of "length m"] show ?thesis by (simp add: md_pad_def assms ac_simps)
qed

section \<open>The interface of a streaming context\<close>

text \<open>
  \<open>rep c m\<close>: the context \<open>c\<close> has been fed the message \<open>m\<close>. What a call is given may be more than
  the bytes (an address, for example): \<open>payload\<close> is the bytes of it.
\<close>

locale md_feed =
  fixes B :: nat and f :: "'s \<Rightarrow> u8 list \<Rightarrow> 's" and iv :: 's
    and fresh :: "'c \<Rightarrow> bool" and feed :: "'c \<Rightarrow> 'd \<Rightarrow> 'c" and payload :: "'d \<Rightarrow> u8 list" and chain :: "'c \<Rightarrow> 's"
    and rep :: "'c \<Rightarrow> u8 list \<Rightarrow> bool"
  assumes fresh_rep: "fresh c \<Longrightarrow> rep c []"
    and feed_rep: "rep c m \<Longrightarrow> rep (feed c d) (m @ payload d)"
    and chain_rep: "rep c m \<Longrightarrow> chain c = md_absorb B f iv m"
begin

lemma feeds_rep: "rep c m \<Longrightarrow> rep (foldl feed c ds) (m @ concat (map payload ds))"
proof (induction ds arbitrary: c m)
  case (Cons d ds)
  then show ?case using feed_rep [of c m d] Cons.IH [of "feed c d" "m @ payload d"] by simp
qed simp

lemma calls_rep: "fresh c \<Longrightarrow> rep (foldl feed c ds) (concat (map payload ds))"
  using feeds_rep [OF fresh_rep] by simp

end

text \<open>A context that is given bytes only.\<close>

locale md_stream =
  fixes B :: nat and f :: "'s \<Rightarrow> u8 list \<Rightarrow> 's" and iv :: 's
    and fresh :: "'c \<Rightarrow> bool" and feed :: "'c \<Rightarrow> u8 list \<Rightarrow> 'c" and chain :: "'c \<Rightarrow> 's"
    and rep :: "'c \<Rightarrow> u8 list \<Rightarrow> bool"
  assumes fresh_rep: "fresh c \<Longrightarrow> rep c []"
    and write_rep: "rep c m \<Longrightarrow> rep (feed c d) (m @ d)"
    and chain_rep: "rep c m \<Longrightarrow> chain c = md_absorb B f iv m"

sublocale md_stream \<subseteq> bytes: md_feed B f iv fresh feed "\<lambda>d. d" chain rep
  by unfold_locales (rule fresh_rep write_rep chain_rep; assumption)+

context md_stream
begin

lemma pieces_rep: "fresh c \<Longrightarrow> rep (foldl feed c ds) (concat ds)"
  using bytes.calls_rep [of c ds] by simp

lemma pieces_chain: "fresh c \<Longrightarrow> chain (foldl feed c ds) = md_absorb B f iv (concat ds)"
  by (rule chain_rep [OF pieces_rep])

lemma finish_chain: "rep c m \<Longrightarrow> chain (feed (feed c p) q) = md_absorb B f iv (m @ p @ q)"
  using chain_rep [OF write_rep [OF write_rep]] by simp

end

section \<open>The buffering context of the C++ classes\<close>

record 's md_ctx =
  md_s :: 's
  md_buf :: "u8 list"
  md_bytes :: u64

definition memcpy_at :: "'a list \<Rightarrow> nat \<Rightarrow> 'a list \<Rightarrow> 'a list" where
  "memcpy_at buf off bs = take off buf @ bs @ drop (off + length bs) buf"

text \<open>\<open>while (end >= data + 64)\<close>\<close>

function ctx_blocks :: "('s \<Rightarrow> u8 list \<Rightarrow> 's) \<Rightarrow> 's \<Rightarrow> u64 \<Rightarrow> u8 list \<Rightarrow> 's \<times> u64 \<times> u8 list" where
  "ctx_blocks Transform s bytes data =
    (if 64 \<le> length data
     then ctx_blocks Transform (Transform s (take 64 data)) (bytes + 64) (drop 64 data)
     else (s, bytes, data))"
  by pat_completeness auto
termination
  by (relation "measure (\<lambda>(f, s, bytes, data). length data)") auto

declare ctx_blocks.simps [simp del]

definition ctx_write :: "('s \<Rightarrow> u8 list \<Rightarrow> 's) \<Rightarrow> 's md_ctx \<Rightarrow> u8 list \<Rightarrow> 's md_ctx" where
  "ctx_write Transform c data =
    (let bufsize = unat (md_bytes c mod 64);
         (c, data, bufsize) =
           (if bufsize \<noteq> 0 \<and> 64 \<le> bufsize + length data
            then let buf = memcpy_at (md_buf c) bufsize (take (64 - bufsize) data)
                 in (c\<lparr>md_buf := buf, md_bytes := md_bytes c + (64 - of_nat bufsize), md_s := Transform (md_s c) buf\<rparr>,
                     drop (64 - bufsize) data, 0)
            else (c, data, bufsize));
         (s, bytes, data) = ctx_blocks Transform (md_s c) (md_bytes c) data;
         c = c\<lparr>md_s := s, md_bytes := bytes\<rparr>
     in if data \<noteq> []
        then c\<lparr>md_buf := memcpy_at (md_buf c) bufsize data, md_bytes := md_bytes c + of_nat (length data)\<rparr>
        else c)"

definition ctx_rep :: "('s \<Rightarrow> u8 list \<Rightarrow> 's) \<Rightarrow> 's \<Rightarrow> 's md_ctx \<Rightarrow> u8 list \<Rightarrow> bool" where
  "ctx_rep f iv c m \<longleftrightarrow> length (md_buf c) = 64 \<and> md_bytes c = of_nat (length m) \<and>
     md_s c = md_absorb 64 f iv m \<and> take (length m mod 64) (md_buf c) = md_tail 64 m"

lemma ctx_blocks_absorb:
  "ctx_blocks f s n d = (md_absorb 64 f s d, n + of_nat (64 * (length d div 64)), md_tail 64 d)"
proof (induction f s n d rule: ctx_blocks.induct)
  case (1 f s n d)
  show ?case
  proof (cases "64 \<le> length d")
    case True
    then have "length d div 64 = Suc ((length d - 64) div 64)" by (simp add: le_div_geq)
    then show ?thesis
      using 1 [OF True] True md_tail_drop [of 64 d]
      by (subst ctx_blocks.simps, subst md_absorb.simps) (simp add: add.assoc)
  next
    case False
    then show ?thesis by (simp add: ctx_blocks.simps md_absorb_short md_tail_short)
  qed
qed

lemma unat_bytes_mod: "unat ((of_nat n :: u64) mod 64) = n mod 64"
proof -
  have "(64 :: nat) dvd 2 ^ 64" by simp
  then show ?thesis by (simp add: unat_mod unat_of_nat mod_mod_cancel)
qed

text \<open>The first branch of \<open>Write\<close> completes the pending block, and leaves an empty buffer.\<close>

lemma ctx_fill:
  assumes "ctx_rep f iv c m" and "length m mod 64 \<noteq> 0" and "64 \<le> length m mod 64 + length d"
  defines "r \<equiv> length m mod 64"
  defines "buf \<equiv> memcpy_at (md_buf c) r (take (64 - r) d)"
  shows "ctx_rep f iv (c\<lparr>md_buf := buf, md_bytes := md_bytes c + (64 - of_nat r), md_s := f (md_s c) buf\<rparr>)
    (m @ take (64 - r) d)"
proof -
  let ?p = "take (64 - r) d"
  have len: "length ?p = 64 - r" "r < 64" using assms(3) by (simp_all add: r_def)
  have buf: "buf = md_tail 64 m @ ?p"
    using assms(1) len by (simp add: buf_def memcpy_at_def ctx_rep_def r_def)
  then have lb: "length buf = 64" using len by (simp add: r_def)
  have mod: "(length m + (64 - r)) mod 64 = 0" unfolding r_def by (rule add_complement_mod) simp
  have "md_absorb 64 f iv (m @ ?p) = f (md_s c) buf"
    using md_absorb_append [of 64 f iv m ?p] assms(1) buf lb md_absorb_block [of 64 buf f "md_s c" "[]"]
    by (simp add: ctx_rep_def md_absorb_short)
  moreover have "md_tail 64 (m @ ?p) = []" using len mod by (intro md_tail_Nil) simp
  moreover have "md_bytes c + (64 - of_nat r) = of_nat (length (m @ ?p))"
    using assms(1) len by (simp add: ctx_rep_def of_nat_diff)
  ultimately show ?thesis using lb mod len by (simp add: ctx_rep_def)
qed

text \<open>The rest of \<open>Write\<close>, from a context whose buffer does not overflow.\<close>

lemma ctx_rest:
  assumes "ctx_rep f iv c m" and "length m mod 64 = 0 \<or> length m mod 64 + length d < 64"
    and "ctx_blocks f (md_s c) (md_bytes c) d = (s, bytes, e)"
  shows "ctx_rep f iv
    (if e \<noteq> []
     then c\<lparr>md_s := s, md_buf := memcpy_at (md_buf c) (length m mod 64) e, md_bytes := bytes + of_nat (length e)\<rparr>
     else c\<lparr>md_s := s, md_bytes := bytes\<rparr>) (m @ d)"
proof -
  let ?r = "length m mod 64"
  have e: "s = md_absorb 64 f (md_s c) d" "bytes = md_bytes c + of_nat (64 * (length d div 64))" "e = md_tail 64 d"
    using assms(3) by (simp_all add: ctx_blocks_absorb)
  have n: "bytes + of_nat (length e) = of_nat (length (m @ d))"
  proof -
    have "64 * (length d div 64) + length e = length d" by (simp add: e(3))
    then have "of_nat (64 * (length d div 64)) + of_nat (length e) = (of_nat (length d) :: u64)"
      by (metis of_nat_add)
    then show ?thesis using assms(1) e(2) by (simp add: ctx_rep_def add.assoc)
  qed
  have abs: "md_absorb 64 f iv (m @ d) = s \<and> md_tail 64 (m @ d) = md_tail 64 m @ e \<and>
      length (m @ d) mod 64 = ?r + length e \<and> ?r + length e \<le> 64"
  proof (cases "?r = 0")
    case True
    then have "md_tail 64 m = []" by (rule md_tail_Nil)
    then show ?thesis using md_absorb_append [of 64 f iv m d] assms(1) True e
      by (simp add: ctx_rep_def mod_add_eq [symmetric, of "length m"])
  next
    case False
    then have small: "?r + length d < 64" using assms(2) by simp
    then have "e = d" "s = md_s c" using e by (simp_all add: md_tail_short md_absorb_short)
    moreover have "length (m @ d) mod 64 = ?r + length d"
      using small by (metis length_append mod_add_left_eq mod_less)
    ultimately show ?thesis
      using md_absorb_append [of 64 f iv m d] assms(1) small
      by (simp add: ctx_rep_def md_absorb_short md_tail_short)
  qed
  show ?thesis
  proof (cases "e = []")
    case True
    then show ?thesis using abs n assms(1) by (simp add: ctx_rep_def)
  next
    case False
    then show ?thesis using abs n assms(1) by (simp add: ctx_rep_def memcpy_at_def)
  qed
qed

lemma ctx_write_rep:
  assumes "ctx_rep f iv c m"
  shows "ctx_rep f iv (ctx_write f c d) (m @ d)"
proof -
  let ?r = "length m mod 64"
  have r: "unat (md_bytes c mod 64) = ?r" using assms by (simp add: ctx_rep_def unat_bytes_mod)
  show ?thesis
  proof (cases "?r \<noteq> 0 \<and> 64 \<le> ?r + length d")
    case True
    let ?p = "take (64 - ?r) d" and ?q = "drop (64 - ?r) d"
    let ?buf = "memcpy_at (md_buf c) ?r ?p"
    let ?c = "c\<lparr>md_buf := ?buf, md_bytes := md_bytes c + (64 - of_nat ?r), md_s := f (md_s c) ?buf\<rparr>"
    have c: "ctx_rep f iv ?c (m @ ?p)" using ctx_fill [OF assms] True by blast
    have "length ?p = 64 - ?r" using True by auto
    moreover have "(length m + (64 - ?r)) mod 64 = 0" by (rule add_complement_mod) simp
    ultimately have z: "length (m @ ?p) mod 64 = 0" by (simp only: length_append)
    obtain s bytes e where b: "ctx_blocks f (md_s ?c) (md_bytes ?c) ?q = (s, bytes, e)"
      by (metis prod_cases3)
    have "ctx_write f c d = (if e \<noteq> []
        then ?c\<lparr>md_s := s, md_buf := memcpy_at (md_buf ?c) 0 e, md_bytes := bytes + of_nat (length e)\<rparr>
        else ?c\<lparr>md_s := s, md_bytes := bytes\<rparr>)"
      using True b by (simp add: ctx_write_def r Let_def)
    then show ?thesis
      using ctx_rest [OF c disjI1 [OF z] b, unfolded z] by (simp only: append_assoc append_take_drop_id)
  next
    case False
    obtain s bytes e where b: "ctx_blocks f (md_s c) (md_bytes c) d = (s, bytes, e)" by (metis prod_cases3)
    have "ctx_write f c d = (if e \<noteq> []
        then c\<lparr>md_s := s, md_buf := memcpy_at (md_buf c) ?r e, md_bytes := bytes + of_nat (length e)\<rparr>
        else c\<lparr>md_s := s, md_bytes := bytes\<rparr>)"
      using False b by (auto simp: ctx_write_def r Let_def)
    then show ?thesis using ctx_rest [OF assms _ b] False by auto
  qed
qed

text \<open>A fresh context, whatever its buffer held before.\<close>

definition ctx_fresh :: "'s \<Rightarrow> 's md_ctx \<Rightarrow> bool" where
  "ctx_fresh iv c \<longleftrightarrow> md_s c = iv \<and> md_bytes c = 0 \<and> length (md_buf c) = 64"

lemma ctx_fresh_rep: "ctx_fresh iv c \<Longrightarrow> ctx_rep f iv c []"
  by (simp add: ctx_fresh_def ctx_rep_def md_absorb_short md_tail_def)

lemma ctx_chain_rep: "ctx_rep f iv c m \<Longrightarrow> md_s c = md_absorb 64 f iv m"
  by (simp add: ctx_rep_def)

text \<open>The padding as \<open>Finalize\<close> writes it.\<close>

lemma pad_bytes: "n < 64 \<Longrightarrow> take (1 + n) (0x80 # replicate 63 0) = (0x80 :: u8) # replicate n 0"
  by simp

lemma unat_pad_count: "unat ((119 - (of_nat n :: u64) mod 64) mod 64) = (119 - n mod 64) mod 64"
proof -
  have "(of_nat n :: u64) mod 64 = of_nat (n mod 64)"
    by (simp add: word_unat_eq_iff unat_bytes_mod unat_of_nat)
  moreover have "(119 :: u64) - of_nat (n mod 64) = of_nat (119 - n mod 64)"
    by (subst of_nat_diff) (simp_all add: less_imp_le [THEN order_trans])
  ultimately show ?thesis by (simp only: unat_bytes_mod)
qed

end
