(* ===== verification/Ripemd160_Compress.thy ===== *)
theory Ripemd160_Compress
  imports Md_Stream
begin

text \<open>
  The compression function of RIPEMD-160, which the pool has twice: the C reference code of
  \<^verbatim>\<open>src/src/crypto/cn/crypto/RIPEMD160.c\<close> with the macros of \<^verbatim>\<open>RIPEMD160.h\<close>, and \<open>Transform\<close> of
  \<^verbatim>\<open>src/src/crypto/verushash/ripemd160.cpp\<close>. The five registers of a line are a list; a macro
  call names them by position, and an unrolled round is the list of its calls. The reference
  \<open>rmd_compress\<close> has neither register renaming nor tables of message indices: the order of the
  words comes from the two permutations of the standard, and one table of shifts, indexed by
  message word, serves both lines.
\<close>

unbundle bit_operations_syntax

section \<open>\<open>cn/crypto/RIPEMD160.h\<close> and \<open>RIPEMD160.c\<close>\<close>

definition ROL :: "u32 \<Rightarrow> nat \<Rightarrow> u32" where
  "ROL x n = push_bit n x OR drop_bit (32 - n) x"

definition rmd_F :: "u32 \<Rightarrow> u32 \<Rightarrow> u32 \<Rightarrow> u32" where
  "rmd_F x y z = x XOR y XOR z"

definition rmd_G :: "u32 \<Rightarrow> u32 \<Rightarrow> u32 \<Rightarrow> u32" where
  "rmd_G x y z = (x AND y) OR (NOT x AND z)"

definition rmd_H :: "u32 \<Rightarrow> u32 \<Rightarrow> u32 \<Rightarrow> u32" where
  "rmd_H x y z = (x OR NOT y) XOR z"

definition rmd_I :: "u32 \<Rightarrow> u32 \<Rightarrow> u32 \<Rightarrow> u32" where
  "rmd_I x y z = (x AND z) OR (y AND NOT z)"

definition rmd_J :: "u32 \<Rightarrow> u32 \<Rightarrow> u32 \<Rightarrow> u32" where
  "rmd_J x y z = x XOR (y OR NOT z)"

definition FF :: "nat \<Rightarrow> nat \<Rightarrow> nat \<Rightarrow> nat \<Rightarrow> nat \<Rightarrow> u32 \<Rightarrow> nat \<Rightarrow> u32 list \<Rightarrow> u32 list" where
  "FF a b c d e x s r =
    (let r = r[a := r ! a + (rmd_F (r ! b) (r ! c) (r ! d) + x)];
         r = r[a := ROL (r ! a) s + r ! e]
     in r[c := ROL (r ! c) 10])"

definition GG :: "nat \<Rightarrow> nat \<Rightarrow> nat \<Rightarrow> nat \<Rightarrow> nat \<Rightarrow> u32 \<Rightarrow> nat \<Rightarrow> u32 list \<Rightarrow> u32 list" where
  "GG a b c d e x s r =
    (let r = r[a := r ! a + (rmd_G (r ! b) (r ! c) (r ! d) + x + 0x5a827999)];
         r = r[a := ROL (r ! a) s + r ! e]
     in r[c := ROL (r ! c) 10])"

definition HH :: "nat \<Rightarrow> nat \<Rightarrow> nat \<Rightarrow> nat \<Rightarrow> nat \<Rightarrow> u32 \<Rightarrow> nat \<Rightarrow> u32 list \<Rightarrow> u32 list" where
  "HH a b c d e x s r =
    (let r = r[a := r ! a + (rmd_H (r ! b) (r ! c) (r ! d) + x + 0x6ed9eba1)];
         r = r[a := ROL (r ! a) s + r ! e]
     in r[c := ROL (r ! c) 10])"

definition II :: "nat \<Rightarrow> nat \<Rightarrow> nat \<Rightarrow> nat \<Rightarrow> nat \<Rightarrow> u32 \<Rightarrow> nat \<Rightarrow> u32 list \<Rightarrow> u32 list" where
  "II a b c d e x s r =
    (let r = r[a := r ! a + (rmd_I (r ! b) (r ! c) (r ! d) + x + 0x8f1bbcdc)];
         r = r[a := ROL (r ! a) s + r ! e]
     in r[c := ROL (r ! c) 10])"

definition JJ :: "nat \<Rightarrow> nat \<Rightarrow> nat \<Rightarrow> nat \<Rightarrow> nat \<Rightarrow> u32 \<Rightarrow> nat \<Rightarrow> u32 list \<Rightarrow> u32 list" where
  "JJ a b c d e x s r =
    (let r = r[a := r ! a + (rmd_J (r ! b) (r ! c) (r ! d) + x + 0xa953fd4e)];
         r = r[a := ROL (r ! a) s + r ! e]
     in r[c := ROL (r ! c) 10])"

definition FFF :: "nat \<Rightarrow> nat \<Rightarrow> nat \<Rightarrow> nat \<Rightarrow> nat \<Rightarrow> u32 \<Rightarrow> nat \<Rightarrow> u32 list \<Rightarrow> u32 list" where
  "FFF a b c d e x s r =
    (let r = r[a := r ! a + (rmd_F (r ! b) (r ! c) (r ! d) + x)];
         r = r[a := ROL (r ! a) s + r ! e]
     in r[c := ROL (r ! c) 10])"

definition GGG :: "nat \<Rightarrow> nat \<Rightarrow> nat \<Rightarrow> nat \<Rightarrow> nat \<Rightarrow> u32 \<Rightarrow> nat \<Rightarrow> u32 list \<Rightarrow> u32 list" where
  "GGG a b c d e x s r =
    (let r = r[a := r ! a + (rmd_G (r ! b) (r ! c) (r ! d) + x + 0x7a6d76e9)];
         r = r[a := ROL (r ! a) s + r ! e]
     in r[c := ROL (r ! c) 10])"

definition HHH :: "nat \<Rightarrow> nat \<Rightarrow> nat \<Rightarrow> nat \<Rightarrow> nat \<Rightarrow> u32 \<Rightarrow> nat \<Rightarrow> u32 list \<Rightarrow> u32 list" where
  "HHH a b c d e x s r =
    (let r = r[a := r ! a + (rmd_H (r ! b) (r ! c) (r ! d) + x + 0x6d703ef3)];
         r = r[a := ROL (r ! a) s + r ! e]
     in r[c := ROL (r ! c) 10])"

definition III :: "nat \<Rightarrow> nat \<Rightarrow> nat \<Rightarrow> nat \<Rightarrow> nat \<Rightarrow> u32 \<Rightarrow> nat \<Rightarrow> u32 list \<Rightarrow> u32 list" where
  "III a b c d e x s r =
    (let r = r[a := r ! a + (rmd_I (r ! b) (r ! c) (r ! d) + x + 0x5c4dd124)];
         r = r[a := ROL (r ! a) s + r ! e]
     in r[c := ROL (r ! c) 10])"

definition JJJ :: "nat \<Rightarrow> nat \<Rightarrow> nat \<Rightarrow> nat \<Rightarrow> nat \<Rightarrow> u32 \<Rightarrow> nat \<Rightarrow> u32 list \<Rightarrow> u32 list" where
  "JJJ a b c d e x s r =
    (let r = r[a := r ! a + (rmd_J (r ! b) (r ! c) (r ! d) + x + 0x50a28be6)];
         r = r[a := ROL (r ! a) s + r ! e]
     in r[c := ROL (r ! c) 10])"

text \<open>The unrolled rounds of the two lines; registers \<open>aa..ee\<close> and \<open>aaa..eee\<close> are 0 to 4.\<close>

definition compress_round1 :: "u32 list \<Rightarrow> (u32 list \<Rightarrow> u32 list) list" where
  "compress_round1 X = [
   FF 0 1 2 3 4 (X ! 0) 11, FF 4 0 1 2 3 (X ! 1) 14,
   FF 3 4 0 1 2 (X ! 2) 15, FF 2 3 4 0 1 (X ! 3) 12,
   FF 1 2 3 4 0 (X ! 4) 5, FF 0 1 2 3 4 (X ! 5) 8,
   FF 4 0 1 2 3 (X ! 6) 7, FF 3 4 0 1 2 (X ! 7) 9,
   FF 2 3 4 0 1 (X ! 8) 11, FF 1 2 3 4 0 (X ! 9) 13,
   FF 0 1 2 3 4 (X ! 10) 14, FF 4 0 1 2 3 (X ! 11) 15,
   FF 3 4 0 1 2 (X ! 12) 6, FF 2 3 4 0 1 (X ! 13) 7,
   FF 1 2 3 4 0 (X ! 14) 9, FF 0 1 2 3 4 (X ! 15) 8]"

definition compress_round2 :: "u32 list \<Rightarrow> (u32 list \<Rightarrow> u32 list) list" where
  "compress_round2 X = [
   GG 4 0 1 2 3 (X ! 7) 7, GG 3 4 0 1 2 (X ! 4) 6,
   GG 2 3 4 0 1 (X ! 13) 8, GG 1 2 3 4 0 (X ! 1) 13,
   GG 0 1 2 3 4 (X ! 10) 11, GG 4 0 1 2 3 (X ! 6) 9,
   GG 3 4 0 1 2 (X ! 15) 7, GG 2 3 4 0 1 (X ! 3) 15,
   GG 1 2 3 4 0 (X ! 12) 7, GG 0 1 2 3 4 (X ! 0) 12,
   GG 4 0 1 2 3 (X ! 9) 15, GG 3 4 0 1 2 (X ! 5) 9,
   GG 2 3 4 0 1 (X ! 2) 11, GG 1 2 3 4 0 (X ! 14) 7,
   GG 0 1 2 3 4 (X ! 11) 13, GG 4 0 1 2 3 (X ! 8) 12]"

definition compress_round3 :: "u32 list \<Rightarrow> (u32 list \<Rightarrow> u32 list) list" where
  "compress_round3 X = [
   HH 3 4 0 1 2 (X ! 3) 11, HH 2 3 4 0 1 (X ! 10) 13,
   HH 1 2 3 4 0 (X ! 14) 6, HH 0 1 2 3 4 (X ! 4) 7,
   HH 4 0 1 2 3 (X ! 9) 14, HH 3 4 0 1 2 (X ! 15) 9,
   HH 2 3 4 0 1 (X ! 8) 13, HH 1 2 3 4 0 (X ! 1) 15,
   HH 0 1 2 3 4 (X ! 2) 14, HH 4 0 1 2 3 (X ! 7) 8,
   HH 3 4 0 1 2 (X ! 0) 13, HH 2 3 4 0 1 (X ! 6) 6,
   HH 1 2 3 4 0 (X ! 13) 5, HH 0 1 2 3 4 (X ! 11) 12,
   HH 4 0 1 2 3 (X ! 5) 7, HH 3 4 0 1 2 (X ! 12) 5]"

definition compress_round4 :: "u32 list \<Rightarrow> (u32 list \<Rightarrow> u32 list) list" where
  "compress_round4 X = [
   II 2 3 4 0 1 (X ! 1) 11, II 1 2 3 4 0 (X ! 9) 12,
   II 0 1 2 3 4 (X ! 11) 14, II 4 0 1 2 3 (X ! 10) 15,
   II 3 4 0 1 2 (X ! 0) 14, II 2 3 4 0 1 (X ! 8) 15,
   II 1 2 3 4 0 (X ! 12) 9, II 0 1 2 3 4 (X ! 4) 8,
   II 4 0 1 2 3 (X ! 13) 9, II 3 4 0 1 2 (X ! 3) 14,
   II 2 3 4 0 1 (X ! 7) 5, II 1 2 3 4 0 (X ! 15) 6,
   II 0 1 2 3 4 (X ! 14) 8, II 4 0 1 2 3 (X ! 5) 6,
   II 3 4 0 1 2 (X ! 6) 5, II 2 3 4 0 1 (X ! 2) 12]"

definition compress_round5 :: "u32 list \<Rightarrow> (u32 list \<Rightarrow> u32 list) list" where
  "compress_round5 X = [
   JJ 1 2 3 4 0 (X ! 4) 9, JJ 0 1 2 3 4 (X ! 0) 15,
   JJ 4 0 1 2 3 (X ! 5) 5, JJ 3 4 0 1 2 (X ! 9) 11,
   JJ 2 3 4 0 1 (X ! 7) 6, JJ 1 2 3 4 0 (X ! 12) 8,
   JJ 0 1 2 3 4 (X ! 2) 13, JJ 4 0 1 2 3 (X ! 10) 12,
   JJ 3 4 0 1 2 (X ! 14) 5, JJ 2 3 4 0 1 (X ! 1) 12,
   JJ 1 2 3 4 0 (X ! 3) 13, JJ 0 1 2 3 4 (X ! 8) 14,
   JJ 4 0 1 2 3 (X ! 11) 11, JJ 3 4 0 1 2 (X ! 6) 8,
   JJ 2 3 4 0 1 (X ! 15) 5, JJ 1 2 3 4 0 (X ! 13) 6]"

definition compress_parallel1 :: "u32 list \<Rightarrow> (u32 list \<Rightarrow> u32 list) list" where
  "compress_parallel1 X = [
   JJJ 0 1 2 3 4 (X ! 5) 8, JJJ 4 0 1 2 3 (X ! 14) 9,
   JJJ 3 4 0 1 2 (X ! 7) 9, JJJ 2 3 4 0 1 (X ! 0) 11,
   JJJ 1 2 3 4 0 (X ! 9) 13, JJJ 0 1 2 3 4 (X ! 2) 15,
   JJJ 4 0 1 2 3 (X ! 11) 15, JJJ 3 4 0 1 2 (X ! 4) 5,
   JJJ 2 3 4 0 1 (X ! 13) 7, JJJ 1 2 3 4 0 (X ! 6) 7,
   JJJ 0 1 2 3 4 (X ! 15) 8, JJJ 4 0 1 2 3 (X ! 8) 11,
   JJJ 3 4 0 1 2 (X ! 1) 14, JJJ 2 3 4 0 1 (X ! 10) 14,
   JJJ 1 2 3 4 0 (X ! 3) 12, JJJ 0 1 2 3 4 (X ! 12) 6]"

definition compress_parallel2 :: "u32 list \<Rightarrow> (u32 list \<Rightarrow> u32 list) list" where
  "compress_parallel2 X = [
   III 4 0 1 2 3 (X ! 6) 9, III 3 4 0 1 2 (X ! 11) 13,
   III 2 3 4 0 1 (X ! 3) 15, III 1 2 3 4 0 (X ! 7) 7,
   III 0 1 2 3 4 (X ! 0) 12, III 4 0 1 2 3 (X ! 13) 8,
   III 3 4 0 1 2 (X ! 5) 9, III 2 3 4 0 1 (X ! 10) 11,
   III 1 2 3 4 0 (X ! 14) 7, III 0 1 2 3 4 (X ! 15) 7,
   III 4 0 1 2 3 (X ! 8) 12, III 3 4 0 1 2 (X ! 12) 7,
   III 2 3 4 0 1 (X ! 4) 6, III 1 2 3 4 0 (X ! 9) 15,
   III 0 1 2 3 4 (X ! 1) 13, III 4 0 1 2 3 (X ! 2) 11]"

definition compress_parallel3 :: "u32 list \<Rightarrow> (u32 list \<Rightarrow> u32 list) list" where
  "compress_parallel3 X = [
   HHH 3 4 0 1 2 (X ! 15) 9, HHH 2 3 4 0 1 (X ! 5) 7,
   HHH 1 2 3 4 0 (X ! 1) 15, HHH 0 1 2 3 4 (X ! 3) 11,
   HHH 4 0 1 2 3 (X ! 7) 8, HHH 3 4 0 1 2 (X ! 14) 6,
   HHH 2 3 4 0 1 (X ! 6) 6, HHH 1 2 3 4 0 (X ! 9) 14,
   HHH 0 1 2 3 4 (X ! 11) 12, HHH 4 0 1 2 3 (X ! 8) 13,
   HHH 3 4 0 1 2 (X ! 12) 5, HHH 2 3 4 0 1 (X ! 2) 14,
   HHH 1 2 3 4 0 (X ! 10) 13, HHH 0 1 2 3 4 (X ! 0) 13,
   HHH 4 0 1 2 3 (X ! 4) 7, HHH 3 4 0 1 2 (X ! 13) 5]"

definition compress_parallel4 :: "u32 list \<Rightarrow> (u32 list \<Rightarrow> u32 list) list" where
  "compress_parallel4 X = [
   GGG 2 3 4 0 1 (X ! 8) 15, GGG 1 2 3 4 0 (X ! 6) 5,
   GGG 0 1 2 3 4 (X ! 4) 8, GGG 4 0 1 2 3 (X ! 1) 11,
   GGG 3 4 0 1 2 (X ! 3) 14, GGG 2 3 4 0 1 (X ! 11) 14,
   GGG 1 2 3 4 0 (X ! 15) 6, GGG 0 1 2 3 4 (X ! 0) 14,
   GGG 4 0 1 2 3 (X ! 5) 6, GGG 3 4 0 1 2 (X ! 12) 9,
   GGG 2 3 4 0 1 (X ! 2) 12, GGG 1 2 3 4 0 (X ! 13) 9,
   GGG 0 1 2 3 4 (X ! 9) 12, GGG 4 0 1 2 3 (X ! 7) 5,
   GGG 3 4 0 1 2 (X ! 10) 15, GGG 2 3 4 0 1 (X ! 14) 8]"

definition compress_parallel5 :: "u32 list \<Rightarrow> (u32 list \<Rightarrow> u32 list) list" where
  "compress_parallel5 X = [
   FFF 1 2 3 4 0 (X ! 12) 8, FFF 0 1 2 3 4 (X ! 15) 5,
   FFF 4 0 1 2 3 (X ! 10) 12, FFF 3 4 0 1 2 (X ! 4) 9,
   FFF 2 3 4 0 1 (X ! 1) 12, FFF 1 2 3 4 0 (X ! 5) 5,
   FFF 0 1 2 3 4 (X ! 8) 14, FFF 4 0 1 2 3 (X ! 7) 6,
   FFF 3 4 0 1 2 (X ! 6) 8, FFF 2 3 4 0 1 (X ! 2) 13,
   FFF 1 2 3 4 0 (X ! 13) 6, FFF 0 1 2 3 4 (X ! 14) 5,
   FFF 4 0 1 2 3 (X ! 0) 15, FFF 3 4 0 1 2 (X ! 3) 13,
   FFF 2 3 4 0 1 (X ! 9) 11, FFF 1 2 3 4 0 (X ! 11) 11]"

definition MDinit :: "u32 list" where
  "MDinit = [0x67452301, 0xefcdab89, 0x98badcfe, 0x10325476, 0xc3d2e1f0]"

definition rmd_compress_c :: "u32 list \<Rightarrow> u32 list \<Rightarrow> u32 list" where
  "rmd_compress_c MDbuf X =
    (let r = run_calls (compress_round1 X @ compress_round2 X @ compress_round3 X @
                        compress_round4 X @ compress_round5 X) MDbuf;
         r' = run_calls (compress_parallel1 X @ compress_parallel2 X @ compress_parallel3 X @
                        compress_parallel4 X @ compress_parallel5 X) MDbuf;
         ddd = r' ! 3 + (r ! 2 + MDbuf ! 1)
     in [ddd, MDbuf ! 2 + r ! 3 + r' ! 4, MDbuf ! 3 + r ! 4 + r' ! 0,
         MDbuf ! 4 + r ! 0 + r' ! 1, MDbuf ! 0 + r ! 1 + r' ! 2])"

section \<open>\<open>verushash/ripemd160.cpp\<close>\<close>

definition rmd_f1 :: "u32 \<Rightarrow> u32 \<Rightarrow> u32 \<Rightarrow> u32" where
  "rmd_f1 x y z = x XOR y XOR z"

definition rmd_f2 :: "u32 \<Rightarrow> u32 \<Rightarrow> u32 \<Rightarrow> u32" where
  "rmd_f2 x y z = (x AND y) OR (NOT x AND z)"

definition rmd_f3 :: "u32 \<Rightarrow> u32 \<Rightarrow> u32 \<Rightarrow> u32" where
  "rmd_f3 x y z = (x OR NOT y) XOR z"

definition rmd_f4 :: "u32 \<Rightarrow> u32 \<Rightarrow> u32 \<Rightarrow> u32" where
  "rmd_f4 x y z = (x AND z) OR (y AND NOT z)"

definition rmd_f5 :: "u32 \<Rightarrow> u32 \<Rightarrow> u32 \<Rightarrow> u32" where
  "rmd_f5 x y z = x XOR (y OR NOT z)"

definition rmd_Initialize :: "u32 list" where
  "rmd_Initialize = [0x67452301, 0xEFCDAB89, 0x98BADCFE, 0x10325476, 0xC3D2E1F0]"

definition rmd_rol :: "u32 \<Rightarrow> nat \<Rightarrow> u32" where
  "rmd_rol x i = push_bit i x OR drop_bit (32 - i) x"

definition rmd_Round ::
  "nat \<Rightarrow> nat \<Rightarrow> nat \<Rightarrow> nat \<Rightarrow> nat \<Rightarrow> u32 \<Rightarrow> u32 \<Rightarrow> u32 \<Rightarrow> nat \<Rightarrow> u32 list \<Rightarrow> u32 list" where
  "rmd_Round a b c d e f x k s r =
    (let r = r[a := rmd_rol (r ! a + f + x + k) s + r ! e]
     in r[c := rmd_rol (r ! c) 10])"

definition R11 :: "nat \<Rightarrow> nat \<Rightarrow> nat \<Rightarrow> nat \<Rightarrow> nat \<Rightarrow> u32 \<Rightarrow> nat \<Rightarrow> u32 list \<Rightarrow> u32 list" where
  "R11 a b c d e x s r = rmd_Round a b c d e (rmd_f1 (r ! b) (r ! c) (r ! d)) x 0 s r"

definition R21 :: "nat \<Rightarrow> nat \<Rightarrow> nat \<Rightarrow> nat \<Rightarrow> nat \<Rightarrow> u32 \<Rightarrow> nat \<Rightarrow> u32 list \<Rightarrow> u32 list" where
  "R21 a b c d e x s r = rmd_Round a b c d e (rmd_f2 (r ! b) (r ! c) (r ! d)) x 0x5A827999 s r"

definition R31 :: "nat \<Rightarrow> nat \<Rightarrow> nat \<Rightarrow> nat \<Rightarrow> nat \<Rightarrow> u32 \<Rightarrow> nat \<Rightarrow> u32 list \<Rightarrow> u32 list" where
  "R31 a b c d e x s r = rmd_Round a b c d e (rmd_f3 (r ! b) (r ! c) (r ! d)) x 0x6ED9EBA1 s r"

definition R41 :: "nat \<Rightarrow> nat \<Rightarrow> nat \<Rightarrow> nat \<Rightarrow> nat \<Rightarrow> u32 \<Rightarrow> nat \<Rightarrow> u32 list \<Rightarrow> u32 list" where
  "R41 a b c d e x s r = rmd_Round a b c d e (rmd_f4 (r ! b) (r ! c) (r ! d)) x 0x8F1BBCDC s r"

definition R51 :: "nat \<Rightarrow> nat \<Rightarrow> nat \<Rightarrow> nat \<Rightarrow> nat \<Rightarrow> u32 \<Rightarrow> nat \<Rightarrow> u32 list \<Rightarrow> u32 list" where
  "R51 a b c d e x s r = rmd_Round a b c d e (rmd_f5 (r ! b) (r ! c) (r ! d)) x 0xA953FD4E s r"

definition R12 :: "nat \<Rightarrow> nat \<Rightarrow> nat \<Rightarrow> nat \<Rightarrow> nat \<Rightarrow> u32 \<Rightarrow> nat \<Rightarrow> u32 list \<Rightarrow> u32 list" where
  "R12 a b c d e x s r = rmd_Round a b c d e (rmd_f5 (r ! b) (r ! c) (r ! d)) x 0x50A28BE6 s r"

definition R22 :: "nat \<Rightarrow> nat \<Rightarrow> nat \<Rightarrow> nat \<Rightarrow> nat \<Rightarrow> u32 \<Rightarrow> nat \<Rightarrow> u32 list \<Rightarrow> u32 list" where
  "R22 a b c d e x s r = rmd_Round a b c d e (rmd_f4 (r ! b) (r ! c) (r ! d)) x 0x5C4DD124 s r"

definition R32 :: "nat \<Rightarrow> nat \<Rightarrow> nat \<Rightarrow> nat \<Rightarrow> nat \<Rightarrow> u32 \<Rightarrow> nat \<Rightarrow> u32 list \<Rightarrow> u32 list" where
  "R32 a b c d e x s r = rmd_Round a b c d e (rmd_f3 (r ! b) (r ! c) (r ! d)) x 0x6D703EF3 s r"

definition R42 :: "nat \<Rightarrow> nat \<Rightarrow> nat \<Rightarrow> nat \<Rightarrow> nat \<Rightarrow> u32 \<Rightarrow> nat \<Rightarrow> u32 list \<Rightarrow> u32 list" where
  "R42 a b c d e x s r = rmd_Round a b c d e (rmd_f2 (r ! b) (r ! c) (r ! d)) x 0x7A6D76E9 s r"

definition R52 :: "nat \<Rightarrow> nat \<Rightarrow> nat \<Rightarrow> nat \<Rightarrow> nat \<Rightarrow> u32 \<Rightarrow> nat \<Rightarrow> u32 list \<Rightarrow> u32 list" where
  "R52 a b c d e x s r = rmd_Round a b c d e (rmd_f1 (r ! b) (r ! c) (r ! d)) x 0 s r"

text \<open>The interleaved calls: \<open>Inl\<close> works on \<open>a1..e1\<close>, \<open>Inr\<close> on \<open>a2..e2\<close>.\<close>

definition Transform_1 :: "u32 list \<Rightarrow> ((u32 list \<Rightarrow> u32 list) + (u32 list \<Rightarrow> u32 list)) list" where
  "Transform_1 w = [
   Inl (R11 0 1 2 3 4 (w ! 0) 11), Inr (R12 0 1 2 3 4 (w ! 5) 8),
   Inl (R11 4 0 1 2 3 (w ! 1) 14), Inr (R12 4 0 1 2 3 (w ! 14) 9),
   Inl (R11 3 4 0 1 2 (w ! 2) 15), Inr (R12 3 4 0 1 2 (w ! 7) 9),
   Inl (R11 2 3 4 0 1 (w ! 3) 12), Inr (R12 2 3 4 0 1 (w ! 0) 11),
   Inl (R11 1 2 3 4 0 (w ! 4) 5), Inr (R12 1 2 3 4 0 (w ! 9) 13),
   Inl (R11 0 1 2 3 4 (w ! 5) 8), Inr (R12 0 1 2 3 4 (w ! 2) 15),
   Inl (R11 4 0 1 2 3 (w ! 6) 7), Inr (R12 4 0 1 2 3 (w ! 11) 15),
   Inl (R11 3 4 0 1 2 (w ! 7) 9), Inr (R12 3 4 0 1 2 (w ! 4) 5),
   Inl (R11 2 3 4 0 1 (w ! 8) 11), Inr (R12 2 3 4 0 1 (w ! 13) 7),
   Inl (R11 1 2 3 4 0 (w ! 9) 13), Inr (R12 1 2 3 4 0 (w ! 6) 7),
   Inl (R11 0 1 2 3 4 (w ! 10) 14), Inr (R12 0 1 2 3 4 (w ! 15) 8),
   Inl (R11 4 0 1 2 3 (w ! 11) 15), Inr (R12 4 0 1 2 3 (w ! 8) 11),
   Inl (R11 3 4 0 1 2 (w ! 12) 6), Inr (R12 3 4 0 1 2 (w ! 1) 14),
   Inl (R11 2 3 4 0 1 (w ! 13) 7), Inr (R12 2 3 4 0 1 (w ! 10) 14),
   Inl (R11 1 2 3 4 0 (w ! 14) 9), Inr (R12 1 2 3 4 0 (w ! 3) 12),
   Inl (R11 0 1 2 3 4 (w ! 15) 8), Inr (R12 0 1 2 3 4 (w ! 12) 6)]"

definition Transform_2 :: "u32 list \<Rightarrow> ((u32 list \<Rightarrow> u32 list) + (u32 list \<Rightarrow> u32 list)) list" where
  "Transform_2 w = [
   Inl (R21 4 0 1 2 3 (w ! 7) 7), Inr (R22 4 0 1 2 3 (w ! 6) 9),
   Inl (R21 3 4 0 1 2 (w ! 4) 6), Inr (R22 3 4 0 1 2 (w ! 11) 13),
   Inl (R21 2 3 4 0 1 (w ! 13) 8), Inr (R22 2 3 4 0 1 (w ! 3) 15),
   Inl (R21 1 2 3 4 0 (w ! 1) 13), Inr (R22 1 2 3 4 0 (w ! 7) 7),
   Inl (R21 0 1 2 3 4 (w ! 10) 11), Inr (R22 0 1 2 3 4 (w ! 0) 12),
   Inl (R21 4 0 1 2 3 (w ! 6) 9), Inr (R22 4 0 1 2 3 (w ! 13) 8),
   Inl (R21 3 4 0 1 2 (w ! 15) 7), Inr (R22 3 4 0 1 2 (w ! 5) 9),
   Inl (R21 2 3 4 0 1 (w ! 3) 15), Inr (R22 2 3 4 0 1 (w ! 10) 11),
   Inl (R21 1 2 3 4 0 (w ! 12) 7), Inr (R22 1 2 3 4 0 (w ! 14) 7),
   Inl (R21 0 1 2 3 4 (w ! 0) 12), Inr (R22 0 1 2 3 4 (w ! 15) 7),
   Inl (R21 4 0 1 2 3 (w ! 9) 15), Inr (R22 4 0 1 2 3 (w ! 8) 12),
   Inl (R21 3 4 0 1 2 (w ! 5) 9), Inr (R22 3 4 0 1 2 (w ! 12) 7),
   Inl (R21 2 3 4 0 1 (w ! 2) 11), Inr (R22 2 3 4 0 1 (w ! 4) 6),
   Inl (R21 1 2 3 4 0 (w ! 14) 7), Inr (R22 1 2 3 4 0 (w ! 9) 15),
   Inl (R21 0 1 2 3 4 (w ! 11) 13), Inr (R22 0 1 2 3 4 (w ! 1) 13),
   Inl (R21 4 0 1 2 3 (w ! 8) 12), Inr (R22 4 0 1 2 3 (w ! 2) 11)]"

definition Transform_3 :: "u32 list \<Rightarrow> ((u32 list \<Rightarrow> u32 list) + (u32 list \<Rightarrow> u32 list)) list" where
  "Transform_3 w = [
   Inl (R31 3 4 0 1 2 (w ! 3) 11), Inr (R32 3 4 0 1 2 (w ! 15) 9),
   Inl (R31 2 3 4 0 1 (w ! 10) 13), Inr (R32 2 3 4 0 1 (w ! 5) 7),
   Inl (R31 1 2 3 4 0 (w ! 14) 6), Inr (R32 1 2 3 4 0 (w ! 1) 15),
   Inl (R31 0 1 2 3 4 (w ! 4) 7), Inr (R32 0 1 2 3 4 (w ! 3) 11),
   Inl (R31 4 0 1 2 3 (w ! 9) 14), Inr (R32 4 0 1 2 3 (w ! 7) 8),
   Inl (R31 3 4 0 1 2 (w ! 15) 9), Inr (R32 3 4 0 1 2 (w ! 14) 6),
   Inl (R31 2 3 4 0 1 (w ! 8) 13), Inr (R32 2 3 4 0 1 (w ! 6) 6),
   Inl (R31 1 2 3 4 0 (w ! 1) 15), Inr (R32 1 2 3 4 0 (w ! 9) 14),
   Inl (R31 0 1 2 3 4 (w ! 2) 14), Inr (R32 0 1 2 3 4 (w ! 11) 12),
   Inl (R31 4 0 1 2 3 (w ! 7) 8), Inr (R32 4 0 1 2 3 (w ! 8) 13),
   Inl (R31 3 4 0 1 2 (w ! 0) 13), Inr (R32 3 4 0 1 2 (w ! 12) 5),
   Inl (R31 2 3 4 0 1 (w ! 6) 6), Inr (R32 2 3 4 0 1 (w ! 2) 14),
   Inl (R31 1 2 3 4 0 (w ! 13) 5), Inr (R32 1 2 3 4 0 (w ! 10) 13),
   Inl (R31 0 1 2 3 4 (w ! 11) 12), Inr (R32 0 1 2 3 4 (w ! 0) 13),
   Inl (R31 4 0 1 2 3 (w ! 5) 7), Inr (R32 4 0 1 2 3 (w ! 4) 7),
   Inl (R31 3 4 0 1 2 (w ! 12) 5), Inr (R32 3 4 0 1 2 (w ! 13) 5)]"

definition Transform_4 :: "u32 list \<Rightarrow> ((u32 list \<Rightarrow> u32 list) + (u32 list \<Rightarrow> u32 list)) list" where
  "Transform_4 w = [
   Inl (R41 2 3 4 0 1 (w ! 1) 11), Inr (R42 2 3 4 0 1 (w ! 8) 15),
   Inl (R41 1 2 3 4 0 (w ! 9) 12), Inr (R42 1 2 3 4 0 (w ! 6) 5),
   Inl (R41 0 1 2 3 4 (w ! 11) 14), Inr (R42 0 1 2 3 4 (w ! 4) 8),
   Inl (R41 4 0 1 2 3 (w ! 10) 15), Inr (R42 4 0 1 2 3 (w ! 1) 11),
   Inl (R41 3 4 0 1 2 (w ! 0) 14), Inr (R42 3 4 0 1 2 (w ! 3) 14),
   Inl (R41 2 3 4 0 1 (w ! 8) 15), Inr (R42 2 3 4 0 1 (w ! 11) 14),
   Inl (R41 1 2 3 4 0 (w ! 12) 9), Inr (R42 1 2 3 4 0 (w ! 15) 6),
   Inl (R41 0 1 2 3 4 (w ! 4) 8), Inr (R42 0 1 2 3 4 (w ! 0) 14),
   Inl (R41 4 0 1 2 3 (w ! 13) 9), Inr (R42 4 0 1 2 3 (w ! 5) 6),
   Inl (R41 3 4 0 1 2 (w ! 3) 14), Inr (R42 3 4 0 1 2 (w ! 12) 9),
   Inl (R41 2 3 4 0 1 (w ! 7) 5), Inr (R42 2 3 4 0 1 (w ! 2) 12),
   Inl (R41 1 2 3 4 0 (w ! 15) 6), Inr (R42 1 2 3 4 0 (w ! 13) 9),
   Inl (R41 0 1 2 3 4 (w ! 14) 8), Inr (R42 0 1 2 3 4 (w ! 9) 12),
   Inl (R41 4 0 1 2 3 (w ! 5) 6), Inr (R42 4 0 1 2 3 (w ! 7) 5),
   Inl (R41 3 4 0 1 2 (w ! 6) 5), Inr (R42 3 4 0 1 2 (w ! 10) 15),
   Inl (R41 2 3 4 0 1 (w ! 2) 12), Inr (R42 2 3 4 0 1 (w ! 14) 8)]"

definition Transform_5 :: "u32 list \<Rightarrow> ((u32 list \<Rightarrow> u32 list) + (u32 list \<Rightarrow> u32 list)) list" where
  "Transform_5 w = [
   Inl (R51 1 2 3 4 0 (w ! 4) 9), Inr (R52 1 2 3 4 0 (w ! 12) 8),
   Inl (R51 0 1 2 3 4 (w ! 0) 15), Inr (R52 0 1 2 3 4 (w ! 15) 5),
   Inl (R51 4 0 1 2 3 (w ! 5) 5), Inr (R52 4 0 1 2 3 (w ! 10) 12),
   Inl (R51 3 4 0 1 2 (w ! 9) 11), Inr (R52 3 4 0 1 2 (w ! 4) 9),
   Inl (R51 2 3 4 0 1 (w ! 7) 6), Inr (R52 2 3 4 0 1 (w ! 1) 12),
   Inl (R51 1 2 3 4 0 (w ! 12) 8), Inr (R52 1 2 3 4 0 (w ! 5) 5),
   Inl (R51 0 1 2 3 4 (w ! 2) 13), Inr (R52 0 1 2 3 4 (w ! 8) 14),
   Inl (R51 4 0 1 2 3 (w ! 10) 12), Inr (R52 4 0 1 2 3 (w ! 7) 6),
   Inl (R51 3 4 0 1 2 (w ! 14) 5), Inr (R52 3 4 0 1 2 (w ! 6) 8),
   Inl (R51 2 3 4 0 1 (w ! 1) 12), Inr (R52 2 3 4 0 1 (w ! 2) 13),
   Inl (R51 1 2 3 4 0 (w ! 3) 13), Inr (R52 1 2 3 4 0 (w ! 13) 6),
   Inl (R51 0 1 2 3 4 (w ! 8) 14), Inr (R52 0 1 2 3 4 (w ! 14) 5),
   Inl (R51 4 0 1 2 3 (w ! 11) 11), Inr (R52 4 0 1 2 3 (w ! 0) 15),
   Inl (R51 3 4 0 1 2 (w ! 6) 8), Inr (R52 3 4 0 1 2 (w ! 3) 13),
   Inl (R51 2 3 4 0 1 (w ! 15) 5), Inr (R52 2 3 4 0 1 (w ! 9) 11),
   Inl (R51 1 2 3 4 0 (w ! 13) 6), Inr (R52 1 2 3 4 0 (w ! 11) 11)]"

definition run_both ::
  "((u32 list \<Rightarrow> u32 list) + (u32 list \<Rightarrow> u32 list)) list \<Rightarrow> u32 list \<times> u32 list \<Rightarrow> u32 list \<times> u32 list" where
  "run_both cs p = fold (\<lambda>c (r1, r2). case c of Inl f \<Rightarrow> (f r1, r2) | Inr f \<Rightarrow> (r1, f r2)) cs p"

definition ReadLE32 :: "u8 list \<Rightarrow> u32" where
  "ReadLE32 p = le_load (take 4 p)"

definition rmd_Transform :: "u32 list \<Rightarrow> u8 list \<Rightarrow> u32 list" where
  "rmd_Transform s chunk =
    (let w = map (\<lambda>i. ReadLE32 (drop (4 * i) chunk)) [0..<16];
         (r1, r2) = run_both (Transform_1 w @ Transform_2 w @ Transform_3 w @ Transform_4 w @ Transform_5 w) (s, s);
         t = s ! 0
     in [s ! 1 + r1 ! 2 + r2 ! 3, s ! 2 + r1 ! 3 + r2 ! 4, s ! 3 + r1 ! 4 + r2 ! 0,
         s ! 4 + r1 ! 0 + r2 ! 1, t + r1 ! 1 + r2 ! 2])"

section \<open>The reference\<close>

definition rmd_rho :: "nat \<Rightarrow> nat" where
  "rmd_rho i = [7, 4, 13, 1, 10, 6, 15, 3, 12, 0, 9, 5, 2, 14, 11, 8] ! i"

text \<open>The message word of step \<open>j\<close>, on the left and on the right line.\<close>

definition rmd_word :: "bool \<Rightarrow> nat \<Rightarrow> nat" where
  "rmd_word right j = (rmd_rho ^^ (j div 16)) (if right then (9 * (j mod 16) + 5) mod 16 else j mod 16)"

definition rmd_shift :: "nat \<Rightarrow> nat \<Rightarrow> nat" where
  "rmd_shift round word =
    [[11, 14, 15, 12, 5, 8, 7, 9, 11, 13, 14, 15, 6, 7, 9, 8],
     [12, 13, 11, 15, 6, 9, 9, 7, 12, 15, 11, 13, 7, 8, 7, 7],
     [13, 15, 14, 11, 7, 7, 6, 8, 13, 14, 13, 12, 5, 5, 6, 9],
     [14, 11, 12, 14, 8, 6, 5, 5, 15, 12, 15, 14, 9, 9, 8, 6],
     [15, 12, 13, 13, 9, 5, 8, 6, 14, 11, 12, 11, 8, 6, 5, 5]] ! round ! word"

definition rmd_const :: "bool \<Rightarrow> nat \<Rightarrow> u32" where
  "rmd_const right round =
    (if right then [0x50a28be6, 0x5c4dd124, 0x6d703ef3, 0x7a6d76e9, 0]
     else [0, 0x5a827999, 0x6ed9eba1, 0x8f1bbcdc, 0xa953fd4e]) ! round"

definition rmd_fun :: "nat \<Rightarrow> u32 \<Rightarrow> u32 \<Rightarrow> u32 \<Rightarrow> u32" where
  "rmd_fun i x y z =
    (if i = 0 then x XOR y XOR z
     else if i = 1 then (x AND y) OR (NOT x AND z)
     else if i = 2 then (x OR NOT y) XOR z
     else if i = 3 then (x AND z) OR (y AND NOT z)
     else x XOR (y OR NOT z))"

definition rmd_step :: "bool \<Rightarrow> u32 list \<Rightarrow> nat \<Rightarrow> u32 list \<Rightarrow> u32 list" where
  "rmd_step right X j r =
    (let i = j div 16; w = rmd_word right j;
         t = word_rotl (rmd_shift i w)
               (r ! 0 + rmd_fun (if right then 4 - i else i) (r ! 1) (r ! 2) (r ! 3) + X ! w + rmd_const right i) + r ! 4
     in [r ! 4, t, r ! 1, word_rotl 10 (r ! 2), r ! 3])"

definition rmd_line :: "bool \<Rightarrow> u32 list \<Rightarrow> u32 list \<Rightarrow> u32 list" where
  "rmd_line right X h = fold (rmd_step right X) [0..<80] h"

definition rmd_words :: "u8 list \<Rightarrow> u32 list" where
  "rmd_words blk = map (\<lambda>i. le_load (take 4 (drop (4 * i) blk))) [0..<16]"

definition rmd_compress :: "u32 list \<Rightarrow> u8 list \<Rightarrow> u32 list" where
  "rmd_compress h blk =
    (let l = rmd_line False (rmd_words blk) h; r = rmd_line True (rmd_words blk) h
     in map (\<lambda>k. h ! ((k + 1) mod 5) + l ! ((k + 2) mod 5) + r ! ((k + 3) mod 5)) [0..<5])"

section \<open>Both compression functions compute the reference\<close>

lemma ROL_rotl: "0 < n \<Longrightarrow> n < 32 \<Longrightarrow> ROL x n = word_rotl n x"
  using shift_or_rotl [of n x] by (simp add: ROL_def)

lemma rmd_rol_rotl: "0 < n \<Longrightarrow> n < 32 \<Longrightarrow> rmd_rol x n = word_rotl n x"
  using shift_or_rotl [of n x] by (simp add: rmd_rol_def)

text \<open>The common form of all twenty step operations.\<close>

definition rmd_op ::
  "(u32 \<Rightarrow> u32 \<Rightarrow> u32 \<Rightarrow> u32) \<Rightarrow> u32 \<Rightarrow> nat \<Rightarrow> nat \<Rightarrow> nat \<Rightarrow> nat \<Rightarrow> nat \<Rightarrow> u32 \<Rightarrow> nat \<Rightarrow> u32 list \<Rightarrow> u32 list" where
  "rmd_op fn k a b c d e x s r =
    r[a := word_rotl s (r ! a + fn (r ! b) (r ! c) (r ! d) + x + k) + r ! e, c := word_rotl 10 (r ! c)]"

lemma rmd_c_ops:
  assumes "length r = 5" and "a < 5" and "a \<noteq> e" and "a \<noteq> c" and "0 < s" and "s < 32"
  shows "FF a b c d e x s r = rmd_op (rmd_fun 0) 0 a b c d e x s r"
    and "GG a b c d e x s r = rmd_op (rmd_fun 1) 0x5a827999 a b c d e x s r"
    and "HH a b c d e x s r = rmd_op (rmd_fun 2) 0x6ed9eba1 a b c d e x s r"
    and "II a b c d e x s r = rmd_op (rmd_fun 3) 0x8f1bbcdc a b c d e x s r"
    and "JJ a b c d e x s r = rmd_op (rmd_fun 4) 0xa953fd4e a b c d e x s r"
    and "FFF a b c d e x s r = rmd_op (rmd_fun 0) 0 a b c d e x s r"
    and "GGG a b c d e x s r = rmd_op (rmd_fun 1) 0x7a6d76e9 a b c d e x s r"
    and "HHH a b c d e x s r = rmd_op (rmd_fun 2) 0x6d703ef3 a b c d e x s r"
    and "III a b c d e x s r = rmd_op (rmd_fun 3) 0x5c4dd124 a b c d e x s r"
    and "JJJ a b c d e x s r = rmd_op (rmd_fun 4) 0x50a28be6 a b c d e x s r"
  using assms
  by (simp_all add: rmd_op_def rmd_fun_def ROL_rotl Let_def add.assoc
      FF_def GG_def HH_def II_def JJ_def FFF_def GGG_def HHH_def III_def JJJ_def
      rmd_F_def rmd_G_def rmd_H_def rmd_I_def rmd_J_def)

lemma rmd_cpp_ops:
  assumes "length r = 5" and "a < 5" and "a \<noteq> e" and "a \<noteq> c" and "0 < s" and "s < 32"
  shows "R11 a b c d e x s r = rmd_op (rmd_fun 0) 0 a b c d e x s r"
    and "R21 a b c d e x s r = rmd_op (rmd_fun 1) 0x5a827999 a b c d e x s r"
    and "R31 a b c d e x s r = rmd_op (rmd_fun 2) 0x6ed9eba1 a b c d e x s r"
    and "R41 a b c d e x s r = rmd_op (rmd_fun 3) 0x8f1bbcdc a b c d e x s r"
    and "R51 a b c d e x s r = rmd_op (rmd_fun 4) 0xa953fd4e a b c d e x s r"
    and "R52 a b c d e x s r = rmd_op (rmd_fun 0) 0 a b c d e x s r"
    and "R42 a b c d e x s r = rmd_op (rmd_fun 1) 0x7a6d76e9 a b c d e x s r"
    and "R32 a b c d e x s r = rmd_op (rmd_fun 2) 0x6d703ef3 a b c d e x s r"
    and "R22 a b c d e x s r = rmd_op (rmd_fun 3) 0x5c4dd124 a b c d e x s r"
    and "R12 a b c d e x s r = rmd_op (rmd_fun 4) 0x50a28be6 a b c d e x s r"
  using assms
  by (simp_all add: rmd_op_def rmd_fun_def rmd_rol_rotl Let_def rmd_Round_def
      R11_def R21_def R31_def R41_def R51_def R12_def R22_def R32_def R42_def R52_def
      rmd_f1_def rmd_f2_def rmd_f3_def rmd_f4_def rmd_f5_def)

text \<open>Step \<open>j\<close> with the registers renamed instead of moved.\<close>

definition rmd_call :: "bool \<Rightarrow> u32 list \<Rightarrow> nat \<Rightarrow> u32 list \<Rightarrow> u32 list" where
  "rmd_call right X j =
    (let i = j div 16; w = rmd_word right j
     in rmd_op (rmd_fun (if right then 4 - i else i)) (rmd_const right i)
          (4 * j mod 5) ((4 * j + 1) mod 5) ((4 * j + 2) mod 5) ((4 * j + 3) mod 5) ((4 * j + 4) mod 5)
          (X ! w) (rmd_shift i w))"

definition rmd_view :: "nat \<Rightarrow> u32 list \<Rightarrow> u32 list" where
  "rmd_view j r = map (\<lambda>k. r ! ((4 * j + k) mod 5)) [0..<5]"

lemma length_rmd_call [simp]: "length (rmd_call right X j r) = length r"
  by (simp add: rmd_call_def rmd_op_def Let_def)

lemma length_5E:
  assumes "length r = 5"
  obtains a b c d e where "r = [a, b, c, d, e]"
  using assms by (auto simp: length_Suc_conv eval_nat_numeral)

lemma rmd_view_call:
  assumes "length r = 5"
  shows "rmd_view (Suc j) (rmd_call right X j r) = rmd_step right X j (rmd_view j r)"
proof -
  obtain a b c d e where r: "r = [a, b, c, d, e]" using assms by (rule length_5E)
  have red: "(4 * j + k) mod 5 = (4 * (j mod 5) + k) mod 5" for k
    by (metis mod_add_left_eq mod_mult_right_eq)
  have red': "(4 * Suc j + k) mod 5 = (4 * (j mod 5) + 4 + k) mod 5" for k
    using red [of "4 + k"] by (simp add: algebra_simps)
  have "j mod 5 < 5" by simp
  then consider "j mod 5 = 0" | "j mod 5 = 1" | "j mod 5 = 2" | "j mod 5 = 3" | "j mod 5 = 4" by linarith
  then show ?thesis
    unfolding rmd_view_def rmd_call_def rmd_step_def rmd_op_def Let_def r red red' red [of 0, unfolded add_0_right]
    by cases (simp_all add: upt_conv_Cons)
qed

lemma rmd_calls_line:
  assumes "length r = 5"
  shows "rmd_view n (fold (rmd_call right X) [0..<n] r) = fold (rmd_step right X) [0..<n] r"
proof (induction n)
  case 0
  obtain a b c d e where "r = [a, b, c, d, e]" using assms by (rule length_5E)
  then show ?case by (simp add: rmd_view_def upt_conv_Cons)
next
  case (Suc n)
  have "length (fold (rmd_call right X) [0..<n] r) = 5" using assms by (induction n) simp_all
  then show ?case using Suc by (simp add: rmd_view_call)
qed

lemma rmd_line_calls:
  assumes "length r = 5"
  shows "fold (rmd_call right X) [0..<80] r = rmd_line right X r"
proof -
  let ?z = "fold (rmd_call right X) [0..<80] r"
  have "length (fold (rmd_call right X) [0..<n] r) = 5" for n using assms by (induction n) simp_all
  from this [of 80] obtain a b c d e where z: "?z = [a, b, c, d, e]" by (rule length_5E)
  have "rmd_view 80 ?z = ?z" unfolding z by (simp add: rmd_view_def upt_conv_Cons)
  then show ?thesis using rmd_calls_line [OF assms, of 80 right X] by (simp only: rmd_line_def)
qed

abbreviation five :: "u32 list \<Rightarrow> bool" where
  "five r \<equiv> length r = 5"

lemma rmd_rho_powers:
  "(rmd_rho ^^ 2) i = rmd_rho (rmd_rho i)" "(rmd_rho ^^ 3) i = rmd_rho (rmd_rho (rmd_rho i))"
  "(rmd_rho ^^ 4) i = rmd_rho (rmd_rho (rmd_rho (rmd_rho i)))"
  by (simp_all add: eval_nat_numeral)

lemmas rmd_eval = upt_16 same_calls_def rmd_call_def rmd_word_def rmd_shift_def rmd_const_def rmd_rho_def
  rmd_rho_powers Let_def rmd_op_def numeral_2_eq_2 [symmetric]

lemma rmd_rounds:
  "same_calls five (compress_round1 X) (map (rmd_call False X) [0..<16])"
  "same_calls five (compress_round2 X) (map (rmd_call False X) [16..<32])"
  "same_calls five (compress_round3 X) (map (rmd_call False X) [32..<48])"
  "same_calls five (compress_round4 X) (map (rmd_call False X) [48..<64])"
  "same_calls five (compress_round5 X) (map (rmd_call False X) [64..<80])"
  by (simp_all add: compress_round1_def compress_round2_def compress_round3_def compress_round4_def
      compress_round5_def rmd_c_ops rmd_eval)

lemma rmd_parallels:
  "same_calls five (compress_parallel1 X) (map (rmd_call True X) [0..<16])"
  "same_calls five (compress_parallel2 X) (map (rmd_call True X) [16..<32])"
  "same_calls five (compress_parallel3 X) (map (rmd_call True X) [32..<48])"
  "same_calls five (compress_parallel4 X) (map (rmd_call True X) [48..<64])"
  "same_calls five (compress_parallel5 X) (map (rmd_call True X) [64..<80])"
  by (simp_all add: compress_parallel1_def compress_parallel2_def compress_parallel3_def
      compress_parallel4_def compress_parallel5_def rmd_c_ops rmd_eval)

lemma upt_80: "[0..<80] = [0..<16] @ [16..<32] @ [32..<48] @ [48..<64] @ [64..<80]"
proof -
  have "[0..<80] = [0..<16] @ [16..<80]" "[16..<80] = [16..<32] @ [32..<80]"
    "[32..<80] = [32..<48] @ [48..<80]" "[48..<80] = [48..<64] @ [64..<80]"
    by (rule upt_join; simp)+
  then show ?thesis by (simp only:)
qed

lemma same_calls_80:
  assumes "same_calls five fs1 (map g [0..<16])" and "same_calls five fs2 (map g [16..<32])"
    and "same_calls five fs3 (map g [32..<48])" and "same_calls five fs4 (map g [48..<64])"
    and "same_calls five fs5 (map g [64..<80])" and "length r = 5"
  shows "run_calls (fs1 @ fs2 @ fs3 @ fs4 @ fs5) r = fold g [0..<80] r"
proof -
  have "same_calls five (fs1 @ fs2 @ fs3 @ fs4 @ fs5) (map g [0..<80])"
    unfolding upt_80 map_append by (intro same_calls_append assms)
  then show ?thesis using assms(6) by (simp add: same_calls_run [where P = five] run_calls_map)
qed

lemma run_both_split:
  "run_both cs (p, q) = (run_calls (concat (map (\<lambda>c. case c of Inl f \<Rightarrow> [f] | Inr f \<Rightarrow> []) cs)) p,
    run_calls (concat (map (\<lambda>c. case c of Inl f \<Rightarrow> [] | Inr f \<Rightarrow> [f]) cs)) q)"
  by (induction cs arbitrary: p q) (auto simp: run_both_def run_calls_def split: sum.splits)

lemma Transform_lines:
  "same_calls five (concat (map (\<lambda>c. case c of Inl f \<Rightarrow> [f] | Inr f \<Rightarrow> []) (Transform_1 X))) (map (rmd_call False X) [0..<16])"
  "same_calls five (concat (map (\<lambda>c. case c of Inl f \<Rightarrow> [] | Inr f \<Rightarrow> [f]) (Transform_1 X))) (map (rmd_call True X) [0..<16])"
  "same_calls five (concat (map (\<lambda>c. case c of Inl f \<Rightarrow> [f] | Inr f \<Rightarrow> []) (Transform_2 X))) (map (rmd_call False X) [16..<32])"
  "same_calls five (concat (map (\<lambda>c. case c of Inl f \<Rightarrow> [] | Inr f \<Rightarrow> [f]) (Transform_2 X))) (map (rmd_call True X) [16..<32])"
  "same_calls five (concat (map (\<lambda>c. case c of Inl f \<Rightarrow> [f] | Inr f \<Rightarrow> []) (Transform_3 X))) (map (rmd_call False X) [32..<48])"
  "same_calls five (concat (map (\<lambda>c. case c of Inl f \<Rightarrow> [] | Inr f \<Rightarrow> [f]) (Transform_3 X))) (map (rmd_call True X) [32..<48])"
  "same_calls five (concat (map (\<lambda>c. case c of Inl f \<Rightarrow> [f] | Inr f \<Rightarrow> []) (Transform_4 X))) (map (rmd_call False X) [48..<64])"
  "same_calls five (concat (map (\<lambda>c. case c of Inl f \<Rightarrow> [] | Inr f \<Rightarrow> [f]) (Transform_4 X))) (map (rmd_call True X) [48..<64])"
  "same_calls five (concat (map (\<lambda>c. case c of Inl f \<Rightarrow> [f] | Inr f \<Rightarrow> []) (Transform_5 X))) (map (rmd_call False X) [64..<80])"
  "same_calls five (concat (map (\<lambda>c. case c of Inl f \<Rightarrow> [] | Inr f \<Rightarrow> [f]) (Transform_5 X))) (map (rmd_call True X) [64..<80])"
  by (simp_all add: Transform_1_def Transform_2_def Transform_3_def Transform_4_def Transform_5_def rmd_cpp_ops rmd_eval)

lemma map_upt_5: "map g [0..<5] = [g 0, g 1, g 2, g 3, g 4]"
  by (simp add: upt_conv_Cons numeral_2_eq_2 [symmetric])

lemma rmd_compress_c_ref:
  assumes "length h = 5"
  shows "rmd_compress_c h (rmd_words blk) = rmd_compress h blk"
  unfolding rmd_compress_c_def rmd_compress_def
    same_calls_80 [OF rmd_rounds assms] same_calls_80 [OF rmd_parallels assms] rmd_line_calls [OF assms] map_upt_5
  by (simp add: Let_def ac_simps numeral_2_eq_2 [symmetric])

lemma rmd_Transform_ref:
  assumes "length h = 5"
  shows "rmd_Transform h blk = rmd_compress h blk"
proof -
  have w: "map (\<lambda>i. ReadLE32 (drop (4 * i) blk)) [0..<16] = rmd_words blk"
    by (simp add: ReadLE32_def rmd_words_def)
  show ?thesis
    unfolding rmd_Transform_def rmd_compress_def w run_both_split map_append concat_append Let_def prod.case
      same_calls_80 [OF Transform_lines(1,3,5,7,9) assms] same_calls_80 [OF Transform_lines(2,4,6,8,10) assms]
      rmd_line_calls [OF assms] map_upt_5
    by (simp add: ac_simps numeral_2_eq_2 [symmetric])
qed


end
