(* ===== verification/Ripemd160.thy ===== *)
theory Ripemd160
  imports Ripemd160_Compress
begin

text \<open>
  RIPEMD-160 of a whole message: the driver \<open>RIPEMD160_hash\<close> of
  \<^verbatim>\<open>src/src/crypto/cn/crypto/RIPEMD160_helper.cpp\<close> with \<open>MDfinish\<close> of \<^verbatim>\<open>RIPEMD160.c\<close>, and the
  streaming class \<open>CRIPEMD160\<close> of \<^verbatim>\<open>src/src/crypto/verushash/ripemd160.cpp\<close>. Both equal the
  reference \<open>rmd_hash\<close>: pad with the 64-bit length, fold the compression function, write the
  registers in little endian order.
\<close>

unbundle bit_operations_syntax

section \<open>\<open>MDfinish\<close> of \<open>cn/crypto/RIPEMD160.c\<close>\<close>

definition MDfinish :: "u32 list \<Rightarrow> u8 list \<Rightarrow> u32 \<Rightarrow> u32 \<Rightarrow> u32 list" where
  "MDfinish MDbuf strptr lswlen mswlen =
    (let X = replicate 16 0;
         X = fold (\<lambda>i X. X[i div 4 := X ! (i div 4) XOR push_bit (8 * (i mod 4)) (ucast (strptr ! i))])
               [0..<unat (lswlen AND 63)] X;
         i = unat (drop_bit 2 lswlen AND 15);
         X = X[i := X ! i XOR push_bit (8 * unat (lswlen AND 3) + 7) 1];
         (MDbuf, X) = (if 55 < lswlen AND 63 then (rmd_compress_c MDbuf X, replicate 16 0) else (MDbuf, X));
         X = X[14 := push_bit 3 lswlen];
         X = X[15 := drop_bit 29 lswlen OR push_bit 3 mswlen]
     in rmd_compress_c MDbuf X)"

section \<open>\<open>cn/crypto/RIPEMD160_helper.cpp\<close>\<close>

definition BYTES_TO_DWORD :: "u8 list \<Rightarrow> u32" where
  "BYTES_TO_DWORD p = push_bit 24 (ucast (p ! 3)) OR push_bit 16 (ucast (p ! 2)) OR
     push_bit 8 (ucast (p ! 1)) OR ucast (p ! 0)"

text \<open>The loop over \<open>nbytes\<close>; the pointer \<open>message\<close> is the list that is left.\<close>

function RIPEMD160_blocks :: "u32 list \<Rightarrow> u8 list \<Rightarrow> nat \<Rightarrow> u32 list \<times> u8 list" where
  "RIPEMD160_blocks MDbuf message nbytes =
    (if 63 < nbytes
     then RIPEMD160_blocks
       (rmd_compress_c MDbuf (map (\<lambda>i. BYTES_TO_DWORD (drop (4 * i) message)) [0..<16]))
       (drop 64 message) (nbytes - 64)
     else (MDbuf, message))"
  by pat_completeness auto
termination
  by (relation "measure (\<lambda>(b, m, n). n)") auto

declare RIPEMD160_blocks.simps [simp del]

definition RIPEMD160_hash :: "u8 list \<Rightarrow> u8 list" where
  "RIPEMD160_hash data =
    (let len = (of_nat (length data) :: u32);
         (MDbuf, message) = RIPEMD160_blocks MDinit data (unat len);
         MDbuf = MDfinish MDbuf message len 0
     in concat (map (\<lambda>w. [ucast w, ucast (drop_bit 8 w), ucast (drop_bit 16 w), ucast (drop_bit 24 w)]) MDbuf))"

definition RIPEMD160_hash_256 :: "u8 list \<Rightarrow> u8 list" where
  "RIPEMD160_hash_256 data = RIPEMD160_hash data @ replicate 12 0"

section \<open>The class of \<open>verushash/ripemd160.cpp\<close>\<close>

type_synonym CRIPEMD160 = "u32 list md_ctx"

definition CRIPEMD160_new :: "u8 list \<Rightarrow> CRIPEMD160" where
  "CRIPEMD160_new junk = \<lparr>md_s = rmd_Initialize, md_buf = junk, md_bytes = 0\<rparr>"

definition CRIPEMD160_Write :: "CRIPEMD160 \<Rightarrow> u8 list \<Rightarrow> CRIPEMD160" where
  "CRIPEMD160_Write c data = ctx_write rmd_Transform c data"

definition CRIPEMD160_Finalize :: "CRIPEMD160 \<Rightarrow> u8 list \<times> CRIPEMD160" where
  "CRIPEMD160_Finalize c =
    (let pad = 0x80 # replicate 63 0;
         sizedesc = le_store 8 (push_bit 3 (md_bytes c));
         c = CRIPEMD160_Write c (take (1 + unat ((119 - md_bytes c mod 64) mod 64)) pad);
         c = CRIPEMD160_Write c sizedesc
     in (le_store 4 (md_s c ! 0) @ le_store 4 (md_s c ! 1) @ le_store 4 (md_s c ! 2) @
         le_store 4 (md_s c ! 3) @ le_store 4 (md_s c ! 4), c))"

definition CRIPEMD160_Reset :: "CRIPEMD160 \<Rightarrow> CRIPEMD160" where
  "CRIPEMD160_Reset c = c\<lparr>md_bytes := 0, md_s := rmd_Initialize\<rparr>"

section \<open>The reference\<close>

definition rmd_hash :: "u8 list \<Rightarrow> u8 list" where
  "rmd_hash m = concat (map (le_store 4) (md_absorb 64 rmd_compress MDinit (md_pad (le_store 8) m)))"

section \<open>Padding in the C code\<close>

lemma length_rmd_words [simp]: "length (rmd_words blk) = 16"
  by (simp add: rmd_words_def)

lemma rmd_words_nth: "k < 16 \<Longrightarrow> rmd_words blk ! k = le_load (take 4 (drop (4 * k) blk))"
  by (simp add: rmd_words_def)

lemma bit_rmd_words:
  assumes "length blk = 64" and "k < 16" and "j < 32"
  shows "bit (rmd_words blk ! k) j \<longleftrightarrow> bit (blk ! (4 * k + j div 8)) (j mod 8)"
  using assms by (simp add: rmd_words_nth bit_le_load div_less_iff_less_mult)

text \<open>\<open>X[i >> 2] ^= b << (8 * (i & 3))\<close> is an exclusive or at byte \<open>i\<close> of the block.\<close>

lemma rmd_words_xor_byte:
  assumes "length blk = 64" and "i < 64"
  shows "(rmd_words blk)[i div 4 := rmd_words blk ! (i div 4) XOR push_bit (8 * (i mod 4)) (ucast b)] =
    rmd_words (blk[i := blk ! i XOR b])"
proof (rule nth_equalityI)
  fix k assume "k < length ((rmd_words blk)[i div 4 := rmd_words blk ! (i div 4) XOR push_bit (8 * (i mod 4)) (ucast b)])"
  then have k: "k < 16" by simp
  show "(rmd_words blk)[i div 4 := rmd_words blk ! (i div 4) XOR push_bit (8 * (i mod 4)) (ucast b)] ! k =
      rmd_words (blk[i := blk ! i XOR b]) ! k"
  proof (rule bit_word_eqI)
    fix j assume "j < LENGTH(32)"
    then have j: "j < 32" by simp
    have "j div 8 < 4" using j by simp
    moreover have "i = 4 * k + t \<longleftrightarrow> k = i div 4 \<and> t = i mod 4" if "t < 4" for t using that by presburger
    ultimately have byte: "i = 4 * k + j div 8 \<longleftrightarrow> k = i div 4 \<and> j div 8 = i mod 4" by blast
    have shift: "8 * (i mod 4) \<le> j \<and> bit b (j - 8 * (i mod 4)) \<longleftrightarrow> j div 8 = i mod 4 \<and> bit b (j mod 8)"
    proof (cases "j div 8 = i mod 4")
      case True
      then have "8 * (i mod 4) \<le> j" "j - 8 * (i mod 4) = j mod 8"
        by (metis div_mult_mod_eq mult.commute le_add1, metis True minus_mult_div_eq_mod)
      then show ?thesis using True by simp
    next
      case False
      have "\<not> bit b (j - 8 * (i mod 4))" if "8 * (i mod 4) \<le> j"
      proof -
        have "8 \<le> j - 8 * q" if "8 * q \<le> j" "j div 8 \<noteq> q" for q using that by linarith
        then have "8 \<le> j - 8 * (i mod 4)" using that False by blast
        then show ?thesis using bit_imp_le_length [of b "j - 8 * (i mod 4)"] by auto
      qed
      then show ?thesis using False by blast
    qed
    show "bit ((rmd_words blk)[i div 4 := rmd_words blk ! (i div 4) XOR push_bit (8 * (i mod 4)) (ucast b)] ! k) j =
        bit (rmd_words (blk[i := blk ! i XOR b]) ! k) j"
      using assms k j byte shift
      by (cases "k = i div 4")
        (auto simp: bit_rmd_words bit_xor_iff bit_push_bit_iff bit_ucast_iff nth_list_update)
  qed
qed simp

lemma MDfinish_bytes:
  assumes "n \<le> length t" and "n < 64"
  shows "fold (\<lambda>i X. X[i div 4 := X ! (i div 4) XOR push_bit (8 * (i mod 4)) (ucast (t ! i))]) [0..<n]
      (replicate 16 0) = rmd_words (take n t @ replicate (64 - n) 0)"
  using assms
proof (induction n)
  case 0
  have "le_load (replicate 4 (0 :: u8)) = (0 :: u32)"
    using le_load_append_zeros [of "[]" 4] by simp
  then show ?case by (intro nth_equalityI) (simp_all add: rmd_words_nth)
next
  case (Suc n)
  let ?b = "take n t @ replicate (64 - n) (0 :: u8)"
  have "?b[n := ?b ! n XOR t ! n] = take (Suc n) t @ replicate (64 - Suc n) 0"
    using Suc.prems by (intro nth_equalityI) (auto simp: nth_append nth_list_update less_Suc_eq)
  then show ?case
    using Suc rmd_words_xor_byte [of ?b n "t ! n"] by simp
qed

text \<open>The two words of the length.\<close>

lemma rmd_words_length:
  assumes "length p = 56" and "n < 2 ^ 32"
  shows "(rmd_words (p @ q))[14 := push_bit 3 (of_nat n), 15 := drop_bit 29 (of_nat n) OR push_bit 3 0] =
    rmd_words (p @ le_store 8 (8 * of_nat n :: u64))"
proof -
  have len: "8 * of_nat n = (push_bit 3 (of_nat n) :: u64)" by (simp add: push_bit_eq_mult)
  have high: "\<not> bit n j" if "32 \<le> j" for j
  proof -
    have "n < 2 ^ j" using assms(2) that by (meson less_le_trans one_le_numeral power_increasing)
    then show ?thesis by (simp add: bit_iff_odd)
  qed
  have high': "j < 3" if "bit n (29 + j)" for j using high [of "29 + j"] that by (cases "j < 3") auto
  have s: "le_store 8 w = le_store 4 w @ le_store 4 (drop_bit 32 (w :: u64))" for w
    by (simp add: eval_nat_numeral)
  have lo: "le_load (le_store 4 (8 * of_nat n :: u64)) = (push_bit 3 (of_nat n) :: u32)"
    unfolding len
    by (rule bit_word_eqI) (auto simp: bit_le_load bit_le_store_nth div_less_iff_less_mult bit_push_bit_iff bit_of_nat_iff)
  have hi: "le_load (le_store 4 (drop_bit 32 (8 * of_nat n :: u64))) = (drop_bit 29 (of_nat n) :: u32)"
    unfolding len
    by (intro bit_word_eqI)
      (auto simp: bit_le_load bit_le_store_nth div_less_iff_less_mult bit_push_bit_iff bit_of_nat_iff bit_drop_bit_eq
        not_less dest: high')
  have split: "rmd_words (p @ u) = map (\<lambda>k. le_load (take 4 (drop (4 * k) p))) [0..<14] @
      [le_load (take 4 u), le_load (take 4 (drop 4 u))]" for u
  proof (rule nth_equalityI)
    fix i assume "i < length (rmd_words (p @ u))"
    then consider "i < 14" | "i = 14" | "i = 15" by force
    then show "rmd_words (p @ u) ! i = (map (\<lambda>k. le_load (take 4 (drop (4 * k) p))) [0..<14] @
        [le_load (take 4 u), le_load (take 4 (drop 4 u))]) ! i"
      using assms(1) by cases (simp_all add: rmd_words_nth nth_append)
  qed simp
  show ?thesis unfolding split by (simp add: list_update_append s lo hi)
qed

text \<open>The last one or two blocks.\<close>

lemma length_rmd_compress [simp]: "length (rmd_compress h blk) = 5"
  by (simp add: rmd_compress_def Let_def)

lemma unat_and_mask_mod: "unat (w AND mask k) = unat w mod 2 ^ k" for w :: "'a::len word"
  by (simp only: take_bit_eq_mask [symmetric] unsigned_take_bit_eq) (simp only: take_bit_eq_mod)

lemma unat_and_low:
  "unat ((w :: u32) AND 3) = unat w mod 4" "unat (w AND 15) = unat w mod 16" "unat (w AND 63) = unat w mod 64"
  using unat_and_mask_mod [of w 2] unat_and_mask_mod [of w 4] unat_and_mask_mod [of w 6]
  by (simp_all add: mask_eq_exp_minus_1)

text \<open>What the buffer holds after the message bytes and the \<open>0x80\<close> marker.\<close>

lemma MDfinish_marker:
  assumes "length t = r" and "r < 64"
  shows "(rmd_words (t @ replicate (64 - r) 0))
      [r div 4 := rmd_words (t @ replicate (64 - r) 0) ! (r div 4) XOR push_bit (8 * (r mod 4) + 7) 1] =
    rmd_words (t @ 0x80 # replicate (63 - r) 0)"
proof -
  let ?b = "t @ replicate (64 - r) (0 :: u8)"
  have "push_bit (8 * (r mod 4) + 7) 1 = (push_bit (8 * (r mod 4)) (push_bit 7 1) :: u32)"
    by (simp only: push_bit_push_bit)
  also have "push_bit 7 1 = (ucast (0x80 :: u8) :: u32)" by (simp add: push_bit_eq_mult)
  finally have "push_bit (8 * (r mod 4) + 7) 1 = (push_bit (8 * (r mod 4)) (ucast (0x80 :: u8)) :: u32)" .
  moreover have "?b[r := ?b ! r XOR 0x80] = t @ 0x80 # replicate (63 - r) 0"
    using assms by (auto simp: list_update_append nth_append Suc_diff_le[symmetric] replicate_Suc[symmetric]
        intro!: nth_equalityI simp: nth_list_update nth_Cons' nth_append)
  ultimately show ?thesis using rmd_words_xor_byte [of ?b r "0x80"] assms by simp
qed

lemma MDfinish_pad:
  assumes "length h = 5" and "n < 2 ^ 32" and "length t = n mod 64"
  shows "MDfinish h t (of_nat n) 0 =
    md_absorb 64 rmd_compress h (t @ 0x80 # replicate ((119 - n mod 64) mod 64) 0 @ le_store 8 (8 * of_nat n :: u64))"
proof -
  let ?r = "n mod 64" and ?len = "le_store 8 (8 * of_nat n :: u64)"
  let ?m = "t @ 0x80 # replicate (63 - ?r) 0"
  have un: "unat (of_nat n :: u32) = n" using assms(2) by (simp add: unat_of_nat)
  have "?r = 4 * (n div 4 mod 16) + n mod 4" using mod_mult2_eq [of n 4 16] by simp
  then have idx: "n div 4 mod 16 = ?r div 4" "n mod 4 = ?r mod 4" by simp_all
  have X: "fold (\<lambda>i X. X[i div 4 := X ! (i div 4) XOR push_bit (8 * (i mod 4)) (ucast (t ! i))])
      [0..<unat ((of_nat n :: u32) AND 63)] (replicate 16 0) = rmd_words (t @ replicate (64 - ?r) 0)"
    using MDfinish_bytes [of ?r t] assms(3) by (simp add: unat_and_low un)
  have i: "unat (drop_bit 2 (of_nat n :: u32) AND 15) = ?r div 4" "unat ((of_nat n :: u32) AND 3) = ?r mod 4"
    unfolding unat_and_low unat_drop_bit_eq un using idx by (simp_all add: drop_bit_eq_div)
  have big: "55 < (of_nat n :: u32) AND 63 \<longleftrightarrow> 55 < ?r"
    by (simp add: word_less_nat_alt unat_and_low un)
  have fin: "MDfinish h t (of_nat n) 0 =
      (let (h, X) = (if 55 < ?r then (rmd_compress_c h (rmd_words ?m), replicate 16 0) else (h, rmd_words ?m))
       in rmd_compress_c h (X[14 := push_bit 3 (of_nat n), 15 := drop_bit 29 (of_nat n) OR push_bit 3 0]))"
    using MDfinish_marker [OF assms(3)] unfolding MDfinish_def Let_def X i big by simp
  show ?thesis
  proof (cases "55 < ?r")
    case True
    then have z: "(119 - ?r) mod 64 = (63 - ?r) + 56" by simp
    have zeros: "replicate 16 (0 :: u32) = rmd_words (replicate 56 0 @ replicate 8 0)"
      using MDfinish_bytes [of 0 "[]"] by (simp flip: replicate_add)
    have "MDfinish h t (of_nat n) 0 = rmd_compress (rmd_compress h ?m) (replicate 56 0 @ ?len)"
      using True rmd_words_length [of "replicate 56 0" n] assms(1,2)
      unfolding fin zeros by (simp add: rmd_compress_c_ref)
    moreover have "md_absorb 64 rmd_compress h (?m @ replicate 56 0 @ ?len) =
        rmd_compress (rmd_compress h ?m) (replicate 56 0 @ ?len)"
      using md_absorb_block [of 64 ?m rmd_compress h] assms(3)
        md_absorb_block [of 64 "replicate 56 0 @ ?len" rmd_compress "rmd_compress h ?m" "[]"]
      by (simp add: md_absorb_short)
    ultimately show ?thesis unfolding z replicate_add by simp
  next
    case False
    let ?p = "t @ 0x80 # replicate (55 - ?r) 0"
    have z: "(119 - ?r) mod 64 = 55 - ?r" using False by (simp add: le_mod_geq)
    have m: "?m = ?p @ replicate 8 0" using False by (simp flip: replicate_add)
    have p: "length ?p = 56" using False assms(3) by simp
    have "MDfinish h t (of_nat n) 0 = rmd_compress h (?p @ ?len)"
      using False rmd_words_length [OF p assms(2), of "replicate 8 0"] assms(1)
      unfolding fin m by (simp add: rmd_compress_c_ref)
    then show ?thesis
      using md_absorb_block [of 64 "?p @ ?len" rmd_compress h "[]"] p
      unfolding z by (simp add: md_absorb_short)
  qed
qed

section \<open>The drivers\<close>

lemma BYTES_TO_DWORD_load: "4 \<le> length p \<Longrightarrow> BYTES_TO_DWORD p = le_load (take 4 p)"
proof -
  assume "4 \<le> length p"
  then obtain a b c d q where "p = a # b # c # d # q"
    by (auto simp: eval_nat_numeral Suc_le_length_iff)
  then show ?thesis
    by (simp add: BYTES_TO_DWORD_def push_bit_or ac_simps numeral_2_eq_2 numeral_3_eq_3)
qed

lemma RIPEMD160_blocks_absorb:
  assumes "length h = 5"
  shows "RIPEMD160_blocks h m (length m) = (md_absorb 64 rmd_compress h m, md_tail 64 m)"
  using assms
proof (induction "length m" arbitrary: h m rule: less_induct)
  case less
  show ?case
  proof (cases "63 < length m")
    case True
    have "map (\<lambda>i. BYTES_TO_DWORD (drop (4 * i) m)) [0..<16] = rmd_words (take 64 m)"
      using True by (intro nth_equalityI) (simp_all add: BYTES_TO_DWORD_load rmd_words_nth take_drop[symmetric] drop_take)
    then have "RIPEMD160_blocks h m (length m) =
        RIPEMD160_blocks (rmd_compress h (take 64 m)) (drop 64 m) (length (drop 64 m))"
      using True less(2) by (subst RIPEMD160_blocks.simps) (simp add: rmd_compress_c_ref)
    also have "\<dots> = (md_absorb 64 rmd_compress (rmd_compress h (take 64 m)) (drop 64 m), md_tail 64 (drop 64 m))"
      using True by (intro less(1)) simp_all
    finally show ?thesis
      using True md_tail_drop [of 64 m] by (simp add: md_absorb.simps [of 64 rmd_compress h m])
  next
    case False
    then show ?thesis by (simp add: RIPEMD160_blocks.simps md_absorb_short md_tail_short)
  qed
qed

lemma le_store_4:
  "le_store 4 = (\<lambda>w :: u32. [ucast w, ucast (drop_bit 8 w), ucast (drop_bit 16 w), ucast (drop_bit 24 w)])"
  by (simp add: fun_eq_iff eval_nat_numeral)

lemma length_MDinit [simp]: "length MDinit = 5"
  by (simp add: MDinit_def)

lemma rmd_absorb_length: "length h = 5 \<Longrightarrow> length (md_absorb 64 rmd_compress h m) = 5"
  using md_absorb_cong [where P = "\<lambda>s. length s = 5" and f = rmd_compress and g = rmd_compress] by simp

text \<open>C37: the C driver computes RIPEMD-160 of every message shorter than 4 GiB: block loop,
  padding across one or two blocks and length words included.\<close>

theorem RIPEMD160_hash_ref:
  assumes "length data < 2 ^ 32"
  shows "RIPEMD160_hash data = rmd_hash data"
proof -
  let ?h = "md_absorb 64 rmd_compress MDinit data" and ?t = "md_tail 64 data"
  let ?q = "0x80 # replicate ((119 - length data mod 64) mod 64) 0 @ le_store 8 (8 * of_nat (length data) :: u64)"
  have "MDfinish ?h ?t (of_nat (length data)) 0 = md_absorb 64 rmd_compress ?h (?t @ ?q)"
    by (rule MDfinish_pad) (simp_all add: assms [simplified] rmd_absorb_length)
  also have "\<dots> = md_absorb 64 rmd_compress MDinit (md_pad (le_store 8) data)"
    using md_absorb_append [of 64 rmd_compress MDinit data ?q] by (simp add: md_pad_def)
  finally show ?thesis
    using assms RIPEMD160_blocks_absorb [of MDinit data]
    by (simp add: RIPEMD160_hash_def rmd_hash_def unat_of_nat le_store_4)
qed

theorem RIPEMD160_hash_ref_witness: "RIPEMD160_hash [0x61, 0x62, 0x63] = rmd_hash [0x61, 0x62, 0x63]"
  by (rule RIPEMD160_hash_ref) simp

text \<open>The class is a streaming context for the reference.\<close>

lemma rmd_Transform_absorb:
  "length h = 5 \<Longrightarrow> md_absorb 64 rmd_Transform h m = md_absorb 64 rmd_compress h m"
  using md_absorb_cong [where P = "\<lambda>s. length s = 5" and f = rmd_Transform and g = rmd_compress]
  by (simp add: rmd_Transform_ref)

interpretation rmd_ctx: md_stream 64 rmd_compress rmd_Initialize "ctx_fresh rmd_Initialize" CRIPEMD160_Write md_s
  "ctx_rep rmd_Transform rmd_Initialize"
proof
  fix c m d
  show "ctx_rep rmd_Transform rmd_Initialize c m \<Longrightarrow>
      ctx_rep rmd_Transform rmd_Initialize (CRIPEMD160_Write c d) (m @ d)"
    unfolding CRIPEMD160_Write_def by (rule ctx_write_rep)
  show "ctx_rep rmd_Transform rmd_Initialize c m \<Longrightarrow> md_s c = md_absorb 64 rmd_compress rmd_Initialize m"
    by (drule ctx_chain_rep) (simp add: rmd_Transform_absorb rmd_Initialize_def)
qed (rule ctx_fresh_rep)

text \<open>C38: the streaming class gives the same digest however the message is cut into \<open>Write\<close>
  calls, from a new object or one that was \<open>Reset\<close>, whatever its buffer held: the
  RIPEMD-160 of the concatenation.\<close>

theorem CRIPEMD160_stream:
  assumes "length (md_buf c) = 64"
  shows "fst (CRIPEMD160_Finalize (foldl CRIPEMD160_Write (CRIPEMD160_Reset c) ds)) = rmd_hash (concat ds)"
proof -
  let ?m = "concat ds" and ?c = "foldl CRIPEMD160_Write (CRIPEMD160_Reset c) ds"
  have "ctx_fresh rmd_Initialize (CRIPEMD160_Reset c)"
    using assms by (simp add: ctx_fresh_def CRIPEMD160_Reset_def)
  then have rep: "ctx_rep rmd_Transform rmd_Initialize ?c ?m" by (rule rmd_ctx.pieces_rep)
  then have n: "md_bytes ?c = of_nat (length ?m)" by (simp add: ctx_rep_def)
  let ?p = "0x80 # replicate ((119 - length ?m mod 64) mod 64) (0 :: u8)"
  let ?q = "le_store 8 (8 * of_nat (length ?m) :: u64)"
  let ?s = "md_s (CRIPEMD160_Write (CRIPEMD160_Write ?c ?p) ?q)"
  have s: "?s = md_absorb 64 rmd_compress MDinit (md_pad (le_store 8) ?m)"
    using rmd_ctx.finish_chain [OF rep, of ?p ?q] by (simp add: md_pad_def rmd_Initialize_def MDinit_def)
  then obtain a b c d e where "?s = [a, b, c, d, e]"
    using rmd_absorb_length [of MDinit] by (metis length_5E length_MDinit)
  moreover have "push_bit 3 (of_nat (length ?m) :: u64) = 8 * of_nat (length ?m)"
    by (simp add: push_bit_eq_mult)
  ultimately show ?thesis
    unfolding CRIPEMD160_Finalize_def n unat_pad_count rmd_hash_def s [symmetric] Let_def fst_conv
    by (simp add: pad_bytes)
qed

theorem CRIPEMD160_stream_witness:
  "fst (CRIPEMD160_Finalize (foldl CRIPEMD160_Write (CRIPEMD160_Reset (CRIPEMD160_new (replicate 64 3))) [[1], [], [2, 3]])) =
    rmd_hash (concat [[1], [], [2, 3]])"
  by (rule CRIPEMD160_stream) (simp add: CRIPEMD160_new_def)

end
