(* ===== verification/Sph_Md.thy ===== *)
theory Sph_Md
  imports Md_Stream
begin

text \<open>
  \<^verbatim>\<open>src/src/crypto/x25x/sph/md_helper.c\<close>, the streaming engine that the SHA-2, HAVAL, Tiger and Whirlpool
  drivers include after setting its macros. The macros are a record, so that one model covers
  every instance: the byte order and word size, the width of the length field, the marker bit,
  a block size of its own, and whether the platform defines \<open>SPH_UPTR\<close> and \<open>SPH_UNALIGNED\<close>. The
  platform has 64-bit integers (\<open>SPH_64\<close>). The theorems relate every entry point to the padding
  and iteration of \<open>Md_Stream\<close>, for every way to cut the message into calls and every address.
\<close>

unbundle bit_operations_syntax

section \<open>The macros\<close>

datatype md_mode = BE32 | LE32 | BE64 | LE64

datatype md_plw = PLW1 | PLW2 | PLW4

record md_cfg =
  cfg_mode :: md_mode
  cfg_plw :: md_plw
  cfg_BLEN :: "nat option"
  cfg_PW01 :: bool
  cfg_UPTR :: bool
  cfg_UNALIGNED :: bool

definition SPH_WLEN :: "md_cfg \<Rightarrow> nat" where
  "SPH_WLEN g = (if cfg_mode g = BE64 \<or> cfg_mode g = LE64 then 8 else 4)"

definition SPH_BLEN :: "md_cfg \<Rightarrow> nat" where
  "SPH_BLEN g = (case cfg_BLEN g of Some n \<Rightarrow> n
     | None \<Rightarrow> if cfg_mode g = BE64 \<or> cfg_mode g = LE64 then 128 else 64)"

definition SPH_MAXPAD :: "md_cfg \<Rightarrow> nat" where
  "SPH_MAXPAD g = (case cfg_plw g of PLW1 \<Rightarrow> SPH_BLEN g - SPH_WLEN g
     | PLW4 \<Rightarrow> SPH_BLEN g - 4 * SPH_WLEN g | PLW2 \<Rightarrow> SPH_BLEN g - 2 * SPH_WLEN g)"

section \<open>Feeding data\<close>

text \<open>
  A context has the fields \<open>val\<close>, \<open>buf\<close> and \<open>count\<close>, here those of \<open>md_ctx\<close>. The parameter \<open>RFUN\<close> is
  the compression function of the driver.
\<close>

definition sph_current :: "md_cfg \<Rightarrow> 's md_ctx \<Rightarrow> nat" where
  "sph_current g sc = unat ((ucast (md_bytes sc) :: u32) AND (of_nat (SPH_BLEN g) - 1))"

definition sph_short_step :: "md_cfg \<Rightarrow> ('s \<Rightarrow> u8 list \<Rightarrow> 's) \<Rightarrow> nat \<Rightarrow> u8 list \<Rightarrow> 's md_ctx \<Rightarrow> nat \<times> 's md_ctx" where
  "sph_short_step g RFUN current piece sc =
    (let sc = sc\<lparr>md_buf := memcpy_at (md_buf sc) current piece\<rparr>;
         current = current + length piece;
         (current, sc) = (if current = SPH_BLEN g then (0, sc\<lparr>md_s := RFUN (md_s sc) (md_buf sc)\<rparr>) else (current, sc))
     in (current, sc\<lparr>md_bytes := md_bytes sc + of_nat (length piece)\<rparr>))"

text \<open>
  \<open>while (len > 0)\<close>. The guard \<open>current < SPH_BLEN\<close>, which the mask guarantees, makes each turn
  consume a byte.
\<close>

function sph_short_loop :: "md_cfg \<Rightarrow> ('s \<Rightarrow> u8 list \<Rightarrow> 's) \<Rightarrow> nat \<Rightarrow> u8 list \<Rightarrow> 's md_ctx \<Rightarrow> 's md_ctx" where
  "sph_short_loop g RFUN current data sc =
    (if data \<noteq> [] \<and> current < SPH_BLEN g
     then let clen = min (SPH_BLEN g - current) (length data);
              (current', sc') = sph_short_step g RFUN current (take clen data) sc
          in sph_short_loop g RFUN current' (drop clen data) sc'
     else sc)"
  by pat_completeness auto
termination
  by (relation "measure (\<lambda>(g, f, k, d, c). length d)") auto

declare sph_short_loop.simps [simp del]

definition sph_short :: "md_cfg \<Rightarrow> ('s \<Rightarrow> u8 list \<Rightarrow> 's) \<Rightarrow> 's md_ctx \<Rightarrow> u8 list \<Rightarrow> 's md_ctx" where
  "sph_short g RFUN sc data = sph_short_loop g RFUN (sph_current g sc) data sc"

text \<open>\<open>while (len >= SPH_BLEN)\<close>: straight from the data.\<close>

function sph_blocks :: "nat \<Rightarrow> ('s \<Rightarrow> u8 list \<Rightarrow> 's) \<Rightarrow> 's \<Rightarrow> u8 list \<Rightarrow> 's \<times> u8 list" where
  "sph_blocks B RFUN val data =
    (if 0 < B \<and> B \<le> length data then sph_blocks B RFUN (RFUN val (take B data)) (drop B data) else (val, data))"
  by pat_completeness auto
termination
  by (relation "measure (\<lambda>(B, f, v, d). length d)") auto

declare sph_blocks.simps [simp del]

text \<open>\<open>addr\<close> is the address of the data.\<close>

definition sph_update :: "md_cfg \<Rightarrow> ('s \<Rightarrow> u8 list \<Rightarrow> 's) \<Rightarrow> nat \<Rightarrow> 's md_ctx \<Rightarrow> u8 list \<Rightarrow> 's md_ctx" where
  "sph_update g RFUN addr sc data =
    (if \<not> cfg_UPTR g \<or> length data < 2 * SPH_BLEN g then sph_short g RFUN sc data
     else let current = sph_current g sc;
              t = (if 0 < current then SPH_BLEN g - current else 0);
              sc = (if 0 < current then sph_short g RFUN sc (take t data) else sc);
              data = drop t data
          in if \<not> cfg_UNALIGNED g \<and> (addr + t) mod SPH_WLEN g \<noteq> 0 then sph_short g RFUN sc data
             else let orig_len = length data;
                      (val, rest) = sph_blocks (SPH_BLEN g) RFUN (md_s sc) data;
                      sc = sc\<lparr>md_s := val\<rparr>;
                      sc = (if 0 < length rest then sc\<lparr>md_buf := memcpy_at (md_buf sc) 0 rest\<rparr> else sc)
                  in sc\<lparr>md_bytes := md_bytes sc + of_nat orig_len\<rparr>)"

section \<open>Closing\<close>

text \<open>The marker: \<open>ub\<close> carries \<open>n\<close> more bits of the message, from its top bit down.\<close>

definition sph_marker :: "md_cfg \<Rightarrow> u32 \<Rightarrow> nat \<Rightarrow> u8" where
  "sph_marker g ub n =
    (if cfg_PW01 g then ucast (drop_bit (8 - n) (0x100 OR (ub AND 0xFF)))
     else let z = drop_bit n (0x80 :: u32) in ucast (((ub AND - z) OR z) AND 0xFF))"

text \<open>
  What is written at \<open>buf + SPH_MAXPAD\<close>. In the \<open>LE64\<close> part the source tests \<open>PLW1\<close> twice, so its
  branch for a field of four words is never compiled and \<open>PLW4\<close> takes the default.
\<close>

definition sph_length_field :: "md_cfg \<Rightarrow> u64 \<Rightarrow> nat \<Rightarrow> u8 list" where
  "sph_length_field g count n =
    (let lo = push_bit 3 count + of_nat n; hi = drop_bit 61 count
     in case cfg_mode g of
          BE64 \<Rightarrow> (case cfg_plw g of PLW1 \<Rightarrow> be_store 8 lo
                   | PLW4 \<Rightarrow> replicate (2 * SPH_WLEN g) 0 @ be_store 8 hi @ be_store 8 lo
                   | PLW2 \<Rightarrow> be_store 8 hi @ be_store 8 lo)
        | LE64 \<Rightarrow> (if cfg_plw g = PLW1 then le_store 8 lo else le_store 8 lo @ le_store 8 hi)
        | BE32 \<Rightarrow> be_store 8 lo
        | LE32 \<Rightarrow> le_store 8 lo)"

definition sph_pad :: "md_cfg \<Rightarrow> ('s \<Rightarrow> u8 list \<Rightarrow> 's) \<Rightarrow> u32 \<Rightarrow> nat \<Rightarrow> 's md_ctx \<Rightarrow> 's md_ctx" where
  "sph_pad g RFUN ub n sc =
    (let current = sph_current g sc;
         sc = sc\<lparr>md_buf := memcpy_at (md_buf sc) current [sph_marker g ub n]\<rparr>;
         current = current + 1
     in if SPH_MAXPAD g < current
        then let sc = sc\<lparr>md_buf := memcpy_at (md_buf sc) current (replicate (SPH_BLEN g - current) 0)\<rparr>;
                 sc = sc\<lparr>md_s := RFUN (md_s sc) (md_buf sc)\<rparr>
             in sc\<lparr>md_buf := memcpy_at (md_buf sc) 0 (replicate (SPH_MAXPAD g) 0)\<rparr>
        else sc\<lparr>md_buf := memcpy_at (md_buf sc) current (replicate (SPH_MAXPAD g - current) 0)\<rparr>)"

definition sph_out :: "md_cfg \<Rightarrow> 'a::len word \<Rightarrow> u8 list" where
  "sph_out g w = (case cfg_mode g of BE64 \<Rightarrow> be_store 8 w | LE64 \<Rightarrow> le_store 8 w | BE32 \<Rightarrow> be_store 4 w | LE32 \<Rightarrow> le_store 4 w)"

definition sph_last_block :: "md_cfg \<Rightarrow> ('s \<Rightarrow> u8 list \<Rightarrow> 's) \<Rightarrow> u32 \<Rightarrow> nat \<Rightarrow> 's md_ctx \<Rightarrow> 's md_ctx" where
  "sph_last_block g RFUN ub n sc =
    (let sc = sph_pad g RFUN ub n sc;
         sc = sc\<lparr>md_buf := memcpy_at (md_buf sc) (SPH_MAXPAD g) (sph_length_field g (md_bytes sc) n)\<rparr>
     in sc\<lparr>md_s := RFUN (md_s sc) (md_buf sc)\<rparr>)"

definition sph_addbits_and_close ::
  "md_cfg \<Rightarrow> ('a::len word list \<Rightarrow> u8 list \<Rightarrow> 'a word list) \<Rightarrow> u32 \<Rightarrow> nat \<Rightarrow> nat \<Rightarrow> 'a word list md_ctx \<Rightarrow>
   u8 list \<times> 'a word list md_ctx" where
  "sph_addbits_and_close g RFUN ub n rnum sc =
    (let sc = sph_last_block g RFUN ub n sc
     in (concat (map (\<lambda>u. sph_out g (md_s sc ! u)) [0..<rnum]), sc))"

definition sph_close ::
  "md_cfg \<Rightarrow> ('a::len word list \<Rightarrow> u8 list \<Rightarrow> 'a word list) \<Rightarrow> nat \<Rightarrow> 'a word list md_ctx \<Rightarrow>
   u8 list \<times> 'a word list md_ctx" where
  "sph_close g RFUN rnum sc = sph_addbits_and_close g RFUN 0 0 rnum sc"

section \<open>What a context stands for\<close>

definition sph_rep :: "nat \<Rightarrow> ('s \<Rightarrow> u8 list \<Rightarrow> 's) \<Rightarrow> 's \<Rightarrow> 's md_ctx \<Rightarrow> u8 list \<Rightarrow> bool" where
  "sph_rep B f iv c m \<longleftrightarrow> length (md_buf c) = B \<and> md_bytes c = of_nat (length m) \<and>
     md_s c = md_absorb B f iv m \<and> take (length m mod B) (md_buf c) = md_tail B m"

text \<open>The instances in use: a block size that the mask can express, and a length field that fits.\<close>

definition md_wf :: "md_cfg \<Rightarrow> bool" where
  "md_wf g \<longleftrightarrow> SPH_BLEN g \<in> {2 ^ 5, 2 ^ 6, 2 ^ 7} \<and> 0 < SPH_MAXPAD g \<and>
     SPH_MAXPAD g + length (sph_length_field g 0 0) = SPH_BLEN g"

lemma md_wf_pos: "md_wf g \<Longrightarrow> 0 < SPH_BLEN g"
  by (auto simp: md_wf_def)

lemma sph_current_rep:
  assumes "md_wf g" and "sph_rep (SPH_BLEN g) f iv c m"
  shows "sph_current g c = length m mod SPH_BLEN g"
proof -
  have m: "unat (w AND (2 ^ k - 1)) = unat w mod 2 ^ k" for w :: u32 and k
    by (simp only: mask_eq_exp_minus_1 [symmetric] take_bit_eq_mask [symmetric] unsigned_take_bit_eq) (simp only: take_bit_eq_mod)
  have u: "unat (ucast (of_nat n :: u64) :: u32) = n mod 2 ^ 32" for n
    by (simp add: unsigned_ucast_eq unat_of_nat take_bit_eq_mod mod_mod_cancel)
  obtain k where k: "k \<in> {5, 6, 7}" "SPH_BLEN g = 2 ^ k" using assms(1) unfolding md_wf_def by blast
  then have "(2 :: nat) ^ k dvd 2 ^ 32" by (auto intro: le_imp_power_dvd)
  moreover have "of_nat (SPH_BLEN g) = (2 ^ k :: u32)" using k(2) by simp
  ultimately show ?thesis
    using assms(2) k(2) m [of "ucast (md_bytes c)" k] u [of "length m"]
    by (simp only: sph_current_def sph_rep_def mod_mod_cancel)
qed


text \<open>One turn of the loop: a piece that does not pass the end of the block.\<close>

lemma sph_step_rep:
  assumes "sph_rep (SPH_BLEN g) f iv c m" and "0 < SPH_BLEN g" and "length m mod SPH_BLEN g + length p \<le> SPH_BLEN g"
    and "sph_short_step g f (length m mod SPH_BLEN g) p c = (k, c')"
  shows "sph_rep (SPH_BLEN g) f iv c' (m @ p) \<and> k = length (m @ p) mod SPH_BLEN g"
proof -
  let ?B = "SPH_BLEN g" and ?r = "length m mod SPH_BLEN g"
  let ?buf = "memcpy_at (md_buf c) ?r p"
  have t: "take (?r + length p) ?buf = md_tail ?B m @ p" "length ?buf = ?B"
    using assms(1,3) by (simp_all add: sph_rep_def memcpy_at_def)
  note app = md_absorb_append [OF assms(2), of f iv m p]
  show ?thesis
  proof (cases "?r + length p = ?B")
    case True
    then have "length (m @ p) mod ?B = 0" by (metis length_append mod_add_left_eq mod_self)
    moreover have "md_absorb ?B f (md_s c) (md_tail ?B m @ p) = f (md_s c) ?buf"
      using md_absorb_block [OF assms(2), of "md_tail ?B m @ p" f "md_s c" "[]"] True t assms(2)
      by (simp add: md_absorb_short)
    ultimately show ?thesis
      using assms(1,4) app t True md_tail_Nil [of "m @ p" ?B] by (auto simp: sph_rep_def sph_short_step_def Let_def)
  next
    case False
    then have small: "?r + length p < ?B" using assms(3) by simp
    then have "length (m @ p) mod ?B = ?r + length p" by (metis length_append mod_add_left_eq mod_less)
    then show ?thesis
      using assms(1,4) app t small by (auto simp: sph_rep_def sph_short_step_def Let_def md_absorb_short md_tail_short)
  qed
qed

lemma sph_short_loop_rep:
  assumes "sph_rep (SPH_BLEN g) f iv c m" and "0 < SPH_BLEN g" and "k = length m mod SPH_BLEN g"
  shows "sph_rep (SPH_BLEN g) f iv (sph_short_loop g f k d c) (m @ d)"
  using assms
proof (induction g f k d c arbitrary: m rule: sph_short_loop.induct)
  case (1 g f k d c)
  let ?n = "min (SPH_BLEN g - k) (length d)"
  show ?case
  proof (cases "d = []")
    case True
    then show ?thesis using 1(2) by (simp add: sph_short_loop.simps)
  next
    case False
    obtain k' c' where s: "sph_short_step g f k (take ?n d) c = (k', c')" by (metis surj_pair)
    have k: "k < SPH_BLEN g" using 1(3,4) by simp
    have "sph_rep (SPH_BLEN g) f iv c' (m @ take ?n d) \<and> k' = length (m @ take ?n d) mod SPH_BLEN g"
      using sph_step_rep [OF 1(2,3) _ s [unfolded 1(4)], folded 1(4)] k by simp
    then have "sph_rep (SPH_BLEN g) f iv (sph_short_loop g f k' (drop ?n d) c') ((m @ take ?n d) @ drop ?n d)"
      using 1(1) [OF _ refl s [symmetric] refl, of "m @ take ?n d"] False k 1(3) by simp
    then show ?thesis using s False k by (subst sph_short_loop.simps) simp
  qed
qed

lemma sph_short_rep:
  assumes "md_wf g" and "sph_rep (SPH_BLEN g) f iv c m"
  shows "sph_rep (SPH_BLEN g) f iv (sph_short g f c d) (m @ d)"
  using sph_short_loop_rep [OF assms(2) md_wf_pos [OF assms(1)]] sph_current_rep [OF assms]
  by (simp add: sph_short_def)

lemma sph_blocks_absorb: "0 < B \<Longrightarrow> sph_blocks B f s d = (md_absorb B f s d, md_tail B d)"
proof (induction B f s d rule: sph_blocks.induct)
  case (1 B f s d)
  then show ?case
    using md_tail_drop [of B d]
    by (subst sph_blocks.simps, subst md_absorb.simps) (auto simp: md_tail_short)
qed

text \<open>The fast path of \<open>update\<close>, from an empty buffer.\<close>

lemma sph_fast_rep:
  assumes "sph_rep B f iv c m" and "0 < B" and "length m mod B = 0" and "sph_blocks B f (md_s c) d = (s, e)"
  shows "sph_rep B f iv
    ((if 0 < length e then c\<lparr>md_s := s, md_buf := memcpy_at (md_buf c) 0 e\<rparr> else c\<lparr>md_s := s\<rparr>)
      \<lparr>md_bytes := md_bytes c + of_nat (length d)\<rparr>) (m @ d)"
proof -
  have e: "s = md_absorb B f (md_s c) d" "e = md_tail B d"
    using assms(4) sph_blocks_absorb [OF assms(2), of f "md_s c" d] by simp_all
  have empty: "e = [] \<longleftrightarrow> length d mod B = 0" using e(2) length_md_tail [of B d] by (metis length_0_conv)
  have "length e < B" using e(2) assms(2) by simp
  moreover have "length (m @ d) mod B = length e"
    using assms(3) e(2) by (metis add_0 length_append length_md_tail mod_add_left_eq)
  ultimately show ?thesis
    using assms(1,2) md_absorb_append [OF assms(2), of f iv m d] e md_tail_Nil [OF assms(3)]
      empty
    by (cases "e = []") (simp_all add: sph_rep_def memcpy_at_def)
qed

lemma sph_update_fast:
  assumes "\<not> (\<not> cfg_UPTR g \<or> length d < 2 * SPH_BLEN g)" and "sph_current g c = r"
    and t: "(if 0 < r then SPH_BLEN g - r else 0) = t" and c': "(if 0 < r then sph_short g f c (take t d) else c) = c'"
    and "\<not> (\<not> cfg_UNALIGNED g \<and> (addr + t) mod SPH_WLEN g \<noteq> 0)"
    and "sph_blocks (SPH_BLEN g) f (md_s c') (drop t d) = (s, e)"
  shows "sph_update g f addr c d =
    (if 0 < length e then c'\<lparr>md_s := s, md_buf := memcpy_at (md_buf c') 0 e\<rparr> else c'\<lparr>md_s := s\<rparr>)
      \<lparr>md_bytes := md_bytes c' + of_nat (length (drop t d))\<rparr>"
  using assms(1,5)
  by (simp only: sph_update_def Let_def if_False assms(2) t c' assms(6) prod.case) simp

lemma sph_update_rep:
  assumes "md_wf g" and "sph_rep (SPH_BLEN g) f iv c m"
  shows "sph_rep (SPH_BLEN g) f iv (sph_update g f addr c d) (m @ d)"
proof (cases "\<not> cfg_UPTR g \<or> length d < 2 * SPH_BLEN g")
  case True
  then show ?thesis using sph_short_rep [OF assms] by (auto simp: sph_update_def)
next
  case False
  let ?B = "SPH_BLEN g" and ?r = "length m mod SPH_BLEN g"
  let ?t = "if 0 < ?r then ?B - ?r else 0"
  let ?c = "if 0 < ?r then sph_short g f c (take ?t d) else c"
  have c: "sph_rep ?B f iv ?c (m @ take ?t d)" using sph_short_rep [OF assms, of "take ?t d"] assms(2) by auto
  have B: "0 < ?B" by (rule md_wf_pos [OF assms(1)])
  have z: "length (m @ take ?t d) mod ?B = 0"
    using False add_complement_mod [OF B, of "length m"] by (auto simp: min_def)
  obtain s e where b: "sph_blocks ?B f (md_s ?c) (drop ?t d) = (s, e)" by (metis surj_pair)
  have "sph_rep ?B f iv (sph_update g f addr c d) ((m @ take ?t d) @ drop ?t d)"
  proof (cases "\<not> cfg_UNALIGNED g \<and> (addr + ?t) mod SPH_WLEN g \<noteq> 0")
    case True
    have "sph_update g f addr c d = sph_short g f ?c (drop ?t d)"
      using False True by (simp only: sph_update_def sph_current_rep [OF assms] Let_def if_True if_False simp_thms)
    then show ?thesis using sph_short_rep [OF assms(1) c, of "drop ?t d"] by (simp only:)
  next
    case aligned: False
    then show ?thesis
      using sph_fast_rep [OF c B z b]
        sph_update_fast [OF False sph_current_rep [OF assms] refl refl aligned b] by (simp only:)
  qed
  then show ?thesis by (simp only: append_assoc append_take_drop_id)
qed

section \<open>Padding\<close>

text \<open>The message as the standard pads it: marker, zeros up to the length field, length field.\<close>

definition sph_padded :: "md_cfg \<Rightarrow> u8 list \<Rightarrow> u32 \<Rightarrow> nat \<Rightarrow> u8 list" where
  "sph_padded g m ub n = m @ sph_marker g ub n #
     replicate ((SPH_BLEN g + SPH_MAXPAD g - 1 - length m mod SPH_BLEN g) mod SPH_BLEN g) 0 @
     sph_length_field g (of_nat (length m)) n"

lemma length_sph_length_field: "length (sph_length_field g w n) = length (sph_length_field g 0 0)"
  by (simp add: sph_length_field_def Let_def split: md_mode.split md_plw.split)

lemma sph_last_block_chain:
  assumes "md_wf g" and "sph_rep (SPH_BLEN g) f iv c m"
  shows "md_s (sph_last_block g f ub n c) = md_absorb (SPH_BLEN g) f iv (sph_padded g m ub n)"
proof -
  let ?B = "SPH_BLEN g" and ?M = "SPH_MAXPAD g" and ?r = "length m mod SPH_BLEN g"
  let ?k = "sph_marker g ub n" and ?len = "sph_length_field g (of_nat (length m)) n"
  let ?t = "md_tail ?B m"
  have B: "0 < ?B" and r: "?r < ?B" using md_wf_pos [OF assms(1)] by simp_all
  have M: "0 < ?M" "?M + length ?len = ?B"
    using assms(1) length_sph_length_field [of g "of_nat (length m)" n] by (simp_all add: md_wf_def)
  have c: "md_bytes c = of_nat (length m)" "md_s c = md_absorb ?B f iv m" "take ?r (md_buf c) = ?t" "length (md_buf c) = ?B"
    using assms(2) by (simp_all add: sph_rep_def)
  have padded: "md_absorb ?B f iv (sph_padded g m ub n) = md_absorb ?B f (md_s c)
      (?t @ ?k # replicate ((?B + ?M - 1 - ?r) mod ?B) 0 @ ?len)"
    using md_absorb_append [OF B, of f iv m] c(2) by (simp add: sph_padded_def)
  show ?thesis
  proof (cases "?M < ?r + 1")
    case True
    let ?b = "?t @ ?k # replicate (?B - (?r + 1)) 0" and ?z = "replicate ?M 0 @ ?len"
    have "?B + ?M - 1 - ?r < ?B" using True B by linarith
    then have "(?B + ?M - 1 - ?r) mod ?B = ?B + ?M - 1 - ?r" by (rule mod_less)
    also have "\<dots> = (?B - (?r + 1)) + ?M" using r by linarith
    finally have "(?B + ?M - 1 - ?r) mod ?B = (?B - (?r + 1)) + ?M" .
    then have "?t @ ?k # replicate ((?B + ?M - 1 - ?r) mod ?B) 0 @ ?len = ?b @ ?z"
      by (simp only: replicate_add append.simps append_assoc)
    moreover have "md_absorb ?B f s (?b @ ?z) = f (f s ?b) ?z" for s
      using md_absorb_block [OF B, of ?b f s ?z] md_absorb_block [OF B, of ?z f "f s ?b" "[]"] r M
      by (simp add: md_absorb_short)
    moreover have full: "drop (?B - ?r) (?k # replicate (?B - Suc ?r) 0) = []" by (simp add: Suc_diff_Suc [OF r])
    have "md_s (sph_last_block g f ub n c) = f (f (md_s c) ?b) ?z"
      using True r M c
      by (simp add: full sph_last_block_def sph_pad_def Let_def sph_current_rep [OF assms] memcpy_at_def)
    ultimately show ?thesis using padded by simp
  next
    case False
    let ?b = "?t @ ?k # replicate (?M - (?r + 1)) 0 @ ?len"
    have "?B + ?M - 1 - ?r = ?B + (?M - (?r + 1))" using False r by simp
    moreover have "?M - (?r + 1) < ?B" using M B by linarith
    ultimately have "(?B + ?M - 1 - ?r) mod ?B = ?M - (?r + 1)" by (simp only: mod_add_self1 mod_less)
    moreover have "md_absorb ?B f s ?b = f s ?b" for s
      using md_absorb_block [OF B, of ?b f s "[]"] False M B by (simp add: md_absorb_short)
    moreover have room: "?M - ?r = Suc (?M - Suc ?r)" using False by linarith
    have "md_s (sph_last_block g f ub n c) = f (md_s c) ?b"
      using False r M c
      by (simp add: room sph_last_block_def sph_pad_def Let_def sph_current_rep [OF assms] memcpy_at_def)
    ultimately show ?thesis using padded by simp
  qed
qed

lemma length_memcpy_at: "off + length bs \<le> length buf \<Longrightarrow> length (memcpy_at buf off bs) = length buf"
  by (simp add: memcpy_at_def)

lemma sph_last_block_buf:
  assumes "md_wf g" and "sph_rep (SPH_BLEN g) f iv c m"
  shows "length (md_buf (sph_last_block g f ub n c)) = SPH_BLEN g"
proof -
  obtain r where "sph_current g c = r" "r < SPH_BLEN g"
    using sph_current_rep [OF assms] md_wf_pos [OF assms(1)] by (metis mod_less_divisor)
  moreover have "SPH_MAXPAD g + length (sph_length_field g w n) = SPH_BLEN g" for w
    using assms(1) length_sph_length_field [of g w n] by (simp add: md_wf_def)
  moreover have "length (md_buf c) = SPH_BLEN g" "SPH_MAXPAD g \<le> SPH_BLEN g"
    using assms by (simp_all add: sph_rep_def md_wf_def)
  ultimately show ?thesis
    by (auto simp: sph_last_block_def sph_pad_def Let_def length_memcpy_at)
qed

end
