(* ===== verification/Sha2_Ref.thy ===== *)
theory Sha2_Ref
  imports Prelude
begin

text \<open>
  The compression functions of the SHA-2 family as FIPS 180-4 states them, over words of any
  size: the message schedule as a list, and a step that shifts eight registers. Every
  implementation of the repository renames registers instead of moving them, and most keep the
  schedule in sixteen words that they overwrite. The lemmas here undo both once for all:
  \<open>sha2_named_rounds\<close> relates named registers to the shifting step, and \<open>sha2_circular_rounds\<close>
  the circular schedule to the full one.
\<close>

unbundle bit_operations_syntax

section \<open>The standard\<close>

definition sha2_Ch :: "'a::len word \<Rightarrow> 'a word \<Rightarrow> 'a word \<Rightarrow> 'a word" where
  "sha2_Ch x y z = (x AND y) XOR (NOT x AND z)"

definition sha2_Maj :: "'a::len word \<Rightarrow> 'a word \<Rightarrow> 'a word \<Rightarrow> 'a word" where
  "sha2_Maj x y z = (x AND y) XOR (x AND z) XOR (y AND z)"

text \<open>The four functions that differ between word sizes.\<close>

record 'w sha2_funs =
  Sigma0 :: "'w \<Rightarrow> 'w"
  Sigma1 :: "'w \<Rightarrow> 'w"
  sigma0 :: "'w \<Rightarrow> 'w"
  sigma1 :: "'w \<Rightarrow> 'w"

definition sha2_sched :: "'a::len word sha2_funs \<Rightarrow> 'a word list \<Rightarrow> nat \<Rightarrow> 'a word list" where
  "sha2_sched F m n =
     fold (\<lambda>t W. W @ [sigma1 F (W ! (t - 2)) + W ! (t - 7) + sigma0 F (W ! (t - 15)) + W ! (t - 16)]) [16..<n] m"

definition sha2_step :: "'a::len word sha2_funs \<Rightarrow> 'a word \<Rightarrow> 'a word \<Rightarrow> 'a word list \<Rightarrow> 'a word list" where
  "sha2_step F k w r =
    (let T1 = r ! 7 + Sigma1 F (r ! 4) + sha2_Ch (r ! 4) (r ! 5) (r ! 6) + k + w;
         T2 = Sigma0 F (r ! 0) + sha2_Maj (r ! 0) (r ! 1) (r ! 2)
     in [T1 + T2, r ! 0, r ! 1, r ! 2, r ! 3 + T1, r ! 4, r ! 5, r ! 6])"

definition sha2_rounds :: "'a::len word sha2_funs \<Rightarrow> 'a word list \<Rightarrow> 'a word list \<Rightarrow> 'a word list \<Rightarrow> 'a word list" where
  "sha2_rounds F K m h =
    (let W = sha2_sched F m (length K)
     in fold (\<lambda>t. sha2_step F (K ! t) (W ! t)) [0..<length K] h)"

definition sha2_compress :: "'a::len word sha2_funs \<Rightarrow> 'a word list \<Rightarrow> 'a word list \<Rightarrow> 'a word list \<Rightarrow> 'a word list" where
  "sha2_compress F K m h = map2 (+) h (sha2_rounds F K m h)"

section \<open>The schedule\<close>

lemma length_sha2_sched: "length m = 16 \<Longrightarrow> 16 \<le> n \<Longrightarrow> length (sha2_sched F m n) = n"
proof (induction n)
  case (Suc n)
  then show ?case by (cases "16 \<le> n") (auto simp: sha2_sched_def)
qed simp

lemma sha2_sched_Suc:
  "16 \<le> n \<Longrightarrow> sha2_sched F m (Suc n) = sha2_sched F m n @
    [sigma1 F (sha2_sched F m n ! (n - 2)) + sha2_sched F m n ! (n - 7) +
     sigma0 F (sha2_sched F m n ! (n - 15)) + sha2_sched F m n ! (n - 16)]"
  by (simp add: sha2_sched_def)

lemma sha2_sched_mono:
  assumes "length m = 16" and "t < n" and "16 \<le> n" and "n \<le> n'"
  shows "sha2_sched F m n' ! t = sha2_sched F m n ! t"
  using assms(4)
proof (induction n' rule: dec_induct)
  case (step n')
  then show ?case using assms by (simp add: sha2_sched_Suc length_sha2_sched nth_append)
qed simp

lemma sha2_sched_16: "sha2_sched F m 16 = m"
  by (simp add: sha2_sched_def)

lemma sha2_sched_first: "length m = 16 \<Longrightarrow> t < 16 \<Longrightarrow> 16 \<le> n \<Longrightarrow> sha2_sched F m n ! t = m ! t"
  using sha2_sched_mono [of m t 16 n F] by (simp add: sha2_sched_16)

lemma sha2_sched_nth:
  fixes F :: "'a::len word sha2_funs"
  assumes "length m = 16" and "16 \<le> t" and "t < n"
  defines "W \<equiv> sha2_sched F m n"
  shows "W ! t = sigma1 F (W ! (t - 2)) + W ! (t - 7) + sigma0 F (W ! (t - 15)) + W ! (t - 16)"
proof -
  have earlier: "sha2_sched F m t ! u = W ! u" if "u < t" for u
    using sha2_sched_mono [OF assms(1) that assms(2), of n F] assms(3) by (simp add: W_def)
  have "W ! t = sha2_sched F m (Suc t) ! t"
    using sha2_sched_mono [OF assms(1), of t "Suc t" n F] assms(2,3) by (simp add: W_def)
  also have "\<dots> = sigma1 F (W ! (t - 2)) + W ! (t - 7) + sigma0 F (W ! (t - 15)) + W ! (t - 16)"
    using assms(1,2) by (simp add: sha2_sched_Suc length_sha2_sched nth_append earlier)
  finally show ?thesis .
qed

text \<open>The schedule written into an array, one word after the other.\<close>

definition sha2_array :: "'a::len word sha2_funs \<Rightarrow> nat \<Rightarrow> 'a word list \<Rightarrow> 'a word list" where
  "sha2_array F n W = fold (\<lambda>t W. W[t := sigma1 F (W ! (t - 2)) + W ! (t - 7) + sigma0 F (W ! (t - 15)) + W ! (t - 16)])
     [16..<n] W"

lemma sha2_array_sched:
  assumes "16 \<le> n" and "n \<le> length W"
  shows "take n (sha2_array F n W) = sha2_sched F (take 16 W) n \<and> length (sha2_array F n W) = length W"
  using assms
proof (induction n rule: dec_induct)
  case base
  then show ?case by (simp add: sha2_array_def sha2_sched_16)
next
  case (step n)
  let ?V = "sha2_array F n W" and ?S = "sha2_sched F (take 16 W) n"
  have V: "take n ?V = ?S" "length ?V = length W" using step by simp_all
  have nth: "?V ! t = ?S ! t" if "t < n" for t using that V(1) by (metis nth_take)
  have "sha2_array F (Suc n) W = ?V[n := sigma1 F (?V ! (n - 2)) + ?V ! (n - 7) + sigma0 F (?V ! (n - 15)) + ?V ! (n - 16)]"
    using step.hyps by (simp add: sha2_array_def)
  then show ?case
    using V step.hyps step.prems by (simp add: sha2_sched_Suc take_Suc_conv_app_nth nth)
qed

section \<open>Named registers\<close>

definition sha2_op ::
  "'a::len word sha2_funs \<Rightarrow> 'a word \<Rightarrow> 'a word \<Rightarrow> nat \<Rightarrow> nat \<Rightarrow> nat \<Rightarrow> nat \<Rightarrow> nat \<Rightarrow> nat \<Rightarrow> nat \<Rightarrow> nat \<Rightarrow>
   'a word list \<Rightarrow> 'a word list" where
  "sha2_op F k w a b c d e f g h r =
    (let T1 = r ! h + Sigma1 F (r ! e) + sha2_Ch (r ! e) (r ! f) (r ! g) + k + w;
         T2 = Sigma0 F (r ! a) + sha2_Maj (r ! a) (r ! b) (r ! c)
     in r[d := r ! d + T1, h := T1 + T2])"

definition sha2_named :: "'a::len word sha2_funs \<Rightarrow> nat \<Rightarrow> 'a word \<Rightarrow> 'a word \<Rightarrow> 'a word list \<Rightarrow> 'a word list" where
  "sha2_named F i k w = sha2_op F k w (7 * i mod 8) ((7 * i + 1) mod 8) ((7 * i + 2) mod 8)
     ((7 * i + 3) mod 8) ((7 * i + 4) mod 8) ((7 * i + 5) mod 8) ((7 * i + 6) mod 8) ((7 * i + 7) mod 8)"

definition sha2_view :: "nat \<Rightarrow> 'a::len word list \<Rightarrow> 'a word list" where
  "sha2_view i r = map (\<lambda>k. r ! ((7 * i + k) mod 8)) [0..<8]"

lemma length_sha2_named [simp]: "length (sha2_named F i k w r) = length r"
  by (simp add: sha2_named_def sha2_op_def Let_def)

lemma length_8E:
  assumes "length r = 8"
  obtains a b c d e f g h where "r = [a, b, c, d, e, f, g, h]"
  using assms by (auto simp: length_Suc_conv eval_nat_numeral)

lemma sha2_view_named:
  assumes "length r = 8"
  shows "sha2_view (Suc i) (sha2_named F i k w r) = sha2_step F k w (sha2_view i r)"
proof -
  obtain a b c d e f g h where r: "r = [a, b, c, d, e, f, g, h]" using assms by (rule length_8E)
  have red: "(7 * i + k) mod 8 = (7 * (i mod 8) + k) mod 8" for k
    by (metis mod_add_left_eq mod_mult_right_eq)
  have red': "(7 * Suc i + k) mod 8 = (7 * (i mod 8) + 7 + k) mod 8" for k
    using red [of "7 + k"] by (simp add: algebra_simps)
  have "i mod 8 < 8" by simp
  then consider "i mod 8 = 0" | "i mod 8 = 1" | "i mod 8 = 2" | "i mod 8 = 3" | "i mod 8 = 4"
    | "i mod 8 = 5" | "i mod 8 = 6" | "i mod 8 = 7" by linarith
  then show ?thesis
    unfolding sha2_view_def sha2_named_def sha2_step_def sha2_op_def Let_def r red red' red [of 0, unfolded add_0_right]
    by cases (simp_all add: upt_conv_Cons)
qed

lemma sha2_view_id:
  assumes "length r = 8" and "n mod 8 = 0"
  shows "sha2_view n r = r"
proof -
  obtain a b c d e f g h where r: "r = [a, b, c, d, e, f, g, h]" using assms(1) by (rule length_8E)
  obtain q where "n = 8 * q" using assms(2) by (metis dvd_def mod_0_imp_dvd)
  then have "(7 * n + k) mod 8 = k mod 8" for k using mod_mult_self4 [of 8 "7 * q" k] by (simp add: mult.assoc)
  then show ?thesis unfolding sha2_view_def r by (simp add: upt_conv_Cons)
qed

lemma sha2_named_rounds:
  assumes "length r = 8" and "n mod 8 = 0"
  shows "fold (\<lambda>i. sha2_named F i (K i) (W i)) [0..<n] r = fold (\<lambda>i. sha2_step F (K i) (W i)) [0..<n] r"
proof -
  let ?z = "\<lambda>n. fold (\<lambda>i. sha2_named F i (K i) (W i)) [0..<n] r"
  have len: "length (?z n) = 8" for n using assms(1) by (induction n) simp_all
  have "sha2_view n (?z n) = fold (\<lambda>i. sha2_step F (K i) (W i)) [0..<n] r" for n
  proof (induction n)
    case 0
    then show ?case using sha2_view_id [OF assms(1), of 0] by simp
  next
    case (Suc n)
    then show ?case using len [of n] by (simp add: sha2_view_named)
  qed
  then show ?thesis using sha2_view_id [OF len assms(2)] by metis
qed

section \<open>The circular schedule\<close>

definition sha2_circ ::
  "'a::len word sha2_funs \<Rightarrow> 'a word list \<Rightarrow> (nat \<Rightarrow> 'a word) \<Rightarrow> nat \<Rightarrow> 'a word list \<times> 'a word list \<Rightarrow> 'a word list \<times> 'a word list" where
  "sha2_circ F K inp i = (\<lambda>(r, W).
     let W = W[i mod 16 := if i < 16 then inp i
           else sigma1 F (W ! ((i + 14) mod 16)) + W ! ((i + 9) mod 16) + sigma0 F (W ! ((i + 1) mod 16)) + W ! (i mod 16)]
     in (sha2_named F i (K ! i) (W ! (i mod 16)) r, W))"

text \<open>The last sixteen words of the schedule, each at its place modulo sixteen.\<close>

definition circ_holds :: "'a::len word list \<Rightarrow> 'a word list \<Rightarrow> nat \<Rightarrow> bool" where
  "circ_holds W sched n \<longleftrightarrow> length W = 16 \<and> (\<forall>j < n. n \<le> j + 16 \<longrightarrow> W ! (j mod 16) = sched ! j)"

lemma circ_holds_update:
  assumes "circ_holds W sched n"
  shows "circ_holds (W[n mod 16 := sched ! n]) sched (Suc n)"
proof -
  have "n mod 16 \<noteq> j mod 16" if "j < n" "Suc n \<le> j + 16" for j
  proof
    assume "n mod 16 = j mod 16"
    then have "16 dvd n - j" using that(1) by (metis less_imp_le mod_eq_dvd_iff_nat)
    then have "16 \<le> n - j" using that(1) by (intro dvd_imp_le) simp_all
    then show False using that by simp
  qed
  then show ?thesis using assms by (auto simp: circ_holds_def less_Suc_eq nth_list_update)
qed

lemma sha2_circ_step:
  assumes "length m = 16" and "n < N" and "16 \<le> N" and "circ_holds W (sha2_sched F m N) n"
  shows "sha2_circ F K (\<lambda>i. m ! i) n (r, W) =
    (sha2_named F n (K ! n) (sha2_sched F m N ! n) r, W[n mod 16 := sha2_sched F m N ! n])"
proof (cases "n < 16")
  case True
  then show ?thesis using assms by (simp add: sha2_circ_def sha2_sched_first circ_holds_def)
next
  case False
  have prev: "W ! ((n + 16 - d) mod 16) = sha2_sched F m N ! (n - d)" if "0 < d" "d \<le> 16" for d
  proof -
    have "n + 16 - d = n - d + 16" using False that by simp
    then have "(n + 16 - d) mod 16 = (n - d) mod 16" by (simp only: mod_add_self2)
    then show ?thesis using assms(4) that False by (simp add: circ_holds_def)
  qed
  have "W ! ((n + 14) mod 16) = sha2_sched F m N ! (n - 2)" "W ! ((n + 9) mod 16) = sha2_sched F m N ! (n - 7)"
    "W ! ((n + 1) mod 16) = sha2_sched F m N ! (n - 15)" "W ! (n mod 16) = sha2_sched F m N ! (n - 16)"
    using prev [of 2] prev [of 7] prev [of 15] prev [of 16] by (simp_all add: add.commute)
  then show ?thesis using False assms sha2_sched_nth [OF assms(1), of n N F]
    by (simp add: sha2_circ_def circ_holds_def)
qed

lemma sha2_circ_fold:
  assumes "length m = 16" and "16 \<le> N" and "length W = 16" and "n \<le> N"
  shows "\<exists>W'. fold (sha2_circ F K (\<lambda>i. m ! i)) [0..<n] (r, W) =
      (fold (\<lambda>i. sha2_named F i (K ! i) (sha2_sched F m N ! i)) [0..<n] r, W') \<and>
    circ_holds W' (sha2_sched F m N) n"
  using assms(4)
proof (induction n)
  case 0
  then show ?case using assms by (simp add: circ_holds_def)
next
  case (Suc n)
  then obtain W' where W': "fold (sha2_circ F K (\<lambda>i. m ! i)) [0..<n] (r, W) =
      (fold (\<lambda>i. sha2_named F i (K ! i) (sha2_sched F m N ! i)) [0..<n] r, W')"
    and h: "circ_holds W' (sha2_sched F m N) n" by auto
  show ?case
    using W' sha2_circ_step [OF assms(1) _ assms(2) h] circ_holds_update [OF h] Suc.prems by simp
qed

lemma sha2_circular_rounds:
  assumes "length m = 16" and "length W = 16" and "length r = 8" and "16 \<le> length K" and "length K mod 8 = 0"
  shows "fst (fold (sha2_circ F K (\<lambda>i. m ! i)) [0..<length K] (r, W)) = sha2_rounds F K m r"
  using sha2_circ_fold [OF assms(1,4,2) order_refl, of F K r]
    sha2_named_rounds [OF assms(3,5), of F "\<lambda>i. K ! i" "\<lambda>i. sha2_sched F m (length K) ! i"]
  by (auto simp: sha2_rounds_def Let_def)

lemma length_sha2_rounds: "length h = 8 \<Longrightarrow> length (sha2_rounds F K m h) = 8"
proof -
  have "length (fold (\<lambda>t. sha2_step F (K ! t) (W ! t)) ts h) = 8" if "length h = 8" for W ts h
    using that by (induction ts arbitrary: h) (simp_all add: sha2_step_def Let_def)
  then show "length h = 8 \<Longrightarrow> length (sha2_rounds F K m h) = 8" by (simp add: sha2_rounds_def Let_def)
qed

lemma length_sha2_compress [simp]: "length h = 8 \<Longrightarrow> length (sha2_compress F K m h) = 8"
  by (simp add: sha2_compress_def length_sha2_rounds)

text \<open>The final additions, written out.\<close>

lemma sha2_compress_adds:
  fixes F :: "'a::len word sha2_funs" and K m :: "'a word list"
  assumes "length h = 8"
  defines "r \<equiv> sha2_rounds F K m h"
  shows "[h ! 0 + r ! 0, h ! 1 + r ! 1, h ! 2 + r ! 2, h ! 3 + r ! 3,
      h ! 4 + r ! 4, h ! 5 + r ! 5, h ! 6 + r ! 6, h ! 7 + r ! 7] = sha2_compress F K m h"
proof -
  obtain a b c d e f g i where "h = [a, b, c, d, e, f, g, i]" using assms(1) by (rule length_8E)
  moreover obtain a' b' c' d' e' f' g' i' where "r = [a', b', c', d', e', f', g', i']"
    using length_sha2_rounds [OF assms(1)] by (metis length_8E r_def)
  moreover have "sha2_compress F K m h = map2 (+) h r" by (simp add: sha2_compress_def r_def)
  ultimately show ?thesis by simp
qed

section \<open>Constants\<close>

text \<open>
  The round constants are the leading fractional bits of the cube roots of the first primes, the
  initial values those of the square roots: \<open>root_frac n w p k\<close> says that \<open>k\<close> is the first \<open>w\<close>
  fractional bits of the \<open>n\<close>-th root of \<open>p\<close>.
\<close>

definition root_frac :: "nat \<Rightarrow> nat \<Rightarrow> int \<Rightarrow> int \<Rightarrow> bool" where
  "root_frac n w p k \<longleftrightarrow> 0 \<le> k \<and> k < 2 ^ w \<and>
     (\<exists>q \<in> set [0..20]. (q * 2 ^ w + k) ^ n \<le> p * 2 ^ (w * n) \<and> p * 2 ^ (w * n) < (q * 2 ^ w + k + 1) ^ n)"

text \<open>The primes below 410: a composite number in that range has a divisor of at most 20.\<close>

definition first_primes :: "int list" where
  "first_primes = filter (\<lambda>p. \<forall>d \<in> set [2..20]. d < p \<longrightarrow> p mod d \<noteq> 0) [2..409]"

end
