(* ===== verification/Sha256_Sph.thy ===== *)
theory Sha256_Sph
  imports Sha2_Ref
begin

text \<open>
  The SHA-256 compression function of \<^verbatim>\<open>src/src/crypto/x25x/sph/sph_sha2.c\<close>, both versions of
  \<open>SHA2_ROUND_BODY\<close>: the one for \<open>SPH_SMALL_FOOTPRINT_SHA2\<close> (a loop over a table of constants)
  and the unrolled one, where every step names its registers, its schedule words and its
  constant. The locals \<open>A..H\<close> are positions 0 to 7 of a list, \<open>W\<close> (or \<open>W00..W15\<close>) a list of sixteen
  words whose initial content is a parameter, since the code leaves it uninitialised.
  \<open>SPH_T32\<close> truncates to 32 bits, which words are by type.
\<close>

unbundle bit_operations_syntax

section \<open>The code\<close>

definition SPH_ROTL32 :: "u32 \<Rightarrow> nat \<Rightarrow> u32" where
  "SPH_ROTL32 x n = push_bit n x OR drop_bit (32 - n) x"

definition SPH_ROTR32 :: "u32 \<Rightarrow> nat \<Rightarrow> u32" where
  "SPH_ROTR32 x n = SPH_ROTL32 x (32 - n)"

definition sph_CH :: "u32 \<Rightarrow> u32 \<Rightarrow> u32 \<Rightarrow> u32" where
  "sph_CH X Y Z = ((Y XOR Z) AND X) XOR Z"

definition sph_MAJ :: "u32 \<Rightarrow> u32 \<Rightarrow> u32 \<Rightarrow> u32" where
  "sph_MAJ X Y Z = (Y AND Z) OR ((Y OR Z) AND X)"

definition BSG2_0 :: "u32 \<Rightarrow> u32" where
  "BSG2_0 x = SPH_ROTR32 x 2 XOR SPH_ROTR32 x 13 XOR SPH_ROTR32 x 22"

definition BSG2_1 :: "u32 \<Rightarrow> u32" where
  "BSG2_1 x = SPH_ROTR32 x 6 XOR SPH_ROTR32 x 11 XOR SPH_ROTR32 x 25"

definition SSG2_0 :: "u32 \<Rightarrow> u32" where
  "SSG2_0 x = SPH_ROTR32 x 7 XOR SPH_ROTR32 x 18 XOR drop_bit 3 x"

definition SSG2_1 :: "u32 \<Rightarrow> u32" where
  "SSG2_1 x = SPH_ROTR32 x 17 XOR SPH_ROTR32 x 19 XOR drop_bit 10 x"

definition H224 :: "u32 list" where
  "H224 = [0xC1059ED8, 0x367CD507, 0x3070DD17, 0xF70E5939, 0xFFC00B31, 0x68581511, 0x64F98FA7, 0xBEFA4FA4]"

definition H256 :: "u32 list" where
  "H256 = [0x6A09E667, 0xBB67AE85, 0x3C6EF372, 0xA54FF53A, 0x510E527F, 0x9B05688C, 0x1F83D9AB, 0x5BE0CD19]"

definition sph_K :: "u32 list" where
  "sph_K = [
   0x428A2F98, 0x71374491, 0xB5C0FBCF, 0xE9B5DBA5, 0x3956C25B, 0x59F111F1, 0x923F82A4, 0xAB1C5ED5,
   0xD807AA98, 0x12835B01, 0x243185BE, 0x550C7DC3, 0x72BE5D74, 0x80DEB1FE, 0x9BDC06A7, 0xC19BF174,
   0xE49B69C1, 0xEFBE4786, 0x0FC19DC6, 0x240CA1CC, 0x2DE92C6F, 0x4A7484AA, 0x5CB0A9DC, 0x76F988DA,
   0x983E5152, 0xA831C66D, 0xB00327C8, 0xBF597FC7, 0xC6E00BF3, 0xD5A79147, 0x06CA6351, 0x14292967,
   0x27B70A85, 0x2E1B2138, 0x4D2C6DFC, 0x53380D13, 0x650A7354, 0x766A0ABB, 0x81C2C92E, 0x92722C85,
   0xA2BFE8A1, 0xA81A664B, 0xC24B8B70, 0xC76C51A3, 0xD192E819, 0xD6990624, 0xF40E3585, 0x106AA070,
   0x19A4C116, 0x1E376C08, 0x2748774C, 0x34B0BCB5, 0x391C0CB3, 0x4ED8AA4A, 0x5B9CCA4F, 0x682E6FF3,
   0x748F82EE, 0x78A5636F, 0x84C87814, 0x8CC70208, 0x90BEFFFA, 0xA4506CEB, 0xBEF9A3F7, 0xC67178F2]"

definition SHA2_MEXP1 :: "(nat \<Rightarrow> u32) \<Rightarrow> nat \<Rightarrow> u32 list \<Rightarrow> u32 list" where
  "SHA2_MEXP1 inp pc W = W[pc := inp pc]"

definition SHA2_MEXP2 :: "nat \<Rightarrow> u32 list \<Rightarrow> u32 list" where
  "SHA2_MEXP2 pc W = W[pc mod 16 := SSG2_1 (W ! ((pc + 16 - 2) mod 16)) + W ! ((pc + 16 - 7) mod 16) +
     SSG2_0 (W ! ((pc + 16 - 15) mod 16)) + W ! (pc mod 16)]"

text \<open>The four assignments every step ends with.\<close>

definition SHA2_T ::
  "nat \<Rightarrow> nat \<Rightarrow> nat \<Rightarrow> nat \<Rightarrow> nat \<Rightarrow> nat \<Rightarrow> nat \<Rightarrow> nat \<Rightarrow> u32 \<Rightarrow> u32 \<Rightarrow> u32 list \<Rightarrow> u32 list" where
  "SHA2_T a b c d e f g h k w r =
    (let t1 = r ! h + BSG2_1 (r ! e) + sph_CH (r ! e) (r ! f) (r ! g) + k + w;
         t2 = BSG2_0 (r ! a) + sph_MAJ (r ! a) (r ! b) (r ! c);
         r = r[d := r ! d + t1]
     in r[h := t1 + t2])"

definition SHA2_STEP1 ::
  "nat \<Rightarrow> nat \<Rightarrow> nat \<Rightarrow> nat \<Rightarrow> nat \<Rightarrow> nat \<Rightarrow> nat \<Rightarrow> nat \<Rightarrow> (nat \<Rightarrow> u32) \<Rightarrow> nat \<Rightarrow> nat \<Rightarrow>
   u32 list \<times> u32 list \<Rightarrow> u32 list \<times> u32 list" where
  "SHA2_STEP1 a b c d e f g h inp pcount pc = (\<lambda>(r, W).
    let W = SHA2_MEXP1 inp pc W
    in (SHA2_T a b c d e f g h (sph_K ! (pcount + pc)) (W ! (pc mod 16)) r, W))"

definition SHA2_STEP2 ::
  "nat \<Rightarrow> nat \<Rightarrow> nat \<Rightarrow> nat \<Rightarrow> nat \<Rightarrow> nat \<Rightarrow> nat \<Rightarrow> nat \<Rightarrow> nat \<Rightarrow> nat \<Rightarrow>
   u32 list \<times> u32 list \<Rightarrow> u32 list \<times> u32 list" where
  "SHA2_STEP2 a b c d e f g h pcount pc = (\<lambda>(r, W).
    let W = SHA2_MEXP2 pc W
    in (SHA2_T a b c d e f g h (sph_K ! (pcount + pc)) (W ! (pc mod 16)) r, W))"

definition SHA2_SMALL_FIRST :: "(nat \<Rightarrow> u32) \<Rightarrow> (u32 list \<times> u32 list \<Rightarrow> u32 list \<times> u32 list) list" where
  "SHA2_SMALL_FIRST inp = [
   SHA2_STEP1 0 1 2 3 4 5 6 7 inp 0 0, SHA2_STEP1 7 0 1 2 3 4 5 6 inp 0 1,
   SHA2_STEP1 6 7 0 1 2 3 4 5 inp 0 2, SHA2_STEP1 5 6 7 0 1 2 3 4 inp 0 3,
   SHA2_STEP1 4 5 6 7 0 1 2 3 inp 0 4, SHA2_STEP1 3 4 5 6 7 0 1 2 inp 0 5,
   SHA2_STEP1 2 3 4 5 6 7 0 1 inp 0 6, SHA2_STEP1 1 2 3 4 5 6 7 0 inp 0 7,
   SHA2_STEP1 0 1 2 3 4 5 6 7 inp 0 8, SHA2_STEP1 7 0 1 2 3 4 5 6 inp 0 9,
   SHA2_STEP1 6 7 0 1 2 3 4 5 inp 0 10, SHA2_STEP1 5 6 7 0 1 2 3 4 inp 0 11,
   SHA2_STEP1 4 5 6 7 0 1 2 3 inp 0 12, SHA2_STEP1 3 4 5 6 7 0 1 2 inp 0 13,
   SHA2_STEP1 2 3 4 5 6 7 0 1 inp 0 14, SHA2_STEP1 1 2 3 4 5 6 7 0 inp 0 15]"

definition SHA2_SMALL_LOOP :: "nat \<Rightarrow> (u32 list \<times> u32 list \<Rightarrow> u32 list \<times> u32 list) list" where
  "SHA2_SMALL_LOOP pcount = [
   SHA2_STEP2 0 1 2 3 4 5 6 7 pcount 0, SHA2_STEP2 7 0 1 2 3 4 5 6 pcount 1,
   SHA2_STEP2 6 7 0 1 2 3 4 5 pcount 2, SHA2_STEP2 5 6 7 0 1 2 3 4 pcount 3,
   SHA2_STEP2 4 5 6 7 0 1 2 3 pcount 4, SHA2_STEP2 3 4 5 6 7 0 1 2 pcount 5,
   SHA2_STEP2 2 3 4 5 6 7 0 1 pcount 6, SHA2_STEP2 1 2 3 4 5 6 7 0 pcount 7,
   SHA2_STEP2 0 1 2 3 4 5 6 7 pcount 8, SHA2_STEP2 7 0 1 2 3 4 5 6 pcount 9,
   SHA2_STEP2 6 7 0 1 2 3 4 5 pcount 10, SHA2_STEP2 5 6 7 0 1 2 3 4 pcount 11,
   SHA2_STEP2 4 5 6 7 0 1 2 3 pcount 12, SHA2_STEP2 3 4 5 6 7 0 1 2 pcount 13,
   SHA2_STEP2 2 3 4 5 6 7 0 1 pcount 14, SHA2_STEP2 1 2 3 4 5 6 7 0 pcount 15]"

definition SHA2_ADD :: "u32 list \<Rightarrow> u32 list \<Rightarrow> u32 list" where
  "SHA2_ADD r s = [r ! 0 + s ! 0, r ! 1 + s ! 1, r ! 2 + s ! 2, r ! 3 + s ! 3,
     r ! 4 + s ! 4, r ! 5 + s ! 5, r ! 6 + s ! 6, r ! 7 + s ! 7]"

definition SHA2_ROUND_BODY_small :: "u32 list \<Rightarrow> (nat \<Rightarrow> u32) \<Rightarrow> u32 list \<Rightarrow> u32 list" where
  "SHA2_ROUND_BODY_small W0 inp r =
    (let (s, W) = run_calls (SHA2_SMALL_FIRST inp @ concat (map SHA2_SMALL_LOOP [16, 32, 48])) (r, W0)
     in SHA2_ADD r s)"

text \<open>One group of statements of the unrolled body: a schedule word, then the four assignments.\<close>

definition SHA2_FIRST ::
  "nat \<Rightarrow> nat \<Rightarrow> nat \<Rightarrow> nat \<Rightarrow> nat \<Rightarrow> nat \<Rightarrow> nat \<Rightarrow> nat \<Rightarrow> u32 \<Rightarrow> (nat \<Rightarrow> u32) \<Rightarrow> nat \<Rightarrow>
   u32 list \<times> u32 list \<Rightarrow> u32 list \<times> u32 list" where
  "SHA2_FIRST a b c d e f g h k inp i = (\<lambda>(r, W).
    let W = W[i := inp i] in (SHA2_T a b c d e f g h k (W ! i) r, W))"

definition SHA2_NEXT ::
  "nat \<Rightarrow> nat \<Rightarrow> nat \<Rightarrow> nat \<Rightarrow> nat \<Rightarrow> nat \<Rightarrow> nat \<Rightarrow> nat \<Rightarrow> u32 \<Rightarrow> nat \<Rightarrow> nat \<Rightarrow> nat \<Rightarrow> nat \<Rightarrow>
   u32 list \<times> u32 list \<Rightarrow> u32 list \<times> u32 list" where
  "SHA2_NEXT a b c d e f g h k i j14 j9 j1 = (\<lambda>(r, W).
    let W = W[i := SSG2_1 (W ! j14) + W ! j9 + SSG2_0 (W ! j1) + W ! i]
    in (SHA2_T a b c d e f g h k (W ! i) r, W))"

definition SHA2_UNROLLED_0 :: "(nat \<Rightarrow> u32) \<Rightarrow> (u32 list \<times> u32 list \<Rightarrow> u32 list \<times> u32 list) list" where
  "SHA2_UNROLLED_0 inp = [
   SHA2_FIRST 0 1 2 3 4 5 6 7 0x428A2F98 inp 0, SHA2_FIRST 7 0 1 2 3 4 5 6 0x71374491 inp 1,
   SHA2_FIRST 6 7 0 1 2 3 4 5 0xB5C0FBCF inp 2, SHA2_FIRST 5 6 7 0 1 2 3 4 0xE9B5DBA5 inp 3,
   SHA2_FIRST 4 5 6 7 0 1 2 3 0x3956C25B inp 4, SHA2_FIRST 3 4 5 6 7 0 1 2 0x59F111F1 inp 5,
   SHA2_FIRST 2 3 4 5 6 7 0 1 0x923F82A4 inp 6, SHA2_FIRST 1 2 3 4 5 6 7 0 0xAB1C5ED5 inp 7,
   SHA2_FIRST 0 1 2 3 4 5 6 7 0xD807AA98 inp 8, SHA2_FIRST 7 0 1 2 3 4 5 6 0x12835B01 inp 9,
   SHA2_FIRST 6 7 0 1 2 3 4 5 0x243185BE inp 10, SHA2_FIRST 5 6 7 0 1 2 3 4 0x550C7DC3 inp 11,
   SHA2_FIRST 4 5 6 7 0 1 2 3 0x72BE5D74 inp 12, SHA2_FIRST 3 4 5 6 7 0 1 2 0x80DEB1FE inp 13,
   SHA2_FIRST 2 3 4 5 6 7 0 1 0x9BDC06A7 inp 14, SHA2_FIRST 1 2 3 4 5 6 7 0 0xC19BF174 inp 15]"

definition SHA2_UNROLLED_1 :: "(u32 list \<times> u32 list \<Rightarrow> u32 list \<times> u32 list) list" where
  "SHA2_UNROLLED_1 = [
   SHA2_NEXT 0 1 2 3 4 5 6 7 0xE49B69C1 0 14 9 1, SHA2_NEXT 7 0 1 2 3 4 5 6 0xEFBE4786 1 15 10 2,
   SHA2_NEXT 6 7 0 1 2 3 4 5 0x0FC19DC6 2 0 11 3, SHA2_NEXT 5 6 7 0 1 2 3 4 0x240CA1CC 3 1 12 4,
   SHA2_NEXT 4 5 6 7 0 1 2 3 0x2DE92C6F 4 2 13 5, SHA2_NEXT 3 4 5 6 7 0 1 2 0x4A7484AA 5 3 14 6,
   SHA2_NEXT 2 3 4 5 6 7 0 1 0x5CB0A9DC 6 4 15 7, SHA2_NEXT 1 2 3 4 5 6 7 0 0x76F988DA 7 5 0 8,
   SHA2_NEXT 0 1 2 3 4 5 6 7 0x983E5152 8 6 1 9, SHA2_NEXT 7 0 1 2 3 4 5 6 0xA831C66D 9 7 2 10,
   SHA2_NEXT 6 7 0 1 2 3 4 5 0xB00327C8 10 8 3 11, SHA2_NEXT 5 6 7 0 1 2 3 4 0xBF597FC7 11 9 4 12,
   SHA2_NEXT 4 5 6 7 0 1 2 3 0xC6E00BF3 12 10 5 13, SHA2_NEXT 3 4 5 6 7 0 1 2 0xD5A79147 13 11 6 14,
   SHA2_NEXT 2 3 4 5 6 7 0 1 0x06CA6351 14 12 7 15, SHA2_NEXT 1 2 3 4 5 6 7 0 0x14292967 15 13 8 0]"

definition SHA2_UNROLLED_2 :: "(u32 list \<times> u32 list \<Rightarrow> u32 list \<times> u32 list) list" where
  "SHA2_UNROLLED_2 = [
   SHA2_NEXT 0 1 2 3 4 5 6 7 0x27B70A85 0 14 9 1, SHA2_NEXT 7 0 1 2 3 4 5 6 0x2E1B2138 1 15 10 2,
   SHA2_NEXT 6 7 0 1 2 3 4 5 0x4D2C6DFC 2 0 11 3, SHA2_NEXT 5 6 7 0 1 2 3 4 0x53380D13 3 1 12 4,
   SHA2_NEXT 4 5 6 7 0 1 2 3 0x650A7354 4 2 13 5, SHA2_NEXT 3 4 5 6 7 0 1 2 0x766A0ABB 5 3 14 6,
   SHA2_NEXT 2 3 4 5 6 7 0 1 0x81C2C92E 6 4 15 7, SHA2_NEXT 1 2 3 4 5 6 7 0 0x92722C85 7 5 0 8,
   SHA2_NEXT 0 1 2 3 4 5 6 7 0xA2BFE8A1 8 6 1 9, SHA2_NEXT 7 0 1 2 3 4 5 6 0xA81A664B 9 7 2 10,
   SHA2_NEXT 6 7 0 1 2 3 4 5 0xC24B8B70 10 8 3 11, SHA2_NEXT 5 6 7 0 1 2 3 4 0xC76C51A3 11 9 4 12,
   SHA2_NEXT 4 5 6 7 0 1 2 3 0xD192E819 12 10 5 13, SHA2_NEXT 3 4 5 6 7 0 1 2 0xD6990624 13 11 6 14,
   SHA2_NEXT 2 3 4 5 6 7 0 1 0xF40E3585 14 12 7 15, SHA2_NEXT 1 2 3 4 5 6 7 0 0x106AA070 15 13 8 0]"

definition SHA2_UNROLLED_3 :: "(u32 list \<times> u32 list \<Rightarrow> u32 list \<times> u32 list) list" where
  "SHA2_UNROLLED_3 = [
   SHA2_NEXT 0 1 2 3 4 5 6 7 0x19A4C116 0 14 9 1, SHA2_NEXT 7 0 1 2 3 4 5 6 0x1E376C08 1 15 10 2,
   SHA2_NEXT 6 7 0 1 2 3 4 5 0x2748774C 2 0 11 3, SHA2_NEXT 5 6 7 0 1 2 3 4 0x34B0BCB5 3 1 12 4,
   SHA2_NEXT 4 5 6 7 0 1 2 3 0x391C0CB3 4 2 13 5, SHA2_NEXT 3 4 5 6 7 0 1 2 0x4ED8AA4A 5 3 14 6,
   SHA2_NEXT 2 3 4 5 6 7 0 1 0x5B9CCA4F 6 4 15 7, SHA2_NEXT 1 2 3 4 5 6 7 0 0x682E6FF3 7 5 0 8,
   SHA2_NEXT 0 1 2 3 4 5 6 7 0x748F82EE 8 6 1 9, SHA2_NEXT 7 0 1 2 3 4 5 6 0x78A5636F 9 7 2 10,
   SHA2_NEXT 6 7 0 1 2 3 4 5 0x84C87814 10 8 3 11, SHA2_NEXT 5 6 7 0 1 2 3 4 0x8CC70208 11 9 4 12,
   SHA2_NEXT 4 5 6 7 0 1 2 3 0x90BEFFFA 12 10 5 13, SHA2_NEXT 3 4 5 6 7 0 1 2 0xA4506CEB 13 11 6 14,
   SHA2_NEXT 2 3 4 5 6 7 0 1 0xBEF9A3F7 14 12 7 15, SHA2_NEXT 1 2 3 4 5 6 7 0 0xC67178F2 15 13 8 0]"

definition SHA2_ROUND_BODY :: "u32 list \<Rightarrow> (nat \<Rightarrow> u32) \<Rightarrow> u32 list \<Rightarrow> u32 list" where
  "SHA2_ROUND_BODY W0 inp r =
    (let (s, W) = run_calls (SHA2_UNROLLED_0 inp @ SHA2_UNROLLED_1 @ SHA2_UNROLLED_2 @ SHA2_UNROLLED_3) (r, W0)
     in SHA2_ADD r s)"

definition sph_dec32be_aligned :: "u8 list \<Rightarrow> u32" where
  "sph_dec32be_aligned p = be_load (take 4 p)"

definition sha2_round :: "u8 list \<Rightarrow> u32 list \<Rightarrow> u32 list" where
  "sha2_round data r = SHA2_ROUND_BODY (replicate 16 0) (\<lambda>x. sph_dec32be_aligned (drop (4 * x) data)) r"

definition sph_sha224_comp :: "u32 list \<Rightarrow> u32 list \<Rightarrow> u32 list" where
  "sph_sha224_comp msg val = SHA2_ROUND_BODY (replicate 16 0) (\<lambda>x. msg ! x) val"

section \<open>Both bodies compute the standard\<close>

definition sha256_funs :: "u32 sha2_funs" where
  "sha256_funs = \<lparr>
     Sigma0 = (\<lambda>x. word_rotr 2 x XOR word_rotr 13 x XOR word_rotr 22 x),
     Sigma1 = (\<lambda>x. word_rotr 6 x XOR word_rotr 11 x XOR word_rotr 25 x),
     sigma0 = (\<lambda>x. word_rotr 7 x XOR word_rotr 18 x XOR drop_bit 3 x),
     sigma1 = (\<lambda>x. word_rotr 17 x XOR word_rotr 19 x XOR drop_bit 10 x)\<rparr>"

lemma sph_K_roots:
  "list_all2 (root_frac 3 32) (take 64 first_primes) (map uint sph_K) \<and> length sph_K = 64"
  by code_simp

lemma H256_roots: "list_all2 (root_frac 2 32) (take 8 first_primes) (map uint H256)"
  by code_simp

lemma SPH_ROTR32_rotr: "0 < n \<Longrightarrow> n < 32 \<Longrightarrow> SPH_ROTR32 x n = word_rotr n x"
  using shift_or_rotl [of "32 - n" x] word_rotr_as_rotl [of n x] by (simp add: SPH_ROTR32_def SPH_ROTL32_def)

lemma sph_sigmas:
  "BSG2_0 x = Sigma0 sha256_funs x" "BSG2_1 x = Sigma1 sha256_funs x"
  "SSG2_0 x = sigma0 sha256_funs x" "SSG2_1 x = sigma1 sha256_funs x"
  by (simp_all add: BSG2_0_def BSG2_1_def SSG2_0_def SSG2_1_def sha256_funs_def SPH_ROTR32_rotr)

lemma sph_CH_Ch: "sph_CH x y z = sha2_Ch x y z"
  by (rule bit_word_eqI) (auto simp: sph_CH_def sha2_Ch_def bit_simps)

lemma sph_MAJ_Maj: "sph_MAJ x y z = sha2_Maj x y z"
  by (rule bit_word_eqI) (auto simp: sph_MAJ_def sha2_Maj_def bit_simps)

lemma SHA2_T_op: "SHA2_T a b c d e f g h k w r = sha2_op sha256_funs k w a b c d e f g h r"
  by (simp add: SHA2_T_def sha2_op_def sph_sigmas sph_CH_Ch sph_MAJ_Maj Let_def)

abbreviation regs_sched :: "u32 list \<times> u32 list \<Rightarrow> bool" where
  "regs_sched s \<equiv> length (fst s) = 8 \<and> length (snd s) = 16"

lemma sha2_circ_regs [simp]: "regs_sched s \<Longrightarrow> regs_sched (sha2_circ F K inp i s)"
  by (cases s) (simp add: sha2_circ_def Let_def)

lemmas sph_calls = SHA2_T_op sph_sigmas sha2_circ_def sha2_named_def Let_def case_prod_beta upt_16 same_calls_def
  numeral_2_eq_2 [symmetric]

lemma SHA2_SMALL_FIRST_circ:
  "same_calls regs_sched (SHA2_SMALL_FIRST inp) (map (sha2_circ sha256_funs sph_K inp) [0..<16])"
  by (simp add: SHA2_SMALL_FIRST_def SHA2_STEP1_def SHA2_MEXP1_def sph_calls) (simp add: sha2_op_def Let_def)

lemma SHA2_SMALL_LOOP_circ:
  "same_calls regs_sched (SHA2_SMALL_LOOP 16) (map (sha2_circ sha256_funs sph_K inp) [16..<32])"
  "same_calls regs_sched (SHA2_SMALL_LOOP 32) (map (sha2_circ sha256_funs sph_K inp) [32..<48])"
  "same_calls regs_sched (SHA2_SMALL_LOOP 48) (map (sha2_circ sha256_funs sph_K inp) [48..<64])"
  by (simp_all add: SHA2_SMALL_LOOP_def SHA2_STEP2_def SHA2_MEXP2_def sph_calls) (simp_all add: sha2_op_def Let_def)

lemma SHA2_UNROLLED_circ:
  "same_calls regs_sched (SHA2_UNROLLED_0 inp) (map (sha2_circ sha256_funs sph_K inp) [0..<16])"
  "same_calls regs_sched SHA2_UNROLLED_1 (map (sha2_circ sha256_funs sph_K inp) [16..<32])"
  "same_calls regs_sched SHA2_UNROLLED_2 (map (sha2_circ sha256_funs sph_K inp) [32..<48])"
  "same_calls regs_sched SHA2_UNROLLED_3 (map (sha2_circ sha256_funs sph_K inp) [48..<64])"
  by (simp_all add: SHA2_UNROLLED_0_def SHA2_UNROLLED_1_def SHA2_UNROLLED_2_def SHA2_UNROLLED_3_def
      SHA2_FIRST_def SHA2_NEXT_def sph_calls sph_K_def) (simp_all add: sha2_op_def Let_def)

lemma upt_64: "[0..<64] = [0..<16] @ [16..<32] @ [32..<48] @ [48..<64]"
proof -
  have "[0..<64] = [0..<16] @ [16..<64]" "[16..<64] = [16..<32] @ [32..<64]"
    "[32..<64] = [32..<48] @ [48..<64]"
    by (rule upt_join; simp)+
  then show ?thesis by (simp only:)
qed

text \<open>Sixty-four calls that agree with the circular schedule compress the sixteen input words.\<close>

lemma sha256_calls_compress:
  assumes "same_calls regs_sched fs0 (map (sha2_circ sha256_funs sph_K inp) [0..<16])"
    and "same_calls regs_sched fs1 (map (sha2_circ sha256_funs sph_K inp) [16..<32])"
    and "same_calls regs_sched fs2 (map (sha2_circ sha256_funs sph_K inp) [32..<48])"
    and "same_calls regs_sched fs3 (map (sha2_circ sha256_funs sph_K inp) [48..<64])"
    and "length r = 8" and "length W0 = 16"
  shows "fst (run_calls (fs0 @ fs1 @ fs2 @ fs3) (r, W0)) = sha2_rounds sha256_funs sph_K (map inp [0..<16]) r"
proof -
  let ?m = "map inp [0..<16]"
  have "same_calls regs_sched (fs0 @ fs1 @ fs2 @ fs3) (map (sha2_circ sha256_funs sph_K inp) [0..<64])"
    unfolding upt_64 map_append by (intro same_calls_append assms)
  then have "run_calls (fs0 @ fs1 @ fs2 @ fs3) (r, W0) = fold (sha2_circ sha256_funs sph_K inp) [0..<64] (r, W0)"
    using assms(5,6) by (simp add: same_calls_run [where P = regs_sched] run_calls_map)
  also have "sha2_circ sha256_funs sph_K inp = sha2_circ sha256_funs sph_K (\<lambda>i. ?m ! i)"
    by (auto simp: fun_eq_iff sha2_circ_def Let_def)
  finally show ?thesis
    using sha2_circular_rounds [of ?m W0 r sph_K sha256_funs] sph_K_roots assms(5,6) by simp
qed

lemma SHA2_ROUND_BODY_compress:
  assumes "length W0 = 16" and "length r = 8"
  shows "SHA2_ROUND_BODY W0 inp r = sha2_compress sha256_funs sph_K (map inp [0..<16]) r"
  using sha256_calls_compress [OF SHA2_UNROLLED_circ assms(2,1)] sha2_compress_adds [OF assms(2)]
  by (simp add: SHA2_ROUND_BODY_def SHA2_ADD_def case_prod_beta Let_def)

lemma SHA2_ROUND_BODY_small_compress:
  assumes "length W0 = 16" and "length r = 8"
  shows "SHA2_ROUND_BODY_small W0 inp r = sha2_compress sha256_funs sph_K (map inp [0..<16]) r"
  using sha256_calls_compress [OF SHA2_SMALL_FIRST_circ SHA2_SMALL_LOOP_circ assms(2,1)] sha2_compress_adds [OF assms(2)]
  by (simp add: SHA2_ROUND_BODY_small_def SHA2_ADD_def case_prod_beta Let_def)

text \<open>The compression of a block of bytes, read in big endian order.\<close>

definition be_words :: "u8 list \<Rightarrow> u32 list" where
  "be_words blk = map (\<lambda>i. be_load (take 4 (drop (4 * i) blk))) [0..<16]"

definition sha256_block :: "u32 list \<Rightarrow> u8 list \<Rightarrow> u32 list" where
  "sha256_block h blk = sha2_compress sha256_funs sph_K (be_words blk) h"

lemma length_be_words [simp]: "length (be_words blk) = 16"
  by (simp add: be_words_def)

lemma length_sha256_block [simp]: "length h = 8 \<Longrightarrow> length (sha256_block h blk) = 8"
  by (simp add: sha256_block_def)

lemma sha2_round_block: "length r = 8 \<Longrightarrow> sha2_round data r = sha256_block r data"
  by (simp add: sha2_round_def SHA2_ROUND_BODY_compress sha256_block_def be_words_def sph_dec32be_aligned_def)

text \<open>The two bodies of the compression macro agree with the standard, and so with each other,
  on every chaining value and block, whatever their uninitialised schedule held.\<close>

theorem sph_sha2_bodies:
  assumes "length W0 = 16" and "length W1 = 16" and "length r = 8"
  shows "SHA2_ROUND_BODY W0 inp r = sha2_compress sha256_funs sph_K (map inp [0..<16]) r \<and>
    SHA2_ROUND_BODY_small W1 inp r = sha2_compress sha256_funs sph_K (map inp [0..<16]) r"
  using assms by (simp_all add: SHA2_ROUND_BODY_compress SHA2_ROUND_BODY_small_compress)

theorem sph_sha2_bodies_witness:
  "SHA2_ROUND_BODY (replicate 16 5) (\<lambda>i. of_nat i) H256 = sha2_compress sha256_funs sph_K (map of_nat [0..<16]) H256"
  using sph_sha2_bodies [of "replicate 16 5" "replicate 16 6" H256 "\<lambda>i. of_nat i"] by (simp add: H256_def)

end
