(* ===== verification/Sha256_Impl.thy ===== *)
theory Sha256_Impl
  imports Sha256_Sph
begin

text \<open>
  Two more implementations of the SHA-256 compression function: \<open>sha256_transform\<close> of
  \<^verbatim>\<open>src/src/crypto/x25x/sph/sha2.c\<close>, which expands the whole schedule first and rotates the register
  names by index arithmetic, and \<open>Transform\<close> of \<^verbatim>\<open>src/src/crypto/verushash/sha256.cpp\<close>, unrolled
  with the schedule word assigned in the argument list and the last two not stored.
\<close>

unbundle bit_operations_syntax

section \<open>\<open>x25x/sph/sha2.c\<close>\<close>

definition sha256_h :: "u32 list" where
  "sha256_h = [0x6A09E667, 0xBB67AE85, 0x3C6EF372, 0xA54FF53A, 0x510E527F, 0x9B05688C, 0x1F83D9AB, 0x5BE0CD19]"

definition sha256_k :: "u32 list" where
  "sha256_k = [
   0x428A2F98, 0x71374491, 0xB5C0FBCF, 0xE9B5DBA5, 0x3956C25B, 0x59F111F1, 0x923F82A4, 0xAB1C5ED5,
   0xD807AA98, 0x12835B01, 0x243185BE, 0x550C7DC3, 0x72BE5D74, 0x80DEB1FE, 0x9BDC06A7, 0xC19BF174,
   0xE49B69C1, 0xEFBE4786, 0x0FC19DC6, 0x240CA1CC, 0x2DE92C6F, 0x4A7484AA, 0x5CB0A9DC, 0x76F988DA,
   0x983E5152, 0xA831C66D, 0xB00327C8, 0xBF597FC7, 0xC6E00BF3, 0xD5A79147, 0x06CA6351, 0x14292967,
   0x27B70A85, 0x2E1B2138, 0x4D2C6DFC, 0x53380D13, 0x650A7354, 0x766A0ABB, 0x81C2C92E, 0x92722C85,
   0xA2BFE8A1, 0xA81A664B, 0xC24B8B70, 0xC76C51A3, 0xD192E819, 0xD6990624, 0xF40E3585, 0x106AA070,
   0x19A4C116, 0x1E376C08, 0x2748774C, 0x34B0BCB5, 0x391C0CB3, 0x4ED8AA4A, 0x5B9CCA4F, 0x682E6FF3,
   0x748F82EE, 0x78A5636F, 0x84C87814, 0x8CC70208, 0x90BEFFFA, 0xA4506CEB, 0xBEF9A3F7, 0xC67178F2]"

definition sha256_init :: "u32 list" where
  "sha256_init = sha256_h"

definition sha_Ch :: "u32 \<Rightarrow> u32 \<Rightarrow> u32 \<Rightarrow> u32" where
  "sha_Ch x y z = (x AND (y XOR z)) XOR z"

definition sha_Maj :: "u32 \<Rightarrow> u32 \<Rightarrow> u32 \<Rightarrow> u32" where
  "sha_Maj x y z = (x AND (y OR z)) OR (y AND z)"

definition sha_ROTR :: "u32 \<Rightarrow> nat \<Rightarrow> u32" where
  "sha_ROTR x n = drop_bit n x OR push_bit (32 - n) x"

definition sha_S0 :: "u32 \<Rightarrow> u32" where
  "sha_S0 x = sha_ROTR x 2 XOR sha_ROTR x 13 XOR sha_ROTR x 22"

definition sha_S1 :: "u32 \<Rightarrow> u32" where
  "sha_S1 x = sha_ROTR x 6 XOR sha_ROTR x 11 XOR sha_ROTR x 25"

definition sha_s0 :: "u32 \<Rightarrow> u32" where
  "sha_s0 x = sha_ROTR x 7 XOR sha_ROTR x 18 XOR drop_bit 3 x"

definition sha_s1 :: "u32 \<Rightarrow> u32" where
  "sha_s1 x = sha_ROTR x 17 XOR sha_ROTR x 19 XOR drop_bit 10 x"

definition swab32 :: "u32 \<Rightarrow> u32" where
  "swab32 x = push_bit 24 (x AND 0x000000FF) OR push_bit 8 (x AND 0x0000FF00) OR
     drop_bit 8 (x AND 0x00FF0000) OR drop_bit 24 (x AND 0xFF000000)"

definition RND :: "nat \<Rightarrow> nat \<Rightarrow> nat \<Rightarrow> nat \<Rightarrow> nat \<Rightarrow> nat \<Rightarrow> nat \<Rightarrow> nat \<Rightarrow> u32 \<Rightarrow> u32 list \<Rightarrow> u32 list" where
  "RND a b c d e f g h k S =
    (let t0 = S ! h + sha_S1 (S ! e) + sha_Ch (S ! e) (S ! f) (S ! g) + k;
         t1 = sha_S0 (S ! a) + sha_Maj (S ! a) (S ! b) (S ! c);
         S = S[d := S ! d + t0]
     in S[h := t0 + t1])"

definition RNDr :: "u32 list \<Rightarrow> nat \<Rightarrow> u32 list \<Rightarrow> u32 list" where
  "RNDr W i S = RND ((64 - i) mod 8) ((65 - i) mod 8) ((66 - i) mod 8) ((67 - i) mod 8)
     ((68 - i) mod 8) ((69 - i) mod 8) ((70 - i) mod 8) ((71 - i) mod 8) (W ! i + sha256_k ! i) S"

text \<open>Two words of the schedule per turn of the loop.\<close>

definition sha256_schedule_step :: "nat \<Rightarrow> u32 list \<Rightarrow> u32 list" where
  "sha256_schedule_step i W =
    (let W = W[i := sha_s1 (W ! (i - 2)) + W ! (i - 7) + sha_s0 (W ! (i - 15)) + W ! (i - 16)]
     in W[i + 1 := sha_s1 (W ! (i - 1)) + W ! (i - 6) + sha_s0 (W ! (i - 14)) + W ! (i - 15)])"

text \<open>\<open>W0\<close> is what the array \<open>W\<close> holds before it is written.\<close>

definition sha256_transform :: "u32 list \<Rightarrow> u32 list \<Rightarrow> u32 list \<Rightarrow> bool \<Rightarrow> u32 list" where
  "sha256_transform W0 state block swap =
    (let W = (if swap then map swab32 (take 16 block) else take 16 block) @ drop 16 W0;
         W = fold sha256_schedule_step (map (\<lambda>j. 16 + 2 * j) [0..<24]) W;
         S = state;
         S = fold (RNDr W) [0..<64] S
     in fold (\<lambda>i state. state[i := state ! i + S ! i]) [0..<8] state)"

section \<open>\<open>verushash/sha256.cpp\<close>\<close>

definition cpp_Ch :: "u32 \<Rightarrow> u32 \<Rightarrow> u32 \<Rightarrow> u32" where
  "cpp_Ch x y z = z XOR (x AND (y XOR z))"

definition cpp_Maj :: "u32 \<Rightarrow> u32 \<Rightarrow> u32 \<Rightarrow> u32" where
  "cpp_Maj x y z = (x AND y) OR (z AND (x OR y))"

definition cpp_Sigma0 :: "u32 \<Rightarrow> u32" where
  "cpp_Sigma0 x = (drop_bit 2 x OR push_bit 30 x) XOR (drop_bit 13 x OR push_bit 19 x) XOR (drop_bit 22 x OR push_bit 10 x)"

definition cpp_Sigma1 :: "u32 \<Rightarrow> u32" where
  "cpp_Sigma1 x = (drop_bit 6 x OR push_bit 26 x) XOR (drop_bit 11 x OR push_bit 21 x) XOR (drop_bit 25 x OR push_bit 7 x)"

definition cpp_sigma0 :: "u32 \<Rightarrow> u32" where
  "cpp_sigma0 x = (drop_bit 7 x OR push_bit 25 x) XOR (drop_bit 18 x OR push_bit 14 x) XOR drop_bit 3 x"

definition cpp_sigma1 :: "u32 \<Rightarrow> u32" where
  "cpp_sigma1 x = (drop_bit 17 x OR push_bit 15 x) XOR (drop_bit 19 x OR push_bit 13 x) XOR drop_bit 10 x"

definition sha256_Round ::
  "nat \<Rightarrow> nat \<Rightarrow> nat \<Rightarrow> nat \<Rightarrow> nat \<Rightarrow> nat \<Rightarrow> nat \<Rightarrow> nat \<Rightarrow> u32 \<Rightarrow> u32 \<Rightarrow> u32 list \<Rightarrow> u32 list" where
  "sha256_Round a b c d e f g h k w r =
    (let t1 = r ! h + cpp_Sigma1 (r ! e) + cpp_Ch (r ! e) (r ! f) (r ! g) + k + w;
         t2 = cpp_Sigma0 (r ! a) + cpp_Maj (r ! a) (r ! b) (r ! c);
         r = r[d := r ! d + t1]
     in r[h := t1 + t2])"

definition sha256_Initialize :: "u32 list" where
  "sha256_Initialize = [0x6A09E667, 0xBB67AE85, 0x3C6EF372, 0xA54FF53A, 0x510E527F, 0x9B05688C, 0x1F83D9AB, 0x5BE0CD19]"

definition ReadBE32 :: "u8 list \<Rightarrow> u32" where
  "ReadBE32 p = be_load (take 4 p)"

text \<open>The three kinds of argument: a word read, a word updated in place, a word only computed.\<close>

definition Round_read ::
  "nat \<Rightarrow> nat \<Rightarrow> nat \<Rightarrow> nat \<Rightarrow> nat \<Rightarrow> nat \<Rightarrow> nat \<Rightarrow> nat \<Rightarrow> u32 \<Rightarrow> nat \<Rightarrow> nat \<Rightarrow> u8 list \<Rightarrow>
   u32 list \<times> u32 list \<Rightarrow> u32 list \<times> u32 list" where
  "Round_read a b c d e f g h k i off chunk = (\<lambda>(r, w).
    let w = w[i := ReadBE32 (drop off chunk)] in (sha256_Round a b c d e f g h k (w ! i) r, w))"

definition Round_add ::
  "nat \<Rightarrow> nat \<Rightarrow> nat \<Rightarrow> nat \<Rightarrow> nat \<Rightarrow> nat \<Rightarrow> nat \<Rightarrow> nat \<Rightarrow> u32 \<Rightarrow> nat \<Rightarrow> nat \<Rightarrow> nat \<Rightarrow> nat \<Rightarrow>
   u32 list \<times> u32 list \<Rightarrow> u32 list \<times> u32 list" where
  "Round_add a b c d e f g h k i j14 j9 j1 = (\<lambda>(r, w).
    let w = w[i := w ! i + (cpp_sigma1 (w ! j14) + w ! j9 + cpp_sigma0 (w ! j1))]
    in (sha256_Round a b c d e f g h k (w ! i) r, w))"

definition Round_last ::
  "nat \<Rightarrow> nat \<Rightarrow> nat \<Rightarrow> nat \<Rightarrow> nat \<Rightarrow> nat \<Rightarrow> nat \<Rightarrow> nat \<Rightarrow> u32 \<Rightarrow> nat \<Rightarrow> nat \<Rightarrow> nat \<Rightarrow> nat \<Rightarrow>
   u32 list \<times> u32 list \<Rightarrow> u32 list \<times> u32 list" where
  "Round_last a b c d e f g h k i j14 j9 j1 = (\<lambda>(r, w).
    (sha256_Round a b c d e f g h k (w ! i + cpp_sigma1 (w ! j14) + w ! j9 + cpp_sigma0 (w ! j1)) r, w))"

definition sha256_Transform_0 :: "u8 list \<Rightarrow> (u32 list \<times> u32 list \<Rightarrow> u32 list \<times> u32 list) list" where
  "sha256_Transform_0 chunk = [
   Round_read 0 1 2 3 4 5 6 7 0x428A2F98 0 0 chunk, Round_read 7 0 1 2 3 4 5 6 0x71374491 1 4 chunk,
   Round_read 6 7 0 1 2 3 4 5 0xB5C0FBCF 2 8 chunk, Round_read 5 6 7 0 1 2 3 4 0xE9B5DBA5 3 12 chunk,
   Round_read 4 5 6 7 0 1 2 3 0x3956C25B 4 16 chunk, Round_read 3 4 5 6 7 0 1 2 0x59F111F1 5 20 chunk,
   Round_read 2 3 4 5 6 7 0 1 0x923F82A4 6 24 chunk, Round_read 1 2 3 4 5 6 7 0 0xAB1C5ED5 7 28 chunk,
   Round_read 0 1 2 3 4 5 6 7 0xD807AA98 8 32 chunk, Round_read 7 0 1 2 3 4 5 6 0x12835B01 9 36 chunk,
   Round_read 6 7 0 1 2 3 4 5 0x243185BE 10 40 chunk, Round_read 5 6 7 0 1 2 3 4 0x550C7DC3 11 44 chunk,
   Round_read 4 5 6 7 0 1 2 3 0x72BE5D74 12 48 chunk, Round_read 3 4 5 6 7 0 1 2 0x80DEB1FE 13 52 chunk,
   Round_read 2 3 4 5 6 7 0 1 0x9BDC06A7 14 56 chunk, Round_read 1 2 3 4 5 6 7 0 0xC19BF174 15 60 chunk]"

definition sha256_Transform_1 :: "(u32 list \<times> u32 list \<Rightarrow> u32 list \<times> u32 list) list" where
  "sha256_Transform_1 = [
   Round_add 0 1 2 3 4 5 6 7 0xE49B69C1 0 14 9 1, Round_add 7 0 1 2 3 4 5 6 0xEFBE4786 1 15 10 2,
   Round_add 6 7 0 1 2 3 4 5 0x0FC19DC6 2 0 11 3, Round_add 5 6 7 0 1 2 3 4 0x240CA1CC 3 1 12 4,
   Round_add 4 5 6 7 0 1 2 3 0x2DE92C6F 4 2 13 5, Round_add 3 4 5 6 7 0 1 2 0x4A7484AA 5 3 14 6,
   Round_add 2 3 4 5 6 7 0 1 0x5CB0A9DC 6 4 15 7, Round_add 1 2 3 4 5 6 7 0 0x76F988DA 7 5 0 8,
   Round_add 0 1 2 3 4 5 6 7 0x983E5152 8 6 1 9, Round_add 7 0 1 2 3 4 5 6 0xA831C66D 9 7 2 10,
   Round_add 6 7 0 1 2 3 4 5 0xB00327C8 10 8 3 11, Round_add 5 6 7 0 1 2 3 4 0xBF597FC7 11 9 4 12,
   Round_add 4 5 6 7 0 1 2 3 0xC6E00BF3 12 10 5 13, Round_add 3 4 5 6 7 0 1 2 0xD5A79147 13 11 6 14,
   Round_add 2 3 4 5 6 7 0 1 0x06CA6351 14 12 7 15, Round_add 1 2 3 4 5 6 7 0 0x14292967 15 13 8 0]"

definition sha256_Transform_2 :: "(u32 list \<times> u32 list \<Rightarrow> u32 list \<times> u32 list) list" where
  "sha256_Transform_2 = [
   Round_add 0 1 2 3 4 5 6 7 0x27B70A85 0 14 9 1, Round_add 7 0 1 2 3 4 5 6 0x2E1B2138 1 15 10 2,
   Round_add 6 7 0 1 2 3 4 5 0x4D2C6DFC 2 0 11 3, Round_add 5 6 7 0 1 2 3 4 0x53380D13 3 1 12 4,
   Round_add 4 5 6 7 0 1 2 3 0x650A7354 4 2 13 5, Round_add 3 4 5 6 7 0 1 2 0x766A0ABB 5 3 14 6,
   Round_add 2 3 4 5 6 7 0 1 0x81C2C92E 6 4 15 7, Round_add 1 2 3 4 5 6 7 0 0x92722C85 7 5 0 8,
   Round_add 0 1 2 3 4 5 6 7 0xA2BFE8A1 8 6 1 9, Round_add 7 0 1 2 3 4 5 6 0xA81A664B 9 7 2 10,
   Round_add 6 7 0 1 2 3 4 5 0xC24B8B70 10 8 3 11, Round_add 5 6 7 0 1 2 3 4 0xC76C51A3 11 9 4 12,
   Round_add 4 5 6 7 0 1 2 3 0xD192E819 12 10 5 13, Round_add 3 4 5 6 7 0 1 2 0xD6990624 13 11 6 14,
   Round_add 2 3 4 5 6 7 0 1 0xF40E3585 14 12 7 15, Round_add 1 2 3 4 5 6 7 0 0x106AA070 15 13 8 0]"

definition sha256_Transform_3 :: "(u32 list \<times> u32 list \<Rightarrow> u32 list \<times> u32 list) list" where
  "sha256_Transform_3 = [
   Round_add 0 1 2 3 4 5 6 7 0x19A4C116 0 14 9 1, Round_add 7 0 1 2 3 4 5 6 0x1E376C08 1 15 10 2,
   Round_add 6 7 0 1 2 3 4 5 0x2748774C 2 0 11 3, Round_add 5 6 7 0 1 2 3 4 0x34B0BCB5 3 1 12 4,
   Round_add 4 5 6 7 0 1 2 3 0x391C0CB3 4 2 13 5, Round_add 3 4 5 6 7 0 1 2 0x4ED8AA4A 5 3 14 6,
   Round_add 2 3 4 5 6 7 0 1 0x5B9CCA4F 6 4 15 7, Round_add 1 2 3 4 5 6 7 0 0x682E6FF3 7 5 0 8,
   Round_add 0 1 2 3 4 5 6 7 0x748F82EE 8 6 1 9, Round_add 7 0 1 2 3 4 5 6 0x78A5636F 9 7 2 10,
   Round_add 6 7 0 1 2 3 4 5 0x84C87814 10 8 3 11, Round_add 5 6 7 0 1 2 3 4 0x8CC70208 11 9 4 12,
   Round_add 4 5 6 7 0 1 2 3 0x90BEFFFA 12 10 5 13, Round_add 3 4 5 6 7 0 1 2 0xA4506CEB 13 11 6 14,
   Round_last 2 3 4 5 6 7 0 1 0xBEF9A3F7 14 12 7 15, Round_last 1 2 3 4 5 6 7 0 0xC67178F2 15 13 8 0]"

definition sha256_Transform :: "u32 list \<Rightarrow> u8 list \<Rightarrow> u32 list" where
  "sha256_Transform s chunk =
    (let (r, w) = run_calls (sha256_Transform_0 chunk @ sha256_Transform_1 @ sha256_Transform_2 @ sha256_Transform_3)
           (s, replicate 16 0)
     in [s ! 0 + r ! 0, s ! 1 + r ! 1, s ! 2 + r ! 2, s ! 3 + r ! 3,
         s ! 4 + r ! 4, s ! 5 + r ! 5, s ! 6 + r ! 6, s ! 7 + r ! 7])"

section \<open>Both compute the standard\<close>

lemma sha256_k_K: "sha256_k = sph_K"
  by (simp add: sha256_k_def sph_K_def)

lemma or_shift_rotr: "0 < n \<Longrightarrow> n < 32 \<Longrightarrow> drop_bit n x OR push_bit (32 - n) x = word_rotr n x" for x :: u32
  using SPH_ROTR32_rotr [of n x] by (simp add: SPH_ROTR32_def SPH_ROTL32_def or.commute)

lemma sha_sigmas:
  "sha_S0 x = Sigma0 sha256_funs x" "sha_S1 x = Sigma1 sha256_funs x"
  "sha_s0 x = sigma0 sha256_funs x" "sha_s1 x = sigma1 sha256_funs x"
  by (simp_all add: sha_S0_def sha_S1_def sha_s0_def sha_s1_def sha_ROTR_def sha256_funs_def
      or_shift_rotr [of 2, simplified] or_shift_rotr [of 13, simplified] or_shift_rotr [of 22, simplified]
      or_shift_rotr [of 6, simplified] or_shift_rotr [of 11, simplified] or_shift_rotr [of 25, simplified]
      or_shift_rotr [of 7, simplified] or_shift_rotr [of 18, simplified] or_shift_rotr [of 17, simplified]
      or_shift_rotr [of 19, simplified])

lemma cpp_sigmas:
  "cpp_Sigma0 x = Sigma0 sha256_funs x" "cpp_Sigma1 x = Sigma1 sha256_funs x"
  "cpp_sigma0 x = sigma0 sha256_funs x" "cpp_sigma1 x = sigma1 sha256_funs x"
  unfolding sha_sigmas [symmetric]
  by (simp_all add: sha_S0_def sha_S1_def sha_s0_def sha_s1_def sha_ROTR_def
      cpp_Sigma0_def cpp_Sigma1_def cpp_sigma0_def cpp_sigma1_def)

lemma sha_Ch_Maj:
  "sha_Ch x y z = sha2_Ch x y z" "sha_Maj x y z = sha2_Maj x y z"
  "cpp_Ch x y z = sha2_Ch x y z" "cpp_Maj x y z = sha2_Maj x y z"
  by (rule bit_word_eqI;
      auto simp: sha_Ch_def sha_Maj_def cpp_Ch_def cpp_Maj_def sha2_Ch_def sha2_Maj_def bit_simps)+

lemma RND_op: "RND a b c d e f g h (w + k) S = sha2_op sha256_funs k w a b c d e f g h S"
  by (simp add: RND_def sha2_op_def sha_sigmas sha_Ch_Maj Let_def ac_simps)

lemma sha256_Round_op: "sha256_Round a b c d e f g h k w r = sha2_op sha256_funs k w a b c d e f g h r"
  by (simp add: sha256_Round_def sha2_op_def cpp_sigmas sha_Ch_Maj Let_def)

text \<open>The register arithmetic of \<open>RNDr\<close>.\<close>

lemma RNDr_named:
  assumes "i < 64"
  shows "RNDr W i S = sha2_named sha256_funs i (sha256_k ! i) (W ! i) S"
proof -
  have idx: "(64 + k - i) mod 8 = (7 * i + k) mod 8" for k
  proof -
    have "(64 + k - i) mod 8 = (64 + k - i + 8 * i) mod 8" by simp
    also have "64 + k - i + 8 * i = 7 * i + k + 8 * 8" using assms by simp
    finally show ?thesis by (simp only: mod_mult_self2)
  qed
  show ?thesis
    using idx [of 0] idx [of 1] idx [of 2] idx [of 3] idx [of 4] idx [of 5] idx [of 6] idx [of 7]
    by (simp add: RNDr_def sha2_named_def RND_op)
qed

lemma sha256_schedule_array:
  "fold sha256_schedule_step (map (\<lambda>j. 16 + 2 * j) [0..<24]) W = sha2_array sha256_funs 64 W"
proof -
  let ?g = "\<lambda>t W. W[t := sigma1 sha256_funs (W ! (t - 2)) + W ! (t - 7) + sigma0 sha256_funs (W ! (t - 15)) + W ! (t - 16)]"
  have "fold sha256_schedule_step (map (\<lambda>j. 16 + 2 * j) [0..<24]) W = fold ?g [16..<16 + 2 * 24] W"
    by (rule fold_pairs) (simp add: sha256_schedule_step_def sha_sigmas Let_def eval_nat_numeral)
  moreover have "16 + 2 * 24 = (64 :: nat)" by simp
  ultimately show ?thesis unfolding sha2_array_def by (simp only:)
qed

lemma sha256_transform_compress:
  assumes "length state = 8" and "16 \<le> length block" and "length W0 = 64"
  shows "sha256_transform W0 state block swap =
    sha2_compress sha256_funs sph_K (if swap then map swab32 (take 16 block) else take 16 block) state"
proof -
  define m where "m = (if swap then map swab32 (take 16 block) else take 16 block)"
  define W where "W = sha2_array sha256_funs 64 (m @ drop 16 W0)"
  have m: "length m = 16" using assms(2) by (simp add: m_def)
  have "take 64 W = sha2_sched sha256_funs m 64"
    using sha2_array_sched [of 64 "m @ drop 16 W0" sha256_funs] m assms(3) by (simp add: W_def)
  then have W: "W ! i = sha2_sched sha256_funs m 64 ! i" if "i < 64" for i
    using that by (metis nth_take)
  have "fold (RNDr W) [0..<64] state =
      fold (\<lambda>i. sha2_named sha256_funs i (sph_K ! i) (sha2_sched sha256_funs m 64 ! i)) [0..<64] state"
    by (rule fold_cong) (simp_all add: fun_eq_iff RNDr_named sha256_k_K W del: upt_rec_numeral)
  also have "\<dots> = sha2_rounds sha256_funs sph_K m state"
    unfolding sha2_rounds_def Let_def sph_K_roots [THEN conjunct2]
    by (rule sha2_named_rounds) (simp_all add: assms(1))
  finally have r: "fold (RNDr W) [0..<64] state = sha2_rounds sha256_funs sph_K m state" .
  have adds: "fold (\<lambda>i state. state[i := state ! i + S ! i]) [0..<8] state = map2 (+) state S"
    if "length S = 8" for S
    using fold_update_map [of 8 state "\<lambda>i x. x + S ! i"] assms(1) that
    by (auto intro!: nth_equalityI)
  show ?thesis
    using adds [OF length_sha2_rounds [OF assms(1), of sha256_funs sph_K m]]
    unfolding sha256_transform_def Let_def sha256_schedule_array m_def [symmetric] W_def [symmetric] r
      sha2_compress_def .
qed

section \<open>The unrolled \<open>Transform\<close>\<close>

abbreviation chunk_word :: "u8 list \<Rightarrow> nat \<Rightarrow> u32" where
  "chunk_word chunk i \<equiv> be_load (take 4 (drop (4 * i) chunk))"

lemmas cpp_calls = sha256_Round_op cpp_sigmas sha2_circ_def sha2_named_def Let_def case_prod_beta upt_16
  same_calls_def numeral_2_eq_2 [symmetric] sph_K_def ReadBE32_def

lemma sha256_Transform_circ:
  "same_calls regs_sched (sha256_Transform_0 chunk) (map (sha2_circ sha256_funs sph_K (chunk_word chunk)) [0..<16])"
  "same_calls regs_sched sha256_Transform_1 (map (sha2_circ sha256_funs sph_K inp) [16..<32])"
  "same_calls regs_sched sha256_Transform_2 (map (sha2_circ sha256_funs sph_K inp) [32..<48])"
  "same_calls regs_sched (take 14 sha256_Transform_3) (map (sha2_circ sha256_funs sph_K inp) [48..<62])"
  by (simp_all add: sha256_Transform_0_def sha256_Transform_1_def sha256_Transform_2_def sha256_Transform_3_def
      Round_read_def Round_add_def cpp_calls) (simp_all add: sha2_op_def Let_def ac_simps)

text \<open>The last two steps read no word that the other would have stored.\<close>

lemma sha256_Transform_last:
  assumes "regs_sched s"
  shows "fst (run_calls (drop 14 sha256_Transform_3) s) =
    fst (sha2_circ sha256_funs sph_K inp 63 (sha2_circ sha256_funs sph_K inp 62 s))"
  using assms
  by (cases s) (simp add: sha256_Transform_3_def run_calls_def Round_last_def sha256_Round_op cpp_sigmas sha2_circ_def
      sha2_named_def sph_K_def numeral_2_eq_2 [symmetric], simp add: ac_simps)

lemma fold_circ_regs: "regs_sched s \<Longrightarrow> regs_sched (fold (sha2_circ F K inp) js s)"
  by (induction js arbitrary: s) (simp_all del: split_paired_All)

lemma sha256_Transform_block:
  assumes "length s = 8"
  shows "sha256_Transform s chunk = sha256_block s chunk"
proof -
  let ?inp = "chunk_word chunk" and ?W0 = "replicate 16 (0 :: u32)"
  let ?circ = "sha2_circ sha256_funs sph_K ?inp"
  let ?fs = "sha256_Transform_0 chunk @ sha256_Transform_1 @ sha256_Transform_2 @ take 14 sha256_Transform_3"
  have upt: "[0..<62] = [0..<16] @ [16..<32] @ [32..<48] @ [48..<62]"
  proof -
    have "[0..<62] = [0..<16] @ [16..<62]" "[16..<62] = [16..<32] @ [32..<62]"
      "[32..<62] = [32..<48] @ [48..<62]"
      by (rule upt_join; simp)+
    then show ?thesis by (simp only:)
  qed
  have "same_calls regs_sched ?fs (map ?circ [0..<62])"
    unfolding upt map_append by (intro same_calls_append sha256_Transform_circ)
  then have first: "run_calls ?fs (s, ?W0) = fold ?circ [0..<62] (s, ?W0)"
    using assms by (simp add: same_calls_run [where P = regs_sched] run_calls_map)
  have split: "sha256_Transform_0 chunk @ sha256_Transform_1 @ sha256_Transform_2 @ sha256_Transform_3 =
      ?fs @ drop 14 sha256_Transform_3" by simp
  have regs: "regs_sched (fold ?circ [0..<62] (s, ?W0))" using assms by (intro fold_circ_regs) simp
  have "fst (run_calls (?fs @ drop 14 sha256_Transform_3) (s, ?W0)) =
      fst (run_calls (drop 14 sha256_Transform_3) (run_calls ?fs (s, ?W0)))"
    by (simp only: run_calls_def fold_append comp_def)
  also have "\<dots> = fst (fold ?circ ([0..<62] @ [62, 63]) (s, ?W0))"
    unfolding first sha256_Transform_last [OF regs, of ?inp] by (simp only: fold_append comp_def fold_simps)
  also have "[0..<62] @ [62, 63] = [0..<64 :: nat]"
    using upt_join [of 0 62 64] by simp
  also have "?circ = sha2_circ sha256_funs sph_K (\<lambda>i. be_words chunk ! i)"
    by (auto simp: fun_eq_iff sha2_circ_def Let_def be_words_def)
  also have "fst (fold \<dots> [0..<64] (s, ?W0)) = sha2_rounds sha256_funs sph_K (be_words chunk) s"
    using sha2_circular_rounds [of "be_words chunk" ?W0 s sph_K sha256_funs] sph_K_roots assms by simp
  finally show ?thesis
    using sha2_compress_adds [OF assms, of sha256_funs sph_K "be_words chunk"]
    unfolding sha256_Transform_def split case_prod_beta Let_def sha256_block_def by (simp only:)
qed

end
