(* ===== verification/Sha256.thy ===== *)
theory Sha256
  imports Sha256_Impl Md_Stream
begin

text \<open>
  SHA-256 of whole messages: \<open>sha256d\<close>, the double hash of \<^verbatim>\<open>src/src/crypto/x25x/sph/sha2.c\<close>, and the
  streaming class \<open>CSHA256\<close> of \<^verbatim>\<open>src/src/crypto/verushash/sha256.cpp\<close>, which the pool uses for
  Merkle trees and block hashes. The reference \<open>sha256_hash\<close> pads with the 64-bit length in big
  endian order and folds the compression function of the standard.
\<close>

unbundle bit_operations_syntax

section \<open>\<open>sha256d\<close>\<close>

text \<open>
  The loop \<open>for (r = len; r > -9; r -= 64)\<close>. \<open>T\<close> is the sixteen-word buffer seen as bytes; its
  content before the loop and the unwritten part of the schedule (\<open>W0\<close>) are parameters.
\<close>

definition sha256d_block :: "u8 list \<Rightarrow> u8 list \<Rightarrow> int \<Rightarrow> u8 list" where
  "sha256d_block T data r =
    (let T = (if r < 64 then replicate 64 0 else T);
         n = (if 64 < r then 64 else if r < 0 then 0 else r);
         T = memcpy_at T 0 (take (nat n) (drop (nat (int (length data) - r)) data))
     in if 0 \<le> r \<and> r < 64 then T[nat r := 0x80] else T)"

function sha256d_loop :: "u32 list \<Rightarrow> u32 list \<Rightarrow> u8 list \<Rightarrow> u8 list \<Rightarrow> int \<Rightarrow> u32 list" where
  "sha256d_loop W0 S T data r =
    (if -9 < r
     then let W = be_words (sha256d_block T data r);
              W = (if r < 56 then W[15 := of_int (8 * int (length data))] else W)
          in sha256d_loop W0 (sha256_transform W0 S W False) (concat (map (le_store 4) W)) data (r - 64)
     else S)"
  by pat_completeness auto
termination
  by (relation "measure (\<lambda>(W0, S, T, data, r). nat (r + 9))") auto

declare sha256d_loop.simps [simp del]

definition sha256d_hash1 :: "u32 list" where
  "sha256d_hash1 = [0, 0, 0, 0, 0, 0, 0, 0, 0x80000000, 0, 0, 0, 0, 0, 0, 0x100]"

definition sha256d :: "u32 list \<Rightarrow> u8 list \<Rightarrow> u8 list \<Rightarrow> u8 list" where
  "sha256d W0 T0 data =
    (let S = sha256d_loop W0 sha256_init T0 data (int (length data));
         S = take 8 S @ drop 8 sha256d_hash1;
         T = sha256_transform W0 sha256_init S False
     in concat (map (\<lambda>i. be_store 4 (T ! i)) [0..<8]))"

section \<open>\<open>CSHA256\<close>\<close>

type_synonym CSHA256 = "u32 list md_ctx"

definition CSHA256_new :: "u8 list \<Rightarrow> CSHA256" where
  "CSHA256_new junk = \<lparr>md_s = sha256_Initialize, md_buf = junk, md_bytes = 0\<rparr>"

definition CSHA256_Write :: "CSHA256 \<Rightarrow> u8 list \<Rightarrow> CSHA256" where
  "CSHA256_Write c data = ctx_write sha256_Transform c data"

text \<open>\<open>None\<close> is the \<open>std::length_error\<close>.\<close>

definition CSHA256_FinalizeNoPadding :: "CSHA256 \<Rightarrow> bool \<Rightarrow> u8 list option" where
  "CSHA256_FinalizeNoPadding c enforce_compression =
    (if enforce_compression \<and> md_bytes c \<noteq> 64 then None
     else Some (be_store 4 (md_s c ! 0) @ be_store 4 (md_s c ! 1) @ be_store 4 (md_s c ! 2) @ be_store 4 (md_s c ! 3) @
       be_store 4 (md_s c ! 4) @ be_store 4 (md_s c ! 5) @ be_store 4 (md_s c ! 6) @ be_store 4 (md_s c ! 7)))"

definition CSHA256_Finalize :: "CSHA256 \<Rightarrow> u8 list option" where
  "CSHA256_Finalize c =
    (let pad = 0x80 # replicate 63 0;
         sizedesc = be_store 8 (push_bit 3 (md_bytes c));
         c = CSHA256_Write c (take (1 + unat ((119 - md_bytes c mod 64) mod 64)) pad);
         c = CSHA256_Write c sizedesc
     in CSHA256_FinalizeNoPadding c False)"

definition CSHA256_Reset :: "CSHA256 \<Rightarrow> CSHA256" where
  "CSHA256_Reset c = c\<lparr>md_bytes := 0, md_s := sha256_Initialize\<rparr>"

section \<open>The reference\<close>

definition sha256_hash :: "u8 list \<Rightarrow> u8 list" where
  "sha256_hash m = concat (map (be_store 4) (md_absorb 64 sha256_block H256 (md_pad (be_store 8) m)))"

lemma length_H256 [simp]: "length H256 = 8"
  by (simp add: H256_def)

lemma sha256_absorb_length: "length h = 8 \<Longrightarrow> length (md_absorb 64 sha256_block h m) = 8"
  using md_absorb_cong [where P = "\<lambda>s. length s = 8" and f = sha256_block and g = sha256_block] by simp

lemma length_sha256_hash [simp]: "length (sha256_hash m) = 32"
  by (simp add: sha256_hash_def length_concat_fixed [where k = 4] sha256_absorb_length)

section \<open>The class is a streaming context\<close>

lemma sha256_Transform_absorb:
  "length h = 8 \<Longrightarrow> md_absorb 64 sha256_Transform h m = md_absorb 64 sha256_block h m"
  using md_absorb_cong [where P = "\<lambda>s. length s = 8" and f = sha256_Transform and g = sha256_block]
  by (simp add: sha256_Transform_block)

lemma sha256_Initialize_H256: "sha256_Initialize = H256"
  by (simp add: sha256_Initialize_def H256_def)

interpretation sha256_ctx: md_stream 64 sha256_block H256 "ctx_fresh H256" CSHA256_Write md_s
  "ctx_rep sha256_Transform H256"
proof
  fix c m d
  show "ctx_rep sha256_Transform H256 c m \<Longrightarrow> ctx_rep sha256_Transform H256 (CSHA256_Write c d) (m @ d)"
    unfolding CSHA256_Write_def by (rule ctx_write_rep)
  show "ctx_rep sha256_Transform H256 c m \<Longrightarrow> md_s c = md_absorb 64 sha256_block H256 m"
    by (drule ctx_chain_rep) (simp add: sha256_Transform_absorb)
qed (rule ctx_fresh_rep)

lemma CSHA256_digest:
  assumes "ctx_rep sha256_Transform H256 c m"
  shows "CSHA256_Finalize c = Some (sha256_hash m)"
proof -
  have n: "md_bytes c = of_nat (length m)" using assms by (simp add: ctx_rep_def)
  let ?p = "0x80 # replicate ((119 - length m mod 64) mod 64) (0 :: u8)"
  let ?q = "be_store 8 (8 * of_nat (length m) :: u64)"
  let ?s = "md_s (CSHA256_Write (CSHA256_Write c ?p) ?q)"
  have s: "?s = md_absorb 64 sha256_block H256 (md_pad (be_store 8) m)"
    using sha256_ctx.finish_chain [OF assms, of ?p ?q] by (simp add: md_pad_def)
  then have "length ?s = 8" by (simp add: sha256_absorb_length)
  then obtain a b c d e f g h where "?s = [a, b, c, d, e, f, g, h]" by (rule length_8E)
  moreover have "push_bit 3 (of_nat (length m) :: u64) = 8 * of_nat (length m)"
    by (simp add: push_bit_eq_mult)
  ultimately show ?thesis
    unfolding CSHA256_Finalize_def CSHA256_FinalizeNoPadding_def n unat_pad_count sha256_hash_def s [symmetric] Let_def
    by (simp add: pad_bytes)
qed

text \<open>C39: the streaming class gives SHA-256 of the concatenation of its \<open>Write\<close> calls,
  however the message is cut into pieces, from a new object or after \<open>Reset\<close>, whatever its
  buffer held before.\<close>

theorem CSHA256_stream:
  assumes "length (md_buf c) = 64"
  shows "CSHA256_Finalize (foldl CSHA256_Write (CSHA256_Reset c) ds) = Some (sha256_hash (concat ds))"
proof -
  have "ctx_fresh H256 (CSHA256_Reset c)"
    using assms by (simp add: ctx_fresh_def CSHA256_Reset_def sha256_Initialize_H256)
  then show ?thesis by (intro CSHA256_digest sha256_ctx.pieces_rep)
qed

theorem CSHA256_stream_witness:
  "CSHA256_Finalize (foldl CSHA256_Write (CSHA256_Reset (CSHA256_new (replicate 64 3))) [[1], [], [2, 3]]) =
    Some (sha256_hash (concat [[1], [], [2, 3]]))"
  by (rule CSHA256_stream) (simp add: CSHA256_new_def)

text \<open>With \<open>enforce_compression\<close> the class fails unless exactly one block was written, and
  then returns the bare compression of that block.\<close>

theorem CSHA256_compress_only:
  assumes "length (md_buf c) = 64" and "length (concat ds) < 2 ^ 64"
  shows "CSHA256_FinalizeNoPadding (foldl CSHA256_Write (CSHA256_Reset c) ds) True =
    (if length (concat ds) = 64 then Some (concat (map (be_store 4) (sha256_block H256 (concat ds)))) else None)"
proof -
  let ?m = "concat ds" and ?c = "foldl CSHA256_Write (CSHA256_Reset c) ds"
  have "ctx_fresh H256 (CSHA256_Reset c)"
    using assms by (simp add: ctx_fresh_def CSHA256_Reset_def sha256_Initialize_H256)
  then have rep: "ctx_rep sha256_Transform H256 ?c ?m" by (rule sha256_ctx.pieces_rep)
  have n: "md_bytes ?c = 64 \<longleftrightarrow> length ?m = 64"
    using rep assms(2) by (simp add: ctx_rep_def word_unat_eq_iff unat_of_nat)
  show ?thesis
  proof (cases "length ?m = 64")
    case True
    then have s: "md_s ?c = sha256_block H256 ?m"
      using sha256_ctx.chain_rep [OF rep] md_absorb_block [of 64 ?m sha256_block H256 "[]"]
      by (simp add: md_absorb_short)
    moreover have "length (sha256_block H256 ?m) = 8" by simp
    then obtain a b c d e f g h where "sha256_block H256 ?m = [a, b, c, d, e, f, g, h]" by (rule length_8E)
    ultimately show ?thesis using True n by (simp add: CSHA256_FinalizeNoPadding_def)
  next
    case False
    then show ?thesis using n by (simp add: CSHA256_FinalizeNoPadding_def)
  qed
qed

theorem CSHA256_compress_only_witness:
  "CSHA256_FinalizeNoPadding (foldl CSHA256_Write (CSHA256_Reset (CSHA256_new (replicate 64 3))) [[1], [2, 3]]) True = None"
  using CSHA256_compress_only [of "CSHA256_new (replicate 64 3)" "[[1], [2, 3]]"] by (simp add: CSHA256_new_def)

section \<open>The double hash\<close>

lemma be_words_nth: "k < 16 \<Longrightarrow> be_words blk ! k = be_load (take 4 (drop (4 * k) blk))"
  by (simp add: be_words_def)

text \<open>A block whose last eight bytes are a length below \<open>2 ^ 32\<close>.\<close>

lemma be_words_split:
  assumes "length p = 56"
  shows "be_words (p @ u) = map (\<lambda>k. be_load (take 4 (drop (4 * k) p))) [0..<14] @
      [be_load (take 4 u), be_load (take 4 (drop 4 u))]"
proof (rule nth_equalityI)
  fix i assume "i < length (be_words (p @ u))"
  then consider "i < 14" | "i = 14" | "i = 15" by force
  then show "be_words (p @ u) ! i = (map (\<lambda>k. be_load (take 4 (drop (4 * k) p))) [0..<14] @
      [be_load (take 4 u), be_load (take 4 (drop 4 u))]) ! i"
    using assms by cases (simp_all add: be_words_nth nth_append)
qed simp

lemma be_store_8: "be_store 8 w = be_store 4 (drop_bit 32 w) @ be_store 4 w" for w :: u64
  by (simp add: be_store_def eval_nat_numeral)

lemma be_load_store_low: "be_load (be_store 4 (of_nat n :: u64)) = (of_nat n :: u32)"
  by (rule bit_word_eqI)
    (auto simp: be_load_def be_store_def bit_le_load bit_le_store_nth div_less_iff_less_mult bit_of_nat_iff)

lemma be_words_length:
  assumes "length p = 56" and "n < 2 ^ 32"
  shows "(be_words (p @ replicate 8 0))[15 := of_nat n] = be_words (p @ be_store 8 (of_nat n :: u64))"
proof -
  have "drop_bit 32 (of_nat n :: u64) = of_nat 0"
    unfolding word_unat_eq_iff unat_drop_bit_eq using assms(2) by (simp add: unat_of_nat drop_bit_eq_div)
  then have "be_store 8 (of_nat n :: u64) = be_store 4 (of_nat 0 :: u64) @ be_store 4 (of_nat n :: u64)"
    by (simp add: be_store_8)
  moreover have "be_load (replicate 4 0) = (0 :: u32)"
    using le_load_append_zeros [of "[]" 4] by (simp add: be_load_def)
  ultimately show ?thesis
    unfolding be_words_split [OF assms(1)]
    using be_load_store_low [of 0] be_load_store_low [of n] by (simp add: list_update_append)
qed

lemma sha256_transform_block:
  "length S = 8 \<Longrightarrow> length W0 = 64 \<Longrightarrow> sha256_transform W0 S (be_words blk) False = sha256_block S blk"
  by (simp add: sha256_transform_compress sha256_block_def)

lemma of_int_bits: "of_int (8 * int n) = (of_nat (8 * n) :: u32)"
  by simp

text \<open>The buffer in each of the four situations of the loop.\<close>

lemma sha256d_block_cases:
  assumes "rest = drop (length data - length rest) data" and "length T = 64"
  shows "64 \<le> length rest \<Longrightarrow> sha256d_block T data (int (length rest)) = take 64 rest"
    and "length rest < 64 \<Longrightarrow>
      sha256d_block T data (int (length rest)) = rest @ 0x80 # replicate (63 - length rest) 0"
    and "-9 < r \<Longrightarrow> r < 0 \<Longrightarrow> sha256d_block T data r = replicate 64 0"
proof -
  have d: "drop (nat (int (length data) - int (length rest))) data = rest"
    using assms(1) by (metis of_nat_diff nat_int nat_minus_as_int)
  show "64 \<le> length rest \<Longrightarrow> sha256d_block T data (int (length rest)) = take 64 rest"
    using d assms(2) by (auto simp: sha256d_block_def Let_def memcpy_at_def)
  show "length rest < 64 \<Longrightarrow> sha256d_block T data (int (length rest)) = rest @ 0x80 # replicate (63 - length rest) 0"
    using d by (auto simp: sha256d_block_def Let_def memcpy_at_def list_update_append nth_Cons' nth_append
        intro!: nth_equalityI)
  show "-9 < r \<Longrightarrow> r < 0 \<Longrightarrow> sha256d_block T data r = replicate 64 0"
    by (simp add: sha256d_block_def Let_def memcpy_at_def)
qed

text \<open>The four situations as steps of the loop.\<close>

lemma sha256d_loop_stop: "r \<le> -9 \<Longrightarrow> sha256d_loop W0 S T data r = S"
  by (simp add: sha256d_loop.simps)

lemma length_le_words: "length W = 16 \<Longrightarrow> length (concat (map (le_store 4) W)) = 64" for W :: "u32 list"
  by (simp add: length_concat_fixed [where k = 4])

lemma sha256d_loop_absorb:
  assumes "length W0 = 64" and "8 * length data < 2 ^ 32"
    and "rest = drop (length data - length rest) data" and "length S = 8" and "length T = 64"
    and "length rest mod 64 = length data mod 64"
  shows "sha256d_loop W0 S T data (int (length rest)) =
    md_absorb 64 sha256_block S
      (rest @ 0x80 # replicate ((119 - length data mod 64) mod 64) 0 @ be_store 8 (8 * of_nat (length data) :: u64))"
  using assms(3-6)
proof (induction "length rest" arbitrary: rest S T rule: less_induct)
  case less
  let ?r = "length rest" and ?len = "be_store 8 (8 * of_nat (length data) :: u64)"
  let ?pad = "0x80 # replicate ((119 - length data mod 64) mod 64) 0 @ ?len"
  have bits: "8 * of_nat (length data) = (of_nat (8 * length data) :: u64)" by simp
  have lw: "(be_words (p @ replicate 8 0))[15 := of_int (8 * int (length data))] = be_words (p @ ?len)"
    if "length p = 56" for p
    unfolding bits of_int_bits by (rule be_words_length [OF that assms(2)])
  note blocks = sha256d_block_cases [OF less(2) less(4)]
  consider "64 \<le> ?r" | "56 \<le> ?r" "?r < 64" | "?r < 56" by linarith
  then show ?case
  proof cases
    case 1
    let ?S = "sha256_block S (take 64 rest)" and ?T = "concat (map (le_store 4) (be_words (take 64 rest)))"
    have rest: "drop 64 rest = drop (length data - length (drop 64 rest)) data"
    proof -
      have "?r \<le> length data" by (metis diff_le_self length_drop less(2))
      then have "length data - length (drop 64 rest) = 64 + (length data - ?r)" using 1 by simp
      then show ?thesis by (metis drop_drop less(2))
    qed
    have "sha256d_loop W0 S T data (int ?r) = sha256d_loop W0 ?S ?T data (int ?r - 64)"
      using 1 blocks(1) sha256_transform_block [OF less(3) assms(1)] by (subst sha256d_loop.simps) simp
    also have "int ?r - 64 = int (length (drop 64 rest))" using 1 by simp
    also have "sha256d_loop W0 ?S ?T data (int (length (drop 64 rest))) =
        md_absorb 64 sha256_block ?S (drop 64 rest @ ?pad)"
    proof -
      have n: "length (drop 64 rest) mod 64 = length data mod 64" using 1 less(5) by (simp add: le_mod_geq)
      show ?thesis
        by (rule less(1) [OF _ rest _ _ n]) (use 1 less(3) in \<open>simp_all add: length_le_words\<close>)
    qed
    also have "\<dots> = md_absorb 64 sha256_block S (rest @ ?pad)"
      using 1 md_absorb_block [of 64 "take 64 rest" sha256_block S "drop 64 rest @ ?pad"]
      by (simp flip: append_assoc)
    finally show ?thesis .
  next
    case 2
    let ?m = "rest @ 0x80 # replicate (63 - ?r) 0" and ?z = "replicate 56 0 @ ?len"
    have z: "(119 - length data mod 64) mod 64 = (63 - ?r) + 56" using 2 less(5) by simp
    have zeros: "replicate 64 (0 :: u8) = replicate 56 0 @ replicate 8 0" by (simp flip: replicate_add)
    let ?S = "sha256_block S ?m" and ?T = "concat (map (le_store 4) (be_words ?m))"
    have "sha256d_loop W0 S T data (int ?r) = sha256d_loop W0 ?S ?T data (int ?r - 64)"
      using 2 blocks(2) sha256_transform_block [OF less(3) assms(1)] by (subst sha256d_loop.simps) simp
    also have "\<dots> = sha256_block ?S ?z"
    proof -
      have "be_words (sha256d_block ?T data (int ?r - 64)) = be_words (replicate 56 0 @ replicate 8 0)"
        using 2 blocks(3) [of "int ?r - 64"] zeros by (simp add: sha256d_block_def Let_def memcpy_at_def)
      then show ?thesis
        using 2 lw [of "replicate 56 0"] sha256_transform_block [of ?S W0 ?z] less(3) assms(1)
        by (subst sha256d_loop.simps) (simp add: sha256d_loop_stop)
    qed
    also have "\<dots> = md_absorb 64 sha256_block S (?m @ ?z)"
      using md_absorb_block [of 64 ?m sha256_block S ?z] md_absorb_block [of 64 ?z sha256_block ?S "[]"] 2
      by (simp add: md_absorb_short)
    finally show ?thesis unfolding z replicate_add by simp
  next
    case 3
    let ?p = "rest @ 0x80 # replicate (55 - ?r) 0"
    have z: "(119 - length data mod 64) mod 64 = 55 - ?r"
      using 3 less(5) by (simp add: le_mod_geq flip: less(5))
    have p: "length ?p = 56" using 3 by simp
    have "sha256d_block T data (int ?r) = ?p @ replicate 8 0"
      using 3 blocks(2) by (simp flip: replicate_add)
    then have "sha256d_loop W0 S T data (int ?r) = sha256_block S (?p @ ?len)"
      using 3 lw [OF p] sha256_transform_block [OF less(3) assms(1), of "?p @ ?len"]
      by (subst sha256d_loop.simps) (simp add: sha256d_loop_stop)
    then show ?thesis
      using md_absorb_block [of 64 "?p @ ?len" sha256_block S "[]"] p
      unfolding z by (simp add: md_absorb_short)
  qed
qed

text \<open>The padding of a digest: the second half of \<open>sha256d_hash1\<close>.\<close>

lemma be_load_be_store_32: "be_load (be_store 4 w) = w" for w :: u32
  by (simp add: be_load_def be_store_def le_load_le_store take_bit_word_eq_self)

lemma be_words_concat:
  assumes "length ws = 16"
  shows "be_words (concat (map (be_store 4) ws)) = ws"
proof (rule nth_equalityI)
  fix k assume "k < length (be_words (concat (map (be_store 4) ws)))"
  then have k: "k < 16" by simp
  have "take 4 (drop (4 * k) (concat (map (be_store 4) ws))) = be_store 4 (ws ! k)"
    using assms k by (intro nth_equalityI)
      (simp_all add: length_concat_fixed [where k = 4] nth_concat_fixed [where k = 4])
  then show "be_words (concat (map (be_store 4) ws)) ! k = ws ! k"
    using k by (simp add: be_words_nth be_load_be_store_32)
qed (use assms in simp)

lemma length_be_words_concat:
  "length ws = 16 \<Longrightarrow> length (concat (map (be_store 4) ws)) = 64" for ws :: "u32 list"
  by (simp add: length_concat_fixed [where k = 4])

lemma sha256d_second_block:
  assumes "length S = 8"
  shows "md_pad (be_store 8) (concat (map (be_store 4) S)) = concat (map (be_store 4) (S @ drop 8 sha256d_hash1))"
proof -
  have "0x80 # replicate 23 0 @ be_store 8 (256 :: u64) = concat (map (be_store 4) (drop 8 sha256d_hash1))"
    by code_simp
  then show ?thesis
    using assms by (simp add: md_pad_def length_concat_fixed [where k = 4])
qed

lemma sha256_init_H256: "sha256_init = H256"
  by (simp add: sha256_init_def sha256_h_def H256_def)

text \<open>The function \<open>sha256d\<close> is SHA-256 applied twice, for every message whose bit length its signed
  arithmetic can hold, whatever its uninitialised buffers contain.\<close>

theorem sha256d_ref:
  assumes "length W0 = 64" and "length T0 = 64" and "8 * length data < 2 ^ 31"
  shows "sha256d W0 T0 data = sha256_hash (sha256_hash data)"
proof -
  let ?S = "md_absorb 64 sha256_block H256 (md_pad (be_store 8) data)"
  have S: "length ?S = 8" by (simp add: sha256_absorb_length)
  have "sha256d_loop W0 sha256_init T0 data (int (length data)) = ?S"
    using sha256d_loop_absorb [of W0 data data H256 T0] assms by (simp add: sha256_init_H256 md_pad_def)
  moreover have "sha256_transform W0 sha256_init (?S @ drop 8 sha256d_hash1) False =
      md_absorb 64 sha256_block H256 (md_pad (be_store 8) (sha256_hash data))"
  proof -
    let ?b = "concat (map (be_store 4) (?S @ drop 8 sha256d_hash1))"
    have ws: "length (?S @ drop 8 sha256d_hash1) = 16" using S by (simp add: sha256d_hash1_def)
    have b: "length ?b = 64" by (rule length_be_words_concat [OF ws])
    have "sha256_transform W0 sha256_init (?S @ drop 8 sha256d_hash1) False = sha256_block H256 ?b"
      using sha256_transform_block [OF length_H256 assms(1), of ?b]
      unfolding be_words_concat [OF ws] sha256_init_H256 .
    also have "\<dots> = md_absorb 64 sha256_block H256 ?b"
      using md_absorb_block [of 64 ?b sha256_block H256 "[]"] b by (simp add: md_absorb_short del: map_append)
    finally show ?thesis unfolding sha256_hash_def sha256d_second_block [OF S] .
  qed
  moreover have "concat (map (\<lambda>i. be_store 4 (T ! i)) [0..<8]) = concat (map (be_store 4) T)"
    if "length T = 8" for T :: "u32 list"
    using that map_nth [of T] by (metis (no_types, lifting) map_eq_conv map_map comp_apply)
  ultimately show ?thesis
    using S unfolding sha256d_def Let_def sha256_hash_def [of "sha256_hash data"]
    by (simp add: sha256_absorb_length)
qed

theorem sha256d_ref_witness:
  "sha256d (replicate 64 1) (replicate 64 2) [0x61, 0x62, 0x63] = sha256_hash (sha256_hash [0x61, 0x62, 0x63])"
  by (rule sha256d_ref) simp_all

end
