(* ===== verification/Sha512_Sph.thy ===== *)
theory Sha512_Sph
  imports Sha2_Ref
begin

text \<open>
  The SHA-512 compression function of \<^verbatim>\<open>src/src/crypto/x25x/sph/sph_sha2big.c\<close>: eighty schedule
  words in an array, then ten turns of a loop with eight steps that rename the registers.
\<close>

unbundle bit_operations_syntax

section \<open>The code\<close>

definition SPH_ROTL64 :: "u64 \<Rightarrow> nat \<Rightarrow> u64" where
  "SPH_ROTL64 x n = push_bit n x OR drop_bit (64 - n) x"

definition SPH_ROTR64 :: "u64 \<Rightarrow> nat \<Rightarrow> u64" where
  "SPH_ROTR64 x n = SPH_ROTL64 x (64 - n)"

definition big_CH :: "u64 \<Rightarrow> u64 \<Rightarrow> u64 \<Rightarrow> u64" where
  "big_CH X Y Z = ((Y XOR Z) AND X) XOR Z"

definition big_MAJ :: "u64 \<Rightarrow> u64 \<Rightarrow> u64 \<Rightarrow> u64" where
  "big_MAJ X Y Z = (X AND Y) OR ((X OR Y) AND Z)"

definition BSG5_0 :: "u64 \<Rightarrow> u64" where
  "BSG5_0 x = SPH_ROTR64 x 28 XOR SPH_ROTR64 x 34 XOR SPH_ROTR64 x 39"

definition BSG5_1 :: "u64 \<Rightarrow> u64" where
  "BSG5_1 x = SPH_ROTR64 x 14 XOR SPH_ROTR64 x 18 XOR SPH_ROTR64 x 41"

definition SSG5_0 :: "u64 \<Rightarrow> u64" where
  "SSG5_0 x = SPH_ROTR64 x 1 XOR SPH_ROTR64 x 8 XOR drop_bit 7 x"

definition SSG5_1 :: "u64 \<Rightarrow> u64" where
  "SSG5_1 x = SPH_ROTR64 x 19 XOR SPH_ROTR64 x 61 XOR drop_bit 6 x"

definition K512 :: "u64 list" where
  "K512 = [
   0x428A2F98D728AE22, 0x7137449123EF65CD, 0xB5C0FBCFEC4D3B2F, 0xE9B5DBA58189DBBC,
   0x3956C25BF348B538, 0x59F111F1B605D019, 0x923F82A4AF194F9B, 0xAB1C5ED5DA6D8118,
   0xD807AA98A3030242, 0x12835B0145706FBE, 0x243185BE4EE4B28C, 0x550C7DC3D5FFB4E2,
   0x72BE5D74F27B896F, 0x80DEB1FE3B1696B1, 0x9BDC06A725C71235, 0xC19BF174CF692694,
   0xE49B69C19EF14AD2, 0xEFBE4786384F25E3, 0x0FC19DC68B8CD5B5, 0x240CA1CC77AC9C65,
   0x2DE92C6F592B0275, 0x4A7484AA6EA6E483, 0x5CB0A9DCBD41FBD4, 0x76F988DA831153B5,
   0x983E5152EE66DFAB, 0xA831C66D2DB43210, 0xB00327C898FB213F, 0xBF597FC7BEEF0EE4,
   0xC6E00BF33DA88FC2, 0xD5A79147930AA725, 0x06CA6351E003826F, 0x142929670A0E6E70,
   0x27B70A8546D22FFC, 0x2E1B21385C26C926, 0x4D2C6DFC5AC42AED, 0x53380D139D95B3DF,
   0x650A73548BAF63DE, 0x766A0ABB3C77B2A8, 0x81C2C92E47EDAEE6, 0x92722C851482353B,
   0xA2BFE8A14CF10364, 0xA81A664BBC423001, 0xC24B8B70D0F89791, 0xC76C51A30654BE30,
   0xD192E819D6EF5218, 0xD69906245565A910, 0xF40E35855771202A, 0x106AA07032BBD1B8,
   0x19A4C116B8D2D0C8, 0x1E376C085141AB53, 0x2748774CDF8EEB99, 0x34B0BCB5E19B48A8,
   0x391C0CB3C5C95A63, 0x4ED8AA4AE3418ACB, 0x5B9CCA4F7763E373, 0x682E6FF3D6B2B8A3,
   0x748F82EE5DEFB2FC, 0x78A5636F43172F60, 0x84C87814A1F0AB72, 0x8CC702081A6439EC,
   0x90BEFFFA23631E28, 0xA4506CEBDE82BDE9, 0xBEF9A3F7B2C67915, 0xC67178F2E372532B,
   0xCA273ECEEA26619C, 0xD186B8C721C0C207, 0xEADA7DD6CDE0EB1E, 0xF57D4F7FEE6ED178,
   0x06F067AA72176FBA, 0x0A637DC5A2C898A6, 0x113F9804BEF90DAE, 0x1B710B35131C471B,
   0x28DB77F523047D84, 0x32CAAB7B40C72493, 0x3C9EBE0A15C9BEBC, 0x431D67C49C100D4C,
   0x4CC5D4BECB3E42B6, 0x597F299CFC657E2A, 0x5FCB6FAB3AD6FAEC, 0x6C44198C4A475817]"

definition H384 :: "u64 list" where
  "H384 = [
   0xCBBB9D5DC1059ED8, 0x629A292A367CD507, 0x9159015A3070DD17, 0x152FECD8F70E5939,
   0x67332667FFC00B31, 0x8EB44A8768581511, 0xDB0C2E0D64F98FA7, 0x47B5481DBEFA4FA4]"

definition H512 :: "u64 list" where
  "H512 = [
   0x6A09E667F3BCC908, 0xBB67AE8584CAA73B, 0x3C6EF372FE94F82B, 0xA54FF53A5F1D36F1,
   0x510E527FADE682D1, 0x9B05688C2B3E6C1F, 0x1F83D9ABFB41BD6B, 0x5BE0CD19137E2179]"

definition SHA3_STEP :: "u64 list \<Rightarrow> nat \<Rightarrow> nat \<Rightarrow> nat \<Rightarrow> nat \<Rightarrow> nat \<Rightarrow> nat \<Rightarrow> nat \<Rightarrow> nat \<Rightarrow> nat \<Rightarrow> u64 list \<Rightarrow> u64 list" where
  "SHA3_STEP W a b c d e f g h i r =
    (let T1 = r ! h + BSG5_1 (r ! e) + big_CH (r ! e) (r ! f) (r ! g) + K512 ! i + W ! i;
         T2 = BSG5_0 (r ! a) + big_MAJ (r ! a) (r ! b) (r ! c);
         r = r[d := r ! d + T1]
     in r[h := T1 + T2])"

text \<open>One turn of the loop \<open>for (i = 0; i < 80; i += 8)\<close>.\<close>

definition SHA3_EIGHT :: "u64 list \<Rightarrow> nat \<Rightarrow> u64 list \<Rightarrow> u64 list" where
  "SHA3_EIGHT W i r =
    (let r = SHA3_STEP W 0 1 2 3 4 5 6 7 (i + 0) r; r = SHA3_STEP W 7 0 1 2 3 4 5 6 (i + 1) r;
         r = SHA3_STEP W 6 7 0 1 2 3 4 5 (i + 2) r; r = SHA3_STEP W 5 6 7 0 1 2 3 4 (i + 3) r;
         r = SHA3_STEP W 4 5 6 7 0 1 2 3 (i + 4) r; r = SHA3_STEP W 3 4 5 6 7 0 1 2 (i + 5) r;
         r = SHA3_STEP W 2 3 4 5 6 7 0 1 (i + 6) r; r = SHA3_STEP W 1 2 3 4 5 6 7 0 (i + 7) r
     in r)"

text \<open>The array \<open>W\<close> starts with unknown content \<open>W0\<close>.\<close>

definition SHA3_SCHEDULE :: "u64 list \<Rightarrow> (nat \<Rightarrow> u64) \<Rightarrow> u64 list" where
  "SHA3_SCHEDULE W0 inp =
    (let W = fold (\<lambda>i W. W[i := inp i]) [0..<16] W0
     in fold (\<lambda>i W. W[i := SSG5_1 (W ! (i - 2)) + W ! (i - 7) + SSG5_0 (W ! (i - 15)) + W ! (i - 16)]) [16..<80] W)"

definition SHA3_ROUND_BODY :: "u64 list \<Rightarrow> (nat \<Rightarrow> u64) \<Rightarrow> u64 list \<Rightarrow> u64 list" where
  "SHA3_ROUND_BODY W0 inp r =
    (let W = SHA3_SCHEDULE W0 inp;
         s = fold (SHA3_EIGHT W) (map (\<lambda>j. 8 * j) [0..<10]) r
     in [r ! 0 + s ! 0, r ! 1 + s ! 1, r ! 2 + s ! 2, r ! 3 + s ! 3,
         r ! 4 + s ! 4, r ! 5 + s ! 5, r ! 6 + s ! 6, r ! 7 + s ! 7])"

definition sph_dec64be_aligned :: "u8 list \<Rightarrow> u64" where
  "sph_dec64be_aligned p = be_load (take 8 p)"

definition sha3_round :: "u8 list \<Rightarrow> u64 list \<Rightarrow> u64 list" where
  "sha3_round data r = SHA3_ROUND_BODY (replicate 80 0) (\<lambda>x. sph_dec64be_aligned (drop (8 * x) data)) r"

definition sph_sha384_comp :: "u64 list \<Rightarrow> u64 list \<Rightarrow> u64 list" where
  "sph_sha384_comp msg val = SHA3_ROUND_BODY (replicate 80 0) (\<lambda>x. msg ! x) val"

section \<open>It computes the standard\<close>

definition sha512_funs :: "u64 sha2_funs" where
  "sha512_funs = \<lparr>
     Sigma0 = (\<lambda>x. word_rotr 28 x XOR word_rotr 34 x XOR word_rotr 39 x),
     Sigma1 = (\<lambda>x. word_rotr 14 x XOR word_rotr 18 x XOR word_rotr 41 x),
     sigma0 = (\<lambda>x. word_rotr 1 x XOR word_rotr 8 x XOR drop_bit 7 x),
     sigma1 = (\<lambda>x. word_rotr 19 x XOR word_rotr 61 x XOR drop_bit 6 x)\<rparr>"

lemma length_K512: "length K512 = 80"
  by (simp add: K512_def)

lemma H512_roots: "list_all2 (root_frac 2 64) (take 8 first_primes) (map uint H512)"
  by code_simp

lemma H384_roots: "list_all2 (root_frac 2 64) (take 8 (drop 8 first_primes)) (map uint H384)"
  by code_simp

lemma SPH_ROTR64_rotr: "0 < n \<Longrightarrow> n < 64 \<Longrightarrow> SPH_ROTR64 x n = word_rotr n x"
  using shift_or_rotl [of "64 - n" x] word_rotr_as_rotl [of n x] by (simp add: SPH_ROTR64_def SPH_ROTL64_def)

lemma big_sigmas:
  "BSG5_0 x = Sigma0 sha512_funs x" "BSG5_1 x = Sigma1 sha512_funs x"
  "SSG5_0 x = sigma0 sha512_funs x" "SSG5_1 x = sigma1 sha512_funs x"
  by (simp_all add: BSG5_0_def BSG5_1_def SSG5_0_def SSG5_1_def sha512_funs_def SPH_ROTR64_rotr)

lemma big_CH_Ch: "big_CH x y z = sha2_Ch x y z"
  by (rule bit_word_eqI) (auto simp: big_CH_def sha2_Ch_def bit_simps)

lemma big_MAJ_Maj: "big_MAJ x y z = sha2_Maj x y z"
  by (rule bit_word_eqI) (auto simp: big_MAJ_def sha2_Maj_def bit_simps)

lemma SHA3_STEP_op: "SHA3_STEP W a b c d e f g h i r = sha2_op sha512_funs (K512 ! i) (W ! i) a b c d e f g h r"
  by (simp add: SHA3_STEP_def sha2_op_def big_sigmas big_CH_Ch big_MAJ_Maj Let_def)

text \<open>Eight steps, from a position that is a multiple of eight.\<close>

lemma SHA3_EIGHT_named:
  "SHA3_EIGHT W (8 * j) r = fold (\<lambda>i. sha2_named sha512_funs i (K512 ! i) (W ! i)) [8 * j..<8 * j + 8] r"
proof -
  have idx: "(7 * (8 * j + a) + k) mod 8 = (7 * a + k) mod 8" for a k
  proof -
    have "7 * (8 * j + a) + k = 7 * a + k + 8 * (7 * j)" by simp
    then show ?thesis by (simp only: mod_mult_self2)
  qed
  have named: "sha2_named sha512_funs (8 * j + a) k w = sha2_op sha512_funs k w (7 * a mod 8) ((7 * a + 1) mod 8)
      ((7 * a + 2) mod 8) ((7 * a + 3) mod 8) ((7 * a + 4) mod 8) ((7 * a + 5) mod 8) ((7 * a + 6) mod 8)
      ((7 * a + 7) mod 8)" for a k w
    using idx [of a 0] by (simp only: sha2_named_def idx add_0_right)
  have "[8 * j..<8 * j + 8] = [8 * j + 0, 8 * j + 1, 8 * j + 2, 8 * j + 3, 8 * j + 4, 8 * j + 5, 8 * j + 6, 8 * j + 7]"
    by (simp add: upt_conv_Cons)
  moreover have steps:
    "sha2_named sha512_funs (8 * j + 0) k w = sha2_op sha512_funs k w 0 1 2 3 4 5 6 7"
    "sha2_named sha512_funs (8 * j + 1) k w = sha2_op sha512_funs k w 7 0 1 2 3 4 5 6"
    "sha2_named sha512_funs (8 * j + 2) k w = sha2_op sha512_funs k w 6 7 0 1 2 3 4 5"
    "sha2_named sha512_funs (8 * j + 3) k w = sha2_op sha512_funs k w 5 6 7 0 1 2 3 4"
    "sha2_named sha512_funs (8 * j + 4) k w = sha2_op sha512_funs k w 4 5 6 7 0 1 2 3"
    "sha2_named sha512_funs (8 * j + 5) k w = sha2_op sha512_funs k w 3 4 5 6 7 0 1 2"
    "sha2_named sha512_funs (8 * j + 6) k w = sha2_op sha512_funs k w 2 3 4 5 6 7 0 1"
    "sha2_named sha512_funs (8 * j + 7) k w = sha2_op sha512_funs k w 1 2 3 4 5 6 7 0"
    for k w by (simp_all only: named) (simp_all flip: numeral_2_eq_2)
  ultimately show ?thesis
    unfolding SHA3_EIGHT_def Let_def SHA3_STEP_op by (simp only: fold_simps steps)
qed

lemma SHA3_rounds_named:
  "fold (SHA3_EIGHT W) (map (\<lambda>j. 8 * j) [0..<n]) r =
    fold (\<lambda>i. sha2_named sha512_funs i (K512 ! i) (W ! i)) [0..<8 * n] r"
proof (induction n)
  case (Suc n)
  have "[0..<8 * Suc n] = [0..<8 * n] @ [8 * n..<8 * n + 8]" using upt_join [of 0 "8 * n" "8 * n + 8"] by (simp add: add.commute)
  then show ?case using Suc by (simp add: SHA3_EIGHT_named)
qed simp

lemma SHA3_SCHEDULE_sched:
  assumes "length W0 = 80"
  shows "take 80 (SHA3_SCHEDULE W0 inp) = sha2_sched sha512_funs (map inp [0..<16]) 80"
proof -
  let ?V = "fold (\<lambda>i W. W[i := inp i]) [0..<16] W0"
  have V: "?V = map (\<lambda>i. if i < 16 then inp i else W0 ! i) [0..<80]"
    using fold_update_map [of 16 W0 "\<lambda>i _. inp i"] assms by simp
  have "take 16 ?V = map inp [0..<16]" unfolding V by (simp add: take_map take_upt)
  moreover have "length ?V = 80" unfolding V by simp
  ultimately show ?thesis
    using sha2_array_sched [of 80 ?V sha512_funs] unfolding SHA3_SCHEDULE_def Let_def sha2_array_def big_sigmas
    by (simp del: upt_rec_numeral)
qed

lemma SHA3_ROUND_BODY_compress:
  assumes "length W0 = 80" and "length r = 8"
  shows "SHA3_ROUND_BODY W0 inp r = sha2_compress sha512_funs K512 (map inp [0..<16]) r"
proof -
  let ?W = "SHA3_SCHEDULE W0 inp" and ?S = "sha2_sched sha512_funs (map inp [0..<16]) 80"
  have W: "?W ! i = ?S ! i" if "i < 80" for i
    using that SHA3_SCHEDULE_sched [OF assms(1), of inp] by (metis nth_take)
  have ten: "8 * 10 = (80 :: nat)" by simp
  have "fold (SHA3_EIGHT ?W) (map (\<lambda>j. 8 * j) [0..<10]) r =
      fold (\<lambda>i. sha2_named sha512_funs i (K512 ! i) (?W ! i)) [0..<80] r"
    unfolding SHA3_rounds_named ten ..
  also have "\<dots> = fold (\<lambda>i. sha2_named sha512_funs i (K512 ! i) (?S ! i)) [0..<80] r"
    by (rule fold_cong) (simp_all add: fun_eq_iff W)
  also have "\<dots> = sha2_rounds sha512_funs K512 (map inp [0..<16]) r"
    unfolding sha2_rounds_def Let_def length_K512
    by (rule sha2_named_rounds) (simp_all add: assms(2))
  finally show ?thesis
    using sha2_compress_adds [OF assms(2), of sha512_funs K512 "map inp [0..<16]"]
    unfolding SHA3_ROUND_BODY_def Let_def by (simp only:)
qed

definition be_words64 :: "u8 list \<Rightarrow> u64 list" where
  "be_words64 blk = map (\<lambda>i. be_load (take 8 (drop (8 * i) blk))) [0..<16]"

definition sha512_block :: "u64 list \<Rightarrow> u8 list \<Rightarrow> u64 list" where
  "sha512_block h blk = sha2_compress sha512_funs K512 (be_words64 blk) h"

lemma length_sha512_block [simp]: "length h = 8 \<Longrightarrow> length (sha512_block h blk) = 8"
  by (simp add: sha512_block_def)

lemma sha3_round_block: "length r = 8 \<Longrightarrow> sha3_round data r = sha512_block r data"
  by (simp add: sha3_round_def SHA3_ROUND_BODY_compress sha512_block_def be_words64_def sph_dec64be_aligned_def)

end
