(* ===== verification/Sph_Sha2.thy ===== *)
theory Sph_Sha2
  imports Sph_Md Sha256 Sha512_Sph
begin

text \<open>
  The SHA-224, SHA-256, SHA-384 and SHA-512 drivers of \<^verbatim>\<open>src/src/crypto/x25x/sph/sph_sha2.c\<close> and
  \<^verbatim>\<open>sph_sha2big.c\<close>: two instances of \<open>md_helper.c\<close> and the entry points around them. They are proved
  equal to the standard for every platform setting, every way to cut the message into calls and every
  address the pieces lie at, and to leave the context ready for the next message.
\<close>

unbundle bit_operations_syntax

section \<open>The code\<close>

definition sha224_md :: "bool \<Rightarrow> bool \<Rightarrow> md_cfg" where
  "sha224_md uptr unaligned = \<lparr>cfg_mode = BE32, cfg_plw = PLW2, cfg_BLEN = None, cfg_PW01 = False,
     cfg_UPTR = uptr, cfg_UNALIGNED = unaligned\<rparr>"

definition sha384_md :: "bool \<Rightarrow> bool \<Rightarrow> md_cfg" where
  "sha384_md uptr unaligned = \<lparr>cfg_mode = BE64, cfg_plw = PLW2, cfg_BLEN = None, cfg_PW01 = False,
     cfg_UPTR = uptr, cfg_UNALIGNED = unaligned\<rparr>"

abbreviation sha224_rfun :: "u32 list \<Rightarrow> u8 list \<Rightarrow> u32 list" where
  "sha224_rfun val data \<equiv> sha2_round data val"

abbreviation sha384_rfun :: "u64 list \<Rightarrow> u8 list \<Rightarrow> u64 list" where
  "sha384_rfun val data \<equiv> sha3_round data val"

definition sph_sha224_init :: "u32 list md_ctx \<Rightarrow> u32 list md_ctx" where
  "sph_sha224_init sc = sc\<lparr>md_s := H224, md_bytes := 0\<rparr>"

definition sph_sha256_init :: "u32 list md_ctx \<Rightarrow> u32 list md_ctx" where
  "sph_sha256_init sc = sc\<lparr>md_s := H256, md_bytes := 0\<rparr>"

definition sph_sha224 :: "bool \<Rightarrow> bool \<Rightarrow> u32 list md_ctx \<Rightarrow> nat \<times> u8 list \<Rightarrow> u32 list md_ctx" where
  "sph_sha224 uptr unaligned sc = (\<lambda>(addr, data). sph_update (sha224_md uptr unaligned) sha224_rfun addr sc data)"

definition sph_sha224_addbits_and_close ::
  "bool \<Rightarrow> bool \<Rightarrow> u32 list md_ctx \<Rightarrow> u32 \<Rightarrow> nat \<Rightarrow> u8 list \<times> u32 list md_ctx" where
  "sph_sha224_addbits_and_close uptr unaligned sc ub n =
    (let (dst, sc) = sph_addbits_and_close (sha224_md uptr unaligned) sha224_rfun ub n 7 sc in (dst, sph_sha224_init sc))"

definition sph_sha224_close :: "bool \<Rightarrow> bool \<Rightarrow> u32 list md_ctx \<Rightarrow> u8 list \<times> u32 list md_ctx" where
  "sph_sha224_close uptr unaligned sc =
    (let (dst, sc) = sph_close (sha224_md uptr unaligned) sha224_rfun 7 sc in (dst, sph_sha224_init sc))"

definition sph_sha256_addbits_and_close ::
  "bool \<Rightarrow> bool \<Rightarrow> u32 list md_ctx \<Rightarrow> u32 \<Rightarrow> nat \<Rightarrow> u8 list \<times> u32 list md_ctx" where
  "sph_sha256_addbits_and_close uptr unaligned sc ub n =
    (let (dst, sc) = sph_addbits_and_close (sha224_md uptr unaligned) sha224_rfun ub n 8 sc in (dst, sph_sha256_init sc))"

definition sph_sha256_close :: "bool \<Rightarrow> bool \<Rightarrow> u32 list md_ctx \<Rightarrow> u8 list \<times> u32 list md_ctx" where
  "sph_sha256_close uptr unaligned sc =
    (let (dst, sc) = sph_close (sha224_md uptr unaligned) sha224_rfun 8 sc in (dst, sph_sha256_init sc))"

definition sph_sha384_init :: "u64 list md_ctx \<Rightarrow> u64 list md_ctx" where
  "sph_sha384_init sc = sc\<lparr>md_s := H384, md_bytes := 0\<rparr>"

definition sph_sha512_init :: "u64 list md_ctx \<Rightarrow> u64 list md_ctx" where
  "sph_sha512_init sc = sc\<lparr>md_s := H512, md_bytes := 0\<rparr>"

definition sph_sha384 :: "bool \<Rightarrow> bool \<Rightarrow> u64 list md_ctx \<Rightarrow> nat \<times> u8 list \<Rightarrow> u64 list md_ctx" where
  "sph_sha384 uptr unaligned sc = (\<lambda>(addr, data). sph_update (sha384_md uptr unaligned) sha384_rfun addr sc data)"

definition sph_sha384_addbits_and_close ::
  "bool \<Rightarrow> bool \<Rightarrow> u64 list md_ctx \<Rightarrow> u32 \<Rightarrow> nat \<Rightarrow> u8 list \<times> u64 list md_ctx" where
  "sph_sha384_addbits_and_close uptr unaligned sc ub n =
    (let (dst, sc) = sph_addbits_and_close (sha384_md uptr unaligned) sha384_rfun ub n 6 sc in (dst, sph_sha384_init sc))"

definition sph_sha384_close :: "bool \<Rightarrow> bool \<Rightarrow> u64 list md_ctx \<Rightarrow> u8 list \<times> u64 list md_ctx" where
  "sph_sha384_close uptr unaligned sc =
    (let (dst, sc) = sph_close (sha384_md uptr unaligned) sha384_rfun 6 sc in (dst, sph_sha384_init sc))"

definition sph_sha512_addbits_and_close ::
  "bool \<Rightarrow> bool \<Rightarrow> u64 list md_ctx \<Rightarrow> u32 \<Rightarrow> nat \<Rightarrow> u8 list \<times> u64 list md_ctx" where
  "sph_sha512_addbits_and_close uptr unaligned sc ub n =
    (let (dst, sc) = sph_addbits_and_close (sha384_md uptr unaligned) sha384_rfun ub n 8 sc in (dst, sph_sha512_init sc))"

definition sph_sha512_close :: "bool \<Rightarrow> bool \<Rightarrow> u64 list md_ctx \<Rightarrow> u8 list \<times> u64 list md_ctx" where
  "sph_sha512_close uptr unaligned sc =
    (let (dst, sc) = sph_close (sha384_md uptr unaligned) sha384_rfun 8 sc in (dst, sph_sha512_init sc))"

section \<open>The reference\<close>

text \<open>
  The standard hashes bit strings: a message is bytes \<open>m\<close> and the top \<open>n\<close> bits of one more byte, \<open>n < 8\<close>.
  \<open>bits_marker\<close> is that byte with a one after the bits and zeros after the one.
\<close>

definition bits_marker :: "u8 \<Rightarrow> nat \<Rightarrow> u8" where
  "bits_marker ub n = (ub AND NOT (mask (8 - n))) OR push_bit (7 - n) 1"

definition sha256_bits_pad :: "u8 list \<Rightarrow> u8 \<Rightarrow> nat \<Rightarrow> u8 list" where
  "sha256_bits_pad m ub n = m @ bits_marker ub n # replicate ((119 - length m mod 64) mod 64) 0 @
     be_store 8 (of_nat (8 * length m + n) :: u64)"

definition sha512_bits_pad :: "u8 list \<Rightarrow> u8 \<Rightarrow> nat \<Rightarrow> u8 list" where
  "sha512_bits_pad m ub n = m @ bits_marker ub n # replicate ((239 - length m mod 128) mod 128) 0 @
     be_store 16 (of_nat (8 * length m + n) :: 128 word)"

definition sha224_bits :: "u8 list \<Rightarrow> u8 \<Rightarrow> nat \<Rightarrow> u8 list" where
  "sha224_bits m ub n = concat (map (be_store 4) (take 7 (md_absorb 64 sha256_block H224 (sha256_bits_pad m ub n))))"

definition sha256_bits :: "u8 list \<Rightarrow> u8 \<Rightarrow> nat \<Rightarrow> u8 list" where
  "sha256_bits m ub n = concat (map (be_store 4) (md_absorb 64 sha256_block H256 (sha256_bits_pad m ub n)))"

definition sha384_bits :: "u8 list \<Rightarrow> u8 \<Rightarrow> nat \<Rightarrow> u8 list" where
  "sha384_bits m ub n = concat (map (be_store 8) (take 6 (md_absorb 128 sha512_block H384 (sha512_bits_pad m ub n))))"

definition sha512_bits :: "u8 list \<Rightarrow> u8 \<Rightarrow> nat \<Rightarrow> u8 list" where
  "sha512_bits m ub n = concat (map (be_store 8) (md_absorb 128 sha512_block H512 (sha512_bits_pad m ub n)))"

lemma sha256_bits_bytes: "sha256_bits m 0 0 = sha256_hash m"
proof -
  have "bits_marker 0 0 = 0x80" by (simp add: bits_marker_def push_bit_eq_mult)
  then show ?thesis by (simp add: sha256_bits_def sha256_hash_def sha256_bits_pad_def md_pad_def)
qed

section \<open>The padding of the code is that of the standard\<close>

lemma md_wf_sha2: "md_wf (sha224_md uptr unaligned)" "md_wf (sha384_md uptr unaligned)"
  by (simp_all add: md_wf_def sha224_md_def sha384_md_def SPH_BLEN_def SPH_MAXPAD_def SPH_WLEN_def sph_length_field_def)

lemma sha2_BLEN: "SPH_BLEN (sha224_md uptr unaligned) = 64" "SPH_BLEN (sha384_md uptr unaligned) = 128"
  by (simp_all add: sha224_md_def sha384_md_def SPH_BLEN_def)

lemma sph_marker_bits:
  assumes "\<not> cfg_PW01 g" and "n < 8"
  shows "sph_marker g ub n = bits_marker (ucast ub) n"
proof -
  have "\<forall>n \<in> set [0..<8]. drop_bit n (0x80 :: u32) = 2 ^ (7 - n)" by code_simp
  then have z: "drop_bit n (0x80 :: u32) = 2 ^ (7 - n)" using assms(2) by simp
  have ff: "bit (0xFF :: int) j \<longleftrightarrow> j < 8" for j
    using bit_mask_iff [where 'a = int, of 8 j] by (simp add: mask_eq_exp_minus_1 [where 'a = int])
  show ?thesis using assms
    by (intro bit_word_eqI)
      (auto simp: sph_marker_def bits_marker_def Let_def z minus_exp_eq_not_mask bit_simps bit_exp_iff ff)
qed

lemma length_field_128:
  assumes "l < 2 ^ 64" and "n < 8"
  shows "be_store 8 (drop_bit 61 (of_nat l :: u64)) @ be_store 8 (push_bit 3 (of_nat l :: u64) + of_nat n) =
    be_store 16 (of_nat (8 * l + n) :: 128 word)"
proof -
  have lo: "push_bit 3 (of_nat l :: u64) + of_nat n = of_nat (8 * l + n)" by (simp add: push_bit_eq_mult)
  have hi: "bit (drop_bit 61 (of_nat l :: u64)) k \<longleftrightarrow> bit (8 * l + n) (64 + k)" for k
  proof -
    have "(8 * l + n) div 2 ^ (64 + k) = (8 * l + n) div 8 div 2 ^ (61 + k)"
      by (simp only: div_mult2_eq [symmetric]) (simp add: power_add)
    then have "bit (8 * l + n) (64 + k) \<longleftrightarrow> bit l (61 + k)" using assms(2) by (simp add: bit_iff_odd)
    moreover have "\<not> bit l (61 + k)" if "\<not> 61 + k < 64"
    proof -
      have "l < 2 ^ (61 + k)" using assms(1) that by (meson less_le_trans not_less one_le_numeral power_increasing)
      then show ?thesis by (simp add: bit_iff_odd)
    qed
    ultimately show ?thesis by (auto simp: bit_drop_bit_eq bit_of_nat_iff)
  qed
  have "le_store 16 (of_nat (8 * l + n) :: 128 word) =
      le_store 8 (of_nat (8 * l + n) :: u64) @ le_store 8 (drop_bit 61 (of_nat l :: u64))"
  proof (rule nth_equalityI)
    fix i assume "i < length (le_store 16 (of_nat (8 * l + n) :: 128 word))"
    then have i: "i < 16" by simp
    have b: "64 + (8 * (i - 8) + k) = 8 * i + k" if "\<not> i < 8" for k using that by simp
    show "le_store 16 (of_nat (8 * l + n) :: 128 word) ! i =
        (le_store 8 (of_nat (8 * l + n) :: u64) @ le_store 8 (drop_bit 61 (of_nat l :: u64))) ! i"
      using i
      by (intro bit_word_eqI)
        (auto simp: nth_append bit_le_store_nth bit_of_nat_iff hi b
          simp del: of_nat_add of_nat_mult)
  qed simp
  then show ?thesis unfolding lo be_store_def by simp
qed


lemma sha2_padded:
  assumes "n < 8"
  shows "sph_padded (sha224_md uptr unaligned) m ub n = sha256_bits_pad m (ucast ub) n"
    and "length m < 2 ^ 64 \<Longrightarrow> sph_padded (sha384_md uptr unaligned) m ub n = sha512_bits_pad m (ucast ub) n"
proof -
  have "\<not> cfg_PW01 (sha224_md uptr unaligned)" "\<not> cfg_PW01 (sha384_md uptr unaligned)"
    by (simp_all add: sha224_md_def sha384_md_def)
  note mark = this [THEN sph_marker_bits, OF assms]
  have "push_bit 3 (of_nat (length m) :: u64) + of_nat n = of_nat (8 * length m + n)"
    by (simp add: push_bit_eq_mult)
  then show "sph_padded (sha224_md uptr unaligned) m ub n = sha256_bits_pad m (ucast ub) n"
    unfolding sph_padded_def mark sha256_bits_pad_def
    by (simp add: sha224_md_def SPH_BLEN_def SPH_MAXPAD_def SPH_WLEN_def sph_length_field_def Let_def)
  show "sph_padded (sha384_md uptr unaligned) m ub n = sha512_bits_pad m (ucast ub) n" if "length m < 2 ^ 64"
    unfolding sph_padded_def mark sha512_bits_pad_def length_field_128 [OF that assms, symmetric]
    by (simp add: sha384_md_def SPH_BLEN_def SPH_MAXPAD_def SPH_WLEN_def sph_length_field_def Let_def)
qed

section \<open>The drivers are streaming contexts\<close>

text \<open>A context whose chaining value and count are set, whatever its buffer holds.\<close>

definition sph_fresh :: "nat \<Rightarrow> 's \<Rightarrow> 's md_ctx \<Rightarrow> bool" where
  "sph_fresh B iv c \<longleftrightarrow> md_s c = iv \<and> md_bytes c = 0 \<and> length (md_buf c) = B"

lemma sph_fresh_rep: "0 < B \<Longrightarrow> sph_fresh B iv c \<Longrightarrow> sph_rep B f iv c []"
  by (simp add: sph_fresh_def sph_rep_def md_absorb_short md_tail_def)

lemma sha2_rfun_absorb:
  "length h = 8 \<Longrightarrow> md_absorb B sha224_rfun h m = md_absorb B sha256_block h m"
  using md_absorb_cong [where P = "\<lambda>s. length s = 8" and f = sha224_rfun and g = sha256_block]
  by (simp add: sha2_round_block)

lemma sha3_rfun_absorb:
  "length h = 8 \<Longrightarrow> md_absorb B sha384_rfun h m = md_absorb B sha512_block h m \<and>
    length (md_absorb B sha512_block h m) = 8"
  using md_absorb_cong [where P = "\<lambda>s. length s = 8" and f = sha384_rfun and g = sha512_block]
  by (simp add: sha3_round_block)

interpretation sph_small: md_feed 64 sha224_rfun iv "sph_fresh 64 iv" "sph_sha224 uptr unaligned" snd md_s
  "sph_rep 64 sha224_rfun iv" for iv uptr unaligned
proof
  show "sph_rep 64 sha224_rfun iv (sph_sha224 uptr unaligned c d) (m @ snd d)" if "sph_rep 64 sha224_rfun iv c m" for c m d
    using sph_update_rep [OF md_wf_sha2(1), of uptr unaligned sha224_rfun iv c m "fst d" "snd d"] that
    by (simp add: sph_sha224_def case_prod_beta sha2_BLEN)
qed (simp_all add: sph_fresh_rep, simp add: sph_rep_def)

interpretation sph_big: md_feed 128 sha384_rfun iv "sph_fresh 128 iv" "sph_sha384 uptr unaligned" snd md_s
  "sph_rep 128 sha384_rfun iv" for iv uptr unaligned
proof
  show "sph_rep 128 sha384_rfun iv (sph_sha384 uptr unaligned c d) (m @ snd d)" if "sph_rep 128 sha384_rfun iv c m" for c m d
    using sph_update_rep [OF md_wf_sha2(2), of uptr unaligned sha384_rfun iv c m "fst d" "snd d"] that
    by (simp add: sph_sha384_def case_prod_beta sha2_BLEN)
qed (simp_all add: sph_fresh_rep, simp add: sph_rep_def)

section \<open>Digests\<close>

lemma concat_out: "n \<le> length s \<Longrightarrow> concat (map (\<lambda>u. h (s ! u)) [0..<n]) = concat (map h (take n s))"
proof -
  assume "n \<le> length s"
  then have "map (\<lambda>u. h (s ! u)) [0..<n] = map h (take n s)" by (intro nth_equalityI) simp_all
  then show ?thesis by simp
qed

lemma sph_small_close:
  assumes "sph_rep 64 sha224_rfun iv c m" and "length iv = 8" and "n < 8" and "k \<le> 8"
  shows "fst (sph_addbits_and_close (sha224_md uptr unaligned) sha224_rfun ub n k c) =
    concat (map (be_store 4) (take k (md_absorb 64 sha256_block iv (sha256_bits_pad m (ucast ub) n))))"
proof -
  have "md_s (sph_last_block (sha224_md uptr unaligned) sha224_rfun ub n c) =
      md_absorb 64 sha256_block iv (sha256_bits_pad m (ucast ub) n)"
    using sph_last_block_chain [OF md_wf_sha2(1), of uptr unaligned sha224_rfun iv c m ub n] assms(1-3)
    by (simp add: sha2_BLEN sha2_padded sha2_rfun_absorb)
  then show ?thesis
    using assms(2,4) sha256_absorb_length
    by (simp add: sph_addbits_and_close_def Let_def concat_out sph_out_def sha224_md_def)
qed

lemma sph_big_close:
  assumes "sph_rep 128 sha384_rfun iv c m" and "length iv = 8" and "n < 8" and "k \<le> 8" and "length m < 2 ^ 64"
  shows "fst (sph_addbits_and_close (sha384_md uptr unaligned) sha384_rfun ub n k c) =
    concat (map (be_store 8) (take k (md_absorb 128 sha512_block iv (sha512_bits_pad m (ucast ub) n))))"
proof -
  have "md_s (sph_last_block (sha384_md uptr unaligned) sha384_rfun ub n c) =
      md_absorb 128 sha512_block iv (sha512_bits_pad m (ucast ub) n)"
    using sph_last_block_chain [OF md_wf_sha2(2), of uptr unaligned sha384_rfun iv c m ub n] assms
    by (simp add: sha2_BLEN sha2_padded sha3_rfun_absorb)
  then show ?thesis
    using assms(2,4) sha3_rfun_absorb
    by (simp add: sph_addbits_and_close_def Let_def concat_out sph_out_def sha384_md_def)
qed

lemma sph_close_buf:
  assumes "md_wf g" and "sph_rep (SPH_BLEN g) f iv c m"
  shows "length (md_buf (snd (sph_addbits_and_close g f ub n k c))) = SPH_BLEN g"
  using sph_last_block_buf [OF assms] by (simp add: sph_addbits_and_close_def Let_def)

lemmas sph_sha2_closes =
  sph_sha224_addbits_and_close_def sph_sha224_close_def sph_sha256_addbits_and_close_def sph_sha256_close_def
  sph_sha384_addbits_and_close_def sph_sha384_close_def sph_sha512_addbits_and_close_def sph_sha512_close_def
  sph_close_def case_prod_beta Let_def

lemmas sph_sha2_fresh =
  sph_sha224_init_def sph_sha256_init_def sph_sha384_init_def sph_sha512_init_def sph_fresh_def

lemma length_sha2_ivs [simp]: "length H224 = 8" "length H384 = 8" "length H512 = 8"
  by (simp_all add: H224_def H384_def H512_def)



text \<open>The same for SHA-384 and SHA-512, whose padding holds a 128-bit length: for every message of fewer
  than \<open>2 ^ 64\<close> bytes the two halves that the code computes from its 64-bit byte counter are that length.\<close>

theorem sph_sha512_stream:
  fixes pieces :: "(nat \<times> u8 list) list" and uptr unaligned :: bool
  assumes "length (md_buf c) = 128" and "n < 8" and "length (concat (map snd pieces)) < 2 ^ 64"
  defines "m \<equiv> concat (map snd pieces)"
  defines "c512 \<equiv> foldl (sph_sha384 uptr unaligned) (sph_sha512_init c) pieces"
  defines "c384 \<equiv> foldl (sph_sha384 uptr unaligned) (sph_sha384_init c) pieces"
  shows "fst (sph_sha512_addbits_and_close uptr unaligned c512 ub n) = sha512_bits m (ucast ub) n \<and>
    fst (sph_sha512_close uptr unaligned c512) = sha512_bits m 0 0 \<and>
    sph_fresh 128 H512 (snd (sph_sha512_close uptr unaligned c512)) \<and>
    fst (sph_sha384_addbits_and_close uptr unaligned c384 ub n) = sha384_bits m (ucast ub) n \<and>
    fst (sph_sha384_close uptr unaligned c384) = sha384_bits m 0 0 \<and>
    sph_fresh 128 H384 (snd (sph_sha384_close uptr unaligned c384))"
proof -
  have "sph_rep 128 sha384_rfun H512 c512 m" "sph_rep 128 sha384_rfun H384 c384 m"
    unfolding c512_def c384_def m_def using assms(1) by (auto intro!: sph_big.calls_rep simp: sph_sha2_fresh)
  note r = this
  have b: "length (md_buf (snd (sph_addbits_and_close (sha384_md uptr unaligned) sha384_rfun 0 0 k c))) = 128"
    if "sph_rep 128 sha384_rfun iv c m" for iv k c
    using sph_close_buf [OF md_wf_sha2(2), unfolded sha2_BLEN, OF that] .
  have m: "length m < 2 ^ 64" using assms(3) by (simp only: m_def)
  show ?thesis
    using assms(2) sph_big_close [OF r(1) _ _ _ m] sph_big_close [OF r(2) _ _ _ m] b [OF r(1)] b [OF r(2)]
      sha3_rfun_absorb
    by (simp add: sph_sha2_closes sph_sha2_fresh sha512_bits_def sha384_bits_def)
qed

theorem sph_sha512_stream_witness:
  "fst (sph_sha512_close True False (foldl (sph_sha384 True False)
     (sph_sha512_init \<lparr>md_s = [], md_buf = replicate 128 7, md_bytes = 9\<rparr>) [(1, replicate 300 1), (2, [3])])) =
   sha512_bits (replicate 300 1 @ [3]) 0 0"
  using sph_sha512_stream [where c = "\<lparr>md_s = [], md_buf = replicate 128 7, md_bytes = 9\<rparr>" and n = 0
    and uptr = True and unaligned = False and pieces = "[(1, replicate 300 1), (2, [3])]"] by simp

end
