(* ===== verification/Stratum_Conn.thy ===== *)
theory Stratum_Conn
  imports Prelude
begin

text \<open>
  How the pool turns a TCP stream into requests: \<open>Server::HandleReadable\<close> of \<^verbatim>\<open>src/src/stratum/server.cpp\<close>
  receives into the fixed buffer of a connection, and \<open>StratumServer::HandleConsumeable\<close> of
  \<^verbatim>\<open>src/src/stratum/stratum_server.cpp\<close> hands every complete line to \<open>HandleReq\<close> and moves the rest to the
  front. The handler is a parameter, a function on the state \<open>'st\<close> of the pool; what the socket
  does is a list of events. \<open>pad\<close> is \<open>SIMDJSON_PADDING\<close>, a constant of the JSON library. The
  theorems state that the buffer is never overrun and that framing does not depend on how the
  network cuts the stream.
\<close>

section \<open>The code\<close>

definition REQ_BUFF_SIZE :: nat where
  "REQ_BUFF_SIZE = 1024 * 24"

definition REQ_BUFF_SIZE_REAL :: "nat \<Rightarrow> nat" where
  "REQ_BUFF_SIZE_REAL pad = REQ_BUFF_SIZE - pad"

record connection =
  req_pos :: nat
  req_buff :: "u8 list"

text \<open>
  \<open>strchr\<close>: the distance to the first occurrence, none if the terminator comes first. A search that
  leaves the array without meeting a terminator is undefined in C; the invariant below excludes it.
\<close>

fun strchr :: "u8 list \<Rightarrow> u8 \<Rightarrow> nat option" where
  "strchr [] c = None"
| "strchr (b # bs) c = (if b = c then Some 0 else if b = 0 then None else map_option Suc (strchr bs c))"

text \<open>\<open>while (req_end)\<close>: \<open>start\<close> is \<open>req_start - buffer\<close>, \<open>last_end\<close> is \<open>last_req_end - buffer\<close>.\<close>

function consume_loop ::
  "('st \<Rightarrow> u8 list \<Rightarrow> 'st) \<Rightarrow> u8 list \<Rightarrow> nat \<Rightarrow> nat option \<Rightarrow> 'st \<Rightarrow> nat option \<times> 'st" where
  "consume_loop HandleReq buffer start last_end st =
    (if start < length buffer
     then case strchr (drop start buffer) 10 of
            None \<Rightarrow> (last_end, st)
          | Some req_len \<Rightarrow>
              consume_loop HandleReq buffer (start + req_len + 1) (Some (start + req_len))
                (HandleReq st (take req_len (drop start buffer)))
     else (last_end, st))"
  by pat_completeness auto
termination
  by (relation "measure (\<lambda>(h, b, s, l, st). length b - s)") auto

declare consume_loop.simps [simp del]

definition HandleConsumeable ::
  "('st \<Rightarrow> u8 list \<Rightarrow> 'st) \<Rightarrow> connection \<Rightarrow> 'st \<Rightarrow> connection \<times> 'st" where
  "HandleConsumeable HandleReq conn st =
    (case consume_loop HandleReq (req_buff conn) 0 None st of
       (None, st) \<Rightarrow> (conn, st)
     | (Some last_req_end, st) \<Rightarrow>
         let next_req_len = req_pos conn - (last_req_end + 1);
             moved = take next_req_len (drop (last_req_end + 1) (req_buff conn));
             buffer = moved @ drop next_req_len (req_buff conn)
         in (conn\<lparr>req_buff := buffer[next_req_len := 0], req_pos := next_req_len\<rparr>, st))"

text \<open>
  What one call of \<open>recv\<close> does: it returns some of the bytes the peer sent, at most as many as the
  caller has room for (\<open>Data\<close> names what has arrived), nothing because the peer closed (\<open>Eof\<close>),
  \<open>EAGAIN\<close>, after which the socket is armed again (the flag says whether that worked), or another error.
\<close>

datatype recv_event = Data "u8 list" | Eof | Again bool | Error

definition recv_room :: "nat \<Rightarrow> connection \<Rightarrow> nat" where
  "recv_room pad conn = REQ_BUFF_SIZE_REAL pad - req_pos conn - 1"

text \<open>One successful \<open>recv\<close>, and what follows it in the loop.\<close>

definition receive :: "('st \<Rightarrow> u8 list \<Rightarrow> 'st) \<Rightarrow> u8 list \<Rightarrow> connection \<Rightarrow> 'st \<Rightarrow> connection \<times> 'st" where
  "receive HandleReq bs conn st =
    (let buffer = take (req_pos conn) (req_buff conn) @ bs @ drop (req_pos conn + length bs) (req_buff conn);
         pos = req_pos conn + length bs
     in HandleConsumeable HandleReq (conn\<lparr>req_buff := buffer[pos := 0], req_pos := pos\<rparr>) st)"

text \<open>
  \<open>while (true)\<close>. The result is what \<open>HandleReadable\<close> returns, none while it waits for events; what
  does not fit stays in the socket and comes with the next call.
\<close>

function HandleReadable ::
  "nat \<Rightarrow> ('st \<Rightarrow> u8 list \<Rightarrow> 'st) \<Rightarrow> recv_event list \<Rightarrow> connection \<Rightarrow> 'st \<Rightarrow> bool option \<times> connection \<times> 'st" where
  "HandleReadable pad HandleReq [] conn st = (None, conn, st)"
| "HandleReadable pad HandleReq (Again rearmed # es) conn st = (Some rearmed, conn, st)"
| "HandleReadable pad HandleReq (Error # es) conn st = (Some False, conn, st)"
| "HandleReadable pad HandleReq (Eof # es) conn st =
    (let (conn, st) = receive HandleReq [] conn st in (Some False, conn, st))"
| "HandleReadable pad HandleReq (Data bs # es) conn st =
    (let bs1 = take (recv_room pad conn) bs;
         bs2 = drop (recv_room pad conn) bs;
         (conn, st) = receive HandleReq bs1 conn st
     in if bs1 = [] then (Some False, conn, st)
        else HandleReadable pad HandleReq (if bs2 = [] then es else Data bs2 # es) conn st)"
  by pat_completeness auto
termination
  by (relation "measure (\<lambda>(p, h, es, c, st). length es + sum_list (map (\<lambda>e. case e of Data bs \<Rightarrow> length bs | _ \<Rightarrow> 0) es))")
    auto

section \<open>The specification\<close>

text \<open>A stream cut at its newlines: the complete lines, and what follows the last newline.\<close>

fun cut_lines :: "u8 list \<Rightarrow> u8 list list \<times> u8 list" where
  "cut_lines [] = ([], [])"
| "cut_lines (b # bs) =
    (let (ls, rest) = cut_lines bs
     in if b = 10 then ([] # ls, rest)
        else case ls of [] \<Rightarrow> ([], b # rest) | l # ls' \<Rightarrow> ((b # l) # ls', rest))"

lemma cut_lines_none: "10 \<notin> set x \<Longrightarrow> cut_lines x = ([], x)"
  by (induction x) auto

lemma cut_lines_line: "10 \<notin> set x \<Longrightarrow> cut_lines (x @ 10 # y) = (x # fst (cut_lines y), snd (cut_lines y))"
  by (induction x) (auto simp: case_prod_beta)

lemma cut_lines_rest: "10 \<notin> set (snd (cut_lines x))"
  by (induction x) (auto simp: case_prod_beta Let_def split: list.splits)

lemma cut_lines_append:
  "cut_lines (x @ y) = (fst (cut_lines x) @ fst (cut_lines (snd (cut_lines x) @ y)), snd (cut_lines (snd (cut_lines x) @ y)))"
proof (induction "length x" arbitrary: x rule: less_induct)
  case less
  show ?case
  proof (cases "10 \<in> set x")
    case True
    then obtain a b where x: "x = a @ 10 # b" "10 \<notin> set a" by (meson split_list_first)
    then show ?thesis using less [of b] cut_lines_line [OF x(2), of b] cut_lines_line [OF x(2), of "b @ y"] by simp
  next
    case False
    then show ?thesis by (simp add: cut_lines_none)
  qed
qed

section \<open>One turn\<close>

lemma strchr_find:
  assumes "10 \<notin> set x" and "0 \<notin> set x"
  shows "strchr (x @ 10 # y) 10 = Some (length x)" "strchr (x @ 0 # y) 10 = None"
  using assms by (induction x) auto

text \<open>The loop hands out the complete lines of the content, in order.\<close>

lemma consume_loop_lines:
  assumes "0 \<notin> set x" and "buffer = p @ x @ 0 # z"
  shows "consume_loop h buffer (length p) last_end st =
    (if fst (cut_lines x) = [] then last_end else Some (length p + length x - length (snd (cut_lines x)) - 1),
     foldl h st (fst (cut_lines x)))"
  using assms
proof (induction "length x" arbitrary: x p last_end st rule: less_induct)
  case less
  show ?case
  proof (cases "10 \<in> set x")
    case True
    then obtain a b where x: "x = a @ 10 # b" and a: "10 \<notin> set a" by (meson split_list_first)
    have len: "length (snd (cut_lines b)) \<le> length b"
      by (induction b) (auto simp: case_prod_beta Let_def split: list.splits)
    have "consume_loop h buffer (length (p @ a @ [10])) (Some (length p + length a)) (h st a) =
        (if fst (cut_lines b) = [] then Some (length p + length a)
         else Some (length (p @ a @ [10]) + length b - length (snd (cut_lines b)) - 1),
         foldl h (h st a) (fst (cut_lines b)))"
      using less(1) [of b "p @ a @ [10]"] less(2,3) x by simp
    moreover have "fst (cut_lines b) = [] \<Longrightarrow> snd (cut_lines b) = b"
      by (metis cut_lines_none cut_lines_line list.distinct(1) fst_conv snd_conv split_list_first)
    moreover have "strchr (drop (length p) buffer) 10 = Some (length a)"
      using less(2,3) x strchr_find(1) [OF a, of "b @ 0 # z"] by simp
    ultimately show ?thesis
      using less(3) x len cut_lines_line [OF a, of b] by (subst consume_loop.simps) auto
  next
    case False
    then show ?thesis
      using less(2,3) strchr_find(2) [OF False, of z] by (subst consume_loop.simps) (simp add: cut_lines_none)
  qed
qed


section \<open>The buffer is never overrun\<close>

text \<open>The array has its size, and there is room for the terminator in front of the padding.\<close>

definition conn_ok :: "nat \<Rightarrow> connection \<Rightarrow> bool" where
  "conn_ok pad conn \<longleftrightarrow> length (req_buff conn) = REQ_BUFF_SIZE \<and> req_pos conn < REQ_BUFF_SIZE_REAL pad"

lemma strchr_bound: "strchr bs c = Some k \<Longrightarrow> q < length bs \<Longrightarrow> bs ! q = 0 \<Longrightarrow> c \<noteq> 0 \<Longrightarrow> k < q"
proof (induction bs arbitrary: k q)
  case (Cons b bs)
  then show ?case by (cases q) (auto split: if_splits)
qed simp

lemma consume_loop_bound:
  assumes "consume_loop h buffer start last_end st = (r, st')" and "q < length buffer" and "buffer ! q = 0"
    and "start \<le> q" and "pred_option (\<lambda>k. k < q) last_end"
  shows "pred_option (\<lambda>k. k < q) r"
  using assms
proof (induction h buffer start last_end st rule: consume_loop.induct)
  case (1 h buffer start last_end st)
  show ?case
  proof (cases "strchr (drop start buffer) 10")
    case None
    then show ?thesis using 1(2,6) by (subst (asm) consume_loop.simps) (auto split: if_splits)
  next
    case (Some k)
    have "k < q - start" using strchr_bound [OF Some, of "q - start"] 1(3-5) by simp
    then show ?thesis using 1(1) [OF _ Some] 1(2-5) Some by (subst (asm) consume_loop.simps) simp
  qed
qed

lemma HandleConsumeable_ok:
  assumes "conn_ok pad conn" and "req_buff conn ! req_pos conn = 0"
  shows "conn_ok pad (fst (HandleConsumeable h conn st))"
proof -
  obtain r st' where r: "consume_loop h (req_buff conn) 0 None st = (r, st')" by (metis surj_pair)
  have "req_pos conn < length (req_buff conn)" using assms(1) by (auto simp: conn_ok_def REQ_BUFF_SIZE_REAL_def)
  then have "pred_option (\<lambda>k. k < req_pos conn) r" using consume_loop_bound [OF r] assms(2) by simp
  then show ?thesis
    using r assms(1) \<open>req_pos conn < length (req_buff conn)\<close>
    by (cases r) (auto simp: HandleConsumeable_def conn_ok_def Let_def min_def)
qed

lemma receive_ok:
  assumes "conn_ok pad conn" and "length bs \<le> recv_room pad conn"
  shows "conn_ok pad (fst (receive h bs conn st))"
proof -
  have "req_pos conn + length bs < REQ_BUFF_SIZE_REAL pad" "REQ_BUFF_SIZE_REAL pad \<le> REQ_BUFF_SIZE"
    using assms by (auto simp: conn_ok_def recv_room_def REQ_BUFF_SIZE_REAL_def)
  then show ?thesis
    using assms(1) unfolding receive_def Let_def
    by (intro HandleConsumeable_ok) (auto simp: conn_ok_def)
qed



section \<open>Framing\<close>

definition conn_holds :: "nat \<Rightarrow> connection \<Rightarrow> u8 list \<Rightarrow> bool" where
  "conn_holds pad conn x \<longleftrightarrow> conn_ok pad conn \<and> req_pos conn = length x \<and> take (length x) (req_buff conn) = x"

lemma cut_lines_rest_suffix:
  "\<exists>p. x = p @ snd (cut_lines x) \<and> (fst (cut_lines x) = [] \<longleftrightarrow> p = [])"
proof (induction "length x" arbitrary: x rule: less_induct)
  case less
  show ?case
  proof (cases "10 \<in> set x")
    case True
    then obtain a b where x: "x = a @ 10 # b" "10 \<notin> set a" by (meson split_list_first)
    then obtain p where "b = p @ snd (cut_lines b)" using less [of b] by auto
    then show ?thesis using x cut_lines_line [OF x(2), of b] by (intro exI [of _ "a @ 10 # p"]) simp
  qed (simp add: cut_lines_none)
qed

text \<open>Bytes that fit extend the content; the lines completed by them go to the handler.\<close>

lemma receive_lines:
  assumes "conn_holds pad conn x" and "length bs \<le> recv_room pad conn" and "0 \<notin> set (x @ bs)"
  shows "conn_holds pad (fst (receive h bs conn st)) (snd (cut_lines (x @ bs))) \<and>
    snd (receive h bs conn st) = foldl h st (fst (cut_lines (x @ bs)))"
proof -
  let ?y = "x @ bs" and ?R = "REQ_BUFF_SIZE_REAL pad"
  have c: "length (req_buff conn) = REQ_BUFF_SIZE" "req_pos conn = length x" "take (length x) (req_buff conn) = x"
    using assms(1) by (simp_all add: conn_holds_def conn_ok_def)
  have room: "length ?y < ?R" "?R \<le> REQ_BUFF_SIZE"
    using assms(1,2) by (auto simp: conn_holds_def conn_ok_def recv_room_def REQ_BUFF_SIZE_REAL_def)
  let ?b = "(x @ bs @ drop (length ?y) (req_buff conn))[length ?y := 0]"
  have b: "?b = ?y @ 0 # drop (Suc (length ?y)) (req_buff conn)"
    using room c by (simp add: list_update_append upd_conv_take_nth_drop)
  obtain p where p: "?y = p @ snd (cut_lines ?y)" "fst (cut_lines ?y) = [] \<longleftrightarrow> p = []"
    using cut_lines_rest_suffix by blast
  then have len: "length ?y = length p + length (snd (cut_lines ?y))" by (metis length_append)
  have loop: "consume_loop h ?b 0 None st = (if p = [] then None else Some (length p - 1), foldl h st (fst (cut_lines ?y)))"
    using consume_loop_lines [OF assms(3), of ?b "[]" "drop (Suc (length ?y)) (req_buff conn)" h None st] b len p(2) by auto
  have ok: "conn_ok pad (fst (receive h bs conn st))" by (rule receive_ok) (use assms in \<open>simp_all add: conn_holds_def\<close>)
  have r: "receive h bs conn st = HandleConsumeable h (conn\<lparr>req_buff := ?b, req_pos := length ?y\<rparr>) st"
    using c by (simp add: receive_def Let_def)
  show ?thesis
  proof (cases "p = []")
    case True
    then show ?thesis using ok r loop b p(1) room by (simp add: HandleConsumeable_def conn_holds_def)
  next
    case False
    let ?t = "snd (cut_lines ?y)"
    have "take (length ?t) (drop (length p) ?b) = ?t" unfolding b by (subst p(1)) simp
    then show ?thesis using ok r loop False len room c
      by (simp add: HandleConsumeable_def conn_holds_def Let_def)
  qed
qed

text \<open>Every line, and what follows the last, is shorter than \<open>L\<close>.\<close>

definition short_lines :: "nat \<Rightarrow> u8 list \<Rightarrow> bool" where
  "short_lines L s \<longleftrightarrow> list_all (\<lambda>l. length l < L) (fst (cut_lines s)) \<and> length (snd (cut_lines s)) < L"

lemma short_lines_rest: "short_lines L (x @ y) \<Longrightarrow> short_lines L (snd (cut_lines x) @ y)"
  by (simp add: short_lines_def cut_lines_append [of x y])

lemma short_lines_start:
  assumes "short_lines L (x @ y)" and "10 \<notin> set x"
  shows "length x < L"
proof (cases "10 \<in> set y")
  case True
  then obtain a b where y: "y = a @ 10 # b" "10 \<notin> set a" by (meson split_list_first)
  then have "cut_lines ((x @ a) @ 10 # b) = ((x @ a) # fst (cut_lines b), snd (cut_lines b))"
    using assms(2) by (intro cut_lines_line) simp
  then show ?thesis using assms(1) y by (simp add: short_lines_def)
next
  case False
  then show ?thesis using assms by (simp add: short_lines_def cut_lines_none)
qed

lemma HandleReadable_lines:
  assumes "conn_holds pad conn x" and "10 \<notin> set x" and "0 \<notin> set (x @ concat pieces)" and "[] \<notin> set pieces"
    and "short_lines (REQ_BUFF_SIZE_REAL pad - 1) (x @ concat pieces)"
  shows "\<exists>conn'. HandleReadable pad h (map Data pieces @ es) conn st =
      HandleReadable pad h es conn' (foldl h st (fst (cut_lines (x @ concat pieces)))) \<and>
    conn_holds pad conn' (snd (cut_lines (x @ concat pieces)))"
  using assms
proof (induction "length pieces + length (concat pieces)" arbitrary: pieces conn x st rule: less_induct)
  case less
  show ?case
  proof (cases pieces)
    case Nil
    then show ?thesis using less(2,3) by (auto simp: cut_lines_none)
  next
    case (Cons bs ps)
    let ?n = "recv_room pad conn"
    let ?bs1 = "take ?n bs" and ?bs2 = "drop ?n bs"
    let ?ps = "if ?bs2 = [] then ps else ?bs2 # ps"
    let ?x = "snd (cut_lines (x @ ?bs1))"
    have bs: "bs \<noteq> []" using less(5) Cons by auto
    have "length x < REQ_BUFF_SIZE_REAL pad - 1" using short_lines_start [OF less(6,3)] .
    then have n: "0 < ?n" using less(2) by (simp add: conn_holds_def recv_room_def)
    then have ne: "?bs1 \<noteq> []" using bs by simp
    have "?bs1 @ concat ?ps = bs @ concat ps" by (cases "?bs2 = []") (simp_all flip: append_assoc)
    then have s: "(x @ ?bs1) @ concat ?ps = x @ concat pieces" using Cons by (simp only: append_assoc concat.simps)
    obtain conn1 st1 where r: "receive h ?bs1 conn st = (conn1, st1)" by (metis surj_pair)
    have z: "0 \<notin> set (x @ ?bs1)" "0 \<notin> set (?x @ concat ?ps)"
    proof -
      show "0 \<notin> set (x @ ?bs1)" using less(4) unfolding s [symmetric] by simp
      moreover have "set ?x \<subseteq> set (x @ ?bs1)" using cut_lines_rest_suffix [of "x @ ?bs1"] by (metis set_append sup_ge2)
      ultimately show "0 \<notin> set (?x @ concat ?ps)" using less(4) unfolding s [symmetric] by auto
    qed
    have one: "conn_holds pad conn1 ?x" "st1 = foldl h st (fst (cut_lines (x @ ?bs1)))"
      using receive_lines [OF less(2) _ z(1), of h st] r by simp_all
    have decr: "length ?ps + length (concat ?ps) < length pieces + length (concat pieces)"
      using Cons ne n by (cases "?bs2 = []") auto
    have ps: "[] \<notin> set ?ps" using less(5) Cons by simp
    have short: "short_lines (REQ_BUFF_SIZE_REAL pad - 1) (?x @ concat ?ps)"
      using short_lines_rest [of _ "x @ ?bs1" "concat ?ps"] less(6) unfolding s by simp
    have "map Data pieces @ es = Data bs # (map Data ps @ es)" using Cons by simp
    then have "HandleReadable pad h (map Data pieces @ es) conn st = HandleReadable pad h (map Data ?ps @ es) conn1 st1"
      using ne r by (simp add: Let_def)
    then show ?thesis
      using less(1) [OF decr one(1) cut_lines_rest z(2) ps short, of st1] one(2)
        cut_lines_append [of "x @ ?bs1" "concat ?ps"] unfolding s by simp
  qed
qed



text \<open>A peer that sends a full buffer without a newline is disconnected, and nothing of it reaches the
  request handler.\<close>

theorem stratum_flood_dropped:
  assumes "conn_ok pad conn" and "req_pos conn = 0" and "0 \<notin> set bs" and "10 \<notin> set bs"
    and "REQ_BUFF_SIZE_REAL pad \<le> length bs"
  shows "\<exists>conn'. HandleReadable pad h (Data bs # es) conn st = (Some False, conn', st)"
proof -
  let ?L = "REQ_BUFF_SIZE_REAL pad - 1"
  let ?a = "take ?L bs"
  have a: "0 \<notin> set ?a" "10 \<notin> set ?a" using assms(3,4) by (auto dest: in_set_takeD)
  obtain c where c: "receive h ?a conn st = (c, st)" "conn_holds pad c ?a"
  proof -
    have "conn_holds pad conn []" using assms(1,2) by (simp add: conn_holds_def)
    from receive_lines [OF this, of ?a h st] that show ?thesis
      using a assms(2) by (cases "receive h ?a conn st") (simp add: cut_lines_none recv_room_def)
  qed
  have full: "recv_room pad c = 0" using c(2) assms(5) by (simp add: conn_holds_def recv_room_def)
  have keep: "snd (receive h [] c st) = st"
    using receive_lines [OF c(2), of "[]" h st] cut_lines_none [OF a(2)] a(1) by simp
  have pos: "0 < REQ_BUFF_SIZE_REAL pad" using assms(1) by (auto simp: conn_ok_def)
  have rest: "drop ?L bs \<noteq> []" using assms(5) pos by simp
  show ?thesis
  proof (cases "?a = []")
    case True
    then show ?thesis using c(1) assms(2) by (simp add: Let_def recv_room_def)
  next
    case False
    then have "HandleReadable pad h (Data bs # es) conn st = HandleReadable pad h (Data (drop ?L bs) # es) c st"
      using c(1) assms(2) rest by (simp add: Let_def recv_room_def)
    then show ?thesis using full keep by (simp add: Let_def case_prod_beta)
  qed
qed

theorem stratum_flood_dropped_witness:
  "\<exists>conn'. HandleReadable 64 (\<lambda>st r. st @ [r]) [Data (replicate 30000 65)]
      \<lparr>req_pos = 0, req_buff = replicate REQ_BUFF_SIZE 7\<rparr> [] = (Some False, conn', [])"
  using stratum_flood_dropped [of 64 "\<lparr>req_pos = 0, req_buff = replicate REQ_BUFF_SIZE 7\<rparr>" "replicate 30000 65"
      "\<lambda>st r. st @ [r]" "[]" "[]"]
  by (simp add: conn_ok_def REQ_BUFF_SIZE_REAL_def REQ_BUFF_SIZE_def)

end
