(* ===== verification/Hex_Utils.thy ===== *)
theory Hex_Utils
  imports Prelude
begin

text \<open>
  The hexadecimal conversions of \<^verbatim>\<open>src/src/utils/hex_utils.hpp\<close>, on which job ids, hashes, targets and
  blocks depend. Characters are bytes, in the encoding of the C++ code. The functions that write through a pointer take
  the destination array and return it updated, so the theorems also say what is left untouched.
\<close>

section \<open>The code\<close>

definition GetHex :: "u8 \<Rightarrow> u8" where
  "GetHex c =
    (if 48 \<le> c \<and> c \<le> 57 then c - 48
     else if 97 \<le> c \<and> c \<le> 102 then 10 + (c - 97)
     else if 65 \<le> c \<and> c \<le> 70 then 10 + (c - 65)
     else 0)"

definition HexToUint :: "u8 list \<Rightarrow> u64" where
  "HexToUint hex = foldl (\<lambda>val c. val * 16 + ucast (GetHex c)) 0 hex"

definition hex_digits :: "u8 list" where
  "hex_digits = [48, 49, 50, 51, 52, 53, 54, 55, 56, 57, 97, 98, 99, 100, 101, 102]"

text \<open>The two characters of one byte.\<close>

definition Hexlify_byte :: "u8 \<Rightarrow> u8 \<times> u8" where
  "Hexlify_byte val =
    (if val < 16 then (48, hex_digits ! unat val)
     else let c2Val = val mod 16 in (hex_digits ! unat ((val - c2Val) div 16), hex_digits ! unat c2Val))"

definition Hexlify :: "u8 list \<Rightarrow> u8 list \<Rightarrow> u8 list" where
  "Hexlify dest src =
    fold (\<lambda>i dest. let (c1, c2) = Hexlify_byte (src ! i) in dest[i * 2 := c1, i * 2 + 1 := c2]) [0..<length src] dest"

definition HexlifyS :: "u8 list \<Rightarrow> u8 list" where
  "HexlifyS src = Hexlify (replicate (2 * length src) 0) src"

definition Hexlify32 :: "u32 \<Rightarrow> u8 list" where
  "Hexlify32 src = Hexlify (replicate 8 0) (le_store 4 src)"

definition Unhexlify :: "u8 list \<Rightarrow> u8 list \<Rightarrow> nat \<Rightarrow> u8 list" where
  "Unhexlify dest src sz =
    fold (\<lambda>i dest. dest[i := GetHex (src ! (i * 2 + 1)) + GetHex (src ! (i * 2)) * 16]) [0..<sz div 2] dest"

definition UnhexlifyS :: "u8 list \<Rightarrow> u8 list" where
  "UnhexlifyS src = Unhexlify (replicate (length src div 2) 0) src (length src)"

text \<open>The array templates: a size fixed at compile time, whatever the length of the view.\<close>

definition Unhexlify_arr :: "nat \<Rightarrow> u8 list \<Rightarrow> u8 list" where
  "Unhexlify_arr sz src = Unhexlify (replicate (sz div 2) 0) src sz"

definition UnhexlifyRev :: "nat \<Rightarrow> u8 list \<Rightarrow> u8 list" where
  "UnhexlifyRev sz src = rev (Unhexlify (replicate (sz div 2) 0) src sz)"

definition ReverseHex :: "u8 list \<Rightarrow> u8 list \<Rightarrow> nat \<Rightarrow> u8 list" where
  "ReverseHex dest input sz =
    fold (\<lambda>k dest.
      let i = 2 * k;
          left = input ! i; left1 = input ! (i + 1);
          right = input ! (sz - (i + 1)); right1 = input ! (sz - (i + 2))
      in dest[i + 1 := right, i := right1, sz - (i + 2) := left, sz - (i + 1) := left1])
      [0..<(sz div 2 + 1) div 2] dest"

section \<open>Conversions as maps\<close>

lemma fold_update_pairs:
  assumes "2 * n \<le> length dest"
  shows "fold (\<lambda>i dest. dest[i * 2 := f i, i * 2 + 1 := g i]) [0..<n] dest =
    concat (map (\<lambda>i. [f i, g i]) [0..<n]) @ drop (2 * n) dest"
  using assms
proof (induction n)
  case (Suc n)
  let ?c = "concat (map (\<lambda>i. [f i, g i]) [0..<n])"
  have "length ?c = 2 * n" by (simp add: length_concat_fixed [where k = 2])
  moreover obtain a b r where "drop (2 * n) dest = a # b # r" "drop (2 * Suc n) dest = r"
    using Suc.prems by (metis Cons_nth_drop_Suc Suc_le_lessD add_2_eq_Suc le_SucI le_Suc_eq mult_Suc_right not_less_eq_eq)
  ultimately show ?case using Suc by (simp add: list_update_append mult.commute)
qed simp

definition hex_byte :: "u8 \<Rightarrow> u8 list" where
  "hex_byte b = [hex_digits ! unat (b div 16), hex_digits ! unat (b mod 16)]"

text \<open>A property of bytes, checked byte by byte.\<close>

lemma byte_all:
  assumes "\<forall>n \<in> set [0..<256]. P (of_nat n :: u8)"
  shows "P b"
proof -
  have "unat b \<in> set [0..<256]" using unsigned_less [where 'a = nat, of b] by simp
  then show ?thesis using assms [THEN bspec, of "unat b"] by simp
qed

lemma Hexlify_byte_eq: "Hexlify_byte b = (hex_digits ! unat (b div 16), hex_digits ! unat (b mod 16))"
proof -
  have "\<forall>n \<in> set [0..<256]. Hexlify_byte (of_nat n) =
      (hex_digits ! unat ((of_nat n :: u8) div 16), hex_digits ! unat ((of_nat n :: u8) mod 16))"
    by code_simp
  then show ?thesis by (rule byte_all)
qed

lemma hex_byte_GetHex: "GetHex (hex_byte b ! 1) + GetHex (hex_byte b ! 0) * 16 = b"
proof -
  have "\<forall>n \<in> set [0..<256]. GetHex (hex_byte (of_nat n) ! 1) + GetHex (hex_byte (of_nat n) ! 0) * 16 = (of_nat n :: u8)"
    by code_simp
  then show ?thesis by (rule byte_all)
qed

text \<open>The lower-case hexadecimal digits, which is what \<open>Hexlify\<close> writes.\<close>

definition is_lower_hex :: "u8 \<Rightarrow> bool" where
  "is_lower_hex c \<longleftrightarrow> c \<in> set hex_digits"

lemma hex_byte_of_digits:
  assumes "is_lower_hex a" and "is_lower_hex b"
  shows "hex_byte (GetHex b + GetHex a * 16) = [a, b]"
proof -
  have "\<forall>a \<in> set hex_digits. \<forall>b \<in> set hex_digits. hex_byte (GetHex b + GetHex a * 16) = [a, b]" by code_simp
  then show ?thesis using assms by (simp add: is_lower_hex_def)
qed

lemma Hexlify_map:
  assumes "2 * length src \<le> length dest"
  shows "Hexlify dest src = concat (map hex_byte src) @ drop (2 * length src) dest"
proof -
  have "map (\<lambda>i. hex_byte (src ! i)) [0..<length src] = map hex_byte src"
    by (metis (no_types, lifting) comp_apply map_eq_conv map_map map_nth)
  then show ?thesis
    using fold_update_pairs [OF assms, of "\<lambda>i. hex_digits ! unat (src ! i div 16)" "\<lambda>i. hex_digits ! unat (src ! i mod 16)"]
    by (simp add: Hexlify_def Hexlify_byte_eq hex_byte_def)
qed

lemma HexlifyS_map: "HexlifyS src = concat (map hex_byte src)"
  by (simp add: HexlifyS_def Hexlify_map)

lemma length_hex_byte [simp]: "length (hex_byte b) = 2"
  by (simp add: hex_byte_def)

lemma length_HexlifyS [simp]: "length (HexlifyS src) = 2 * length src"
  by (simp add: HexlifyS_map length_concat_fixed [where k = 2])

lemma HexlifyS_nth:
  assumes "i < length src"
  shows "HexlifyS src ! (i * 2) = hex_byte (src ! i) ! 0" "HexlifyS src ! (i * 2 + 1) = hex_byte (src ! i) ! 1"
proof -
  have f: "\<forall>x \<in> set (map hex_byte src). length x = 2" by simp
  have "(i * 2 + 1) div 2 = i" "(i * 2 + 1) mod 2 = 1" by presburger+
  then show "HexlifyS src ! (i * 2) = hex_byte (src ! i) ! 0" "HexlifyS src ! (i * 2 + 1) = hex_byte (src ! i) ! 1"
    using assms nth_concat_fixed [OF f, of "i * 2"] nth_concat_fixed [OF f, of "i * 2 + 1"] by (simp_all add: HexlifyS_map)
qed

lemma Unhexlify_map:
  assumes "sz div 2 \<le> length dest"
  shows "Unhexlify dest src sz =
    map (\<lambda>i. GetHex (src ! (i * 2 + 1)) + GetHex (src ! (i * 2)) * 16) [0..<sz div 2] @ drop (sz div 2) dest"
proof -
  let ?f = "\<lambda>i. GetHex (src ! (i * 2 + 1)) + GetHex (src ! (i * 2)) * 16"
  have "fold (\<lambda>i dest. dest[i := ?f i]) [0..<sz div 2] dest =
      map (\<lambda>i. if i < sz div 2 then ?f i else dest ! i) [0..<length dest]"
    using fold_update_map [OF assms, of "\<lambda>i _. ?f i"] .
  also have "\<dots> = map ?f [0..<sz div 2] @ drop (sz div 2) dest"
    using assms by (intro nth_equalityI) (auto simp: nth_append)
  finally show ?thesis by (simp add: Unhexlify_def)
qed

lemma UnhexlifyS_map:
  "UnhexlifyS src = map (\<lambda>i. GetHex (src ! (i * 2 + 1)) + GetHex (src ! (i * 2)) * 16) [0..<length src div 2]"
  by (simp add: UnhexlifyS_def Unhexlify_map)

lemma length_UnhexlifyS [simp]: "length (UnhexlifyS src) = length src div 2"
  by (simp add: UnhexlifyS_map)

section \<open>Round trips\<close>

lemma UnhexlifyS_HexlifyS: "UnhexlifyS (HexlifyS bs) = bs"
proof (rule nth_equalityI)
  fix i assume "i < length (UnhexlifyS (HexlifyS bs))"
  then show "UnhexlifyS (HexlifyS bs) ! i = bs ! i"
    using HexlifyS_nth [of i bs] hex_byte_GetHex [of "bs ! i"] by (simp add: UnhexlifyS_map)
qed simp

lemma HexlifyS_UnhexlifyS:
  assumes "even (length s)" and "list_all is_lower_hex s"
  shows "HexlifyS (UnhexlifyS s) = s"
proof (rule nth_equalityI)
  fix i assume "i < length (HexlifyS (UnhexlifyS s))"
  then have i: "i < length s" using assms(1) by simp
  let ?k = "i div 2"
  have k: "?k < length s div 2" "?k * 2 + 1 < length s" using i assms(1) by presburger+
  then have d: "is_lower_hex (s ! (?k * 2))" "is_lower_hex (s ! (?k * 2 + 1))" using assms(2) by (simp_all add: list_all_length)
  have b: "hex_byte (UnhexlifyS s ! ?k) = [s ! (?k * 2), s ! (?k * 2 + 1)]"
    using hex_byte_of_digits [OF d] k by (simp add: UnhexlifyS_map)
  have "i = ?k * 2 \<or> i = ?k * 2 + 1" by presburger
  then show "HexlifyS (UnhexlifyS s) ! i = s ! i"
    using HexlifyS_nth [of ?k "UnhexlifyS s"] k(1) b by (metis One_nat_def length_UnhexlifyS nth_Cons_0 nth_Cons_Suc)
qed (use assms in simp)

text \<open>C28: unhexlifying what hexlify wrote gives the bytes back, hexlifying a parsed string of lower-case digits
  gives the string back, and both write only the part of the destination that belongs to them.\<close>

theorem hex_roundtrip:
  assumes "even (length s)" and "list_all is_lower_hex s" and "2 * length bs \<le> length dest" and "length s div 2 \<le> length dest"
  shows "UnhexlifyS (HexlifyS bs) = bs \<and> HexlifyS (UnhexlifyS s) = s \<and>
    Hexlify dest bs = HexlifyS bs @ drop (2 * length bs) dest \<and>
    Unhexlify dest s (length s) = UnhexlifyS s @ drop (length s div 2) dest"
  using assms UnhexlifyS_HexlifyS HexlifyS_UnhexlifyS Hexlify_map Unhexlify_map [of "length s" dest s]
  by (simp add: HexlifyS_map UnhexlifyS_map)

theorem hex_roundtrip_witness:
  "UnhexlifyS (HexlifyS [0, 255, 18]) = [0, 255, 18] \<and> HexlifyS (UnhexlifyS [48, 102]) = [48, 102]"
  using hex_roundtrip [of "[48, 102]" "[0, 255, 18]" "replicate 6 0"] by (simp add: is_lower_hex_def hex_digits_def)

section \<open>Byte order\<close>

text \<open>The two-character groups of a string, from the last to the first.\<close>

definition rev_pairs :: "u8 list \<Rightarrow> u8 list" where
  "rev_pairs s = concat (map (\<lambda>k. [s ! (length s - 2 * k - 2), s ! (length s - 2 * k - 1)]) [0..<length s div 2])"

lemma rev_pairs_nth:
  assumes "even (length s)" and "i < length s"
  shows "rev_pairs s ! i = s ! (if even i then length s - i - 2 else length s - i)"
proof -
  let ?p = "map (\<lambda>k. [s ! (length s - 2 * k - 2), s ! (length s - 2 * k - 1)]) [0..<length s div 2]"
  have f: "\<forall>x \<in> set ?p. length x = 2" by auto
  have "i < 2 * length ?p" using assms by (auto elim: evenE)
  then have "rev_pairs s ! i = ?p ! (i div 2) ! (i mod 2)" unfolding rev_pairs_def by (rule nth_concat_fixed [OF f])
  moreover have "i div 2 < length s div 2" using assms by (auto elim: evenE)
  ultimately show ?thesis by (cases "even i") (auto elim!: evenE oddE)
qed

lemma length_rev_pairs: "even (length s) \<Longrightarrow> length (rev_pairs s) = length s"
  by (simp add: rev_pairs_def length_concat_fixed [where k = 2])

lemma nth_four_updates:
  "j < length d \<Longrightarrow> d[a := R ! a, b := R ! b, c := R ! c, e := R ! e] ! j = (if j \<in> {a, b, c, e} then R ! j else d ! j)"
  by (cases "j = e"; cases "j = c"; cases "j = b"; cases "j = a") simp_all

text \<open>After \<open>n\<close> turns of the loop the outer \<open>2 * n\<close> characters on both sides are in place.\<close>

definition rev_outer :: "u8 list \<Rightarrow> u8 list \<Rightarrow> nat \<Rightarrow> u8 list \<Rightarrow> bool" where
  "rev_outer s dest n d \<longleftrightarrow> length d = length dest \<and> (\<forall>j < length dest. d ! j =
      (if j < 2 * n \<or> length s - 2 * n \<le> j \<and> j < length s then rev_pairs s ! j else dest ! j))"

lemma rev_outer_step:
  assumes "even (length s)" and "length s \<le> length dest" and "2 * Suc n \<le> length s" and "rev_outer s dest n d"
  shows "rev_outer s dest (Suc n) (d[2 * n + 1 := s ! (length s - (2 * n + 1)), 2 * n := s ! (length s - (2 * n + 2)),
    length s - (2 * n + 2) := s ! (2 * n), length s - (2 * n + 1) := s ! (2 * n + 1)])"
proof -
  let ?i = "2 * n" and ?R = "rev_pairs s" and ?l = "length s"
  have r: "s ! (?l - (?i + 2)) = ?R ! ?i" "s ! (?l - (?i + 1)) = ?R ! (?i + 1)"
    "s ! ?i = ?R ! (?l - (?i + 2))" "s ! (?i + 1) = ?R ! (?l - (?i + 1))"
    using assms(1,3) by (simp_all add: rev_pairs_nth)
  have p: "j < 2 * Suc n \<or> ?l - 2 * Suc n \<le> j \<and> j < ?l \<longleftrightarrow>
      j \<in> {?i + 1, ?i, ?l - (?i + 2), ?l - (?i + 1)} \<or> j < 2 * n \<or> ?l - 2 * n \<le> j \<and> j < ?l" for j
    using assms(3) by auto
  let ?d = "d[?i + 1 := ?R ! (?i + 1), ?i := ?R ! ?i, ?l - (?i + 2) := ?R ! (?l - (?i + 2)), ?l - (?i + 1) := ?R ! (?l - (?i + 1))]"
  have "?d ! j = (if j < 2 * Suc n \<or> ?l - 2 * Suc n \<le> j \<and> j < ?l then ?R ! j else dest ! j)" if "j < length dest" for j
  proof -
    have d: "j < length d" "d ! j = (if j < 2 * n \<or> ?l - 2 * n \<le> j \<and> j < ?l then ?R ! j else dest ! j)"
      using assms(4) that by (simp_all add: rev_outer_def)
    show ?thesis unfolding p nth_four_updates [OF d(1)] d(2) by simp
  qed
  then show ?thesis using assms(4) unfolding rev_outer_def r by simp
qed

lemma ReverseHex_loop:
  assumes "even (length s)" and "length s \<le> length dest" and "2 * n \<le> length s"
  shows "rev_outer s dest n (fold (\<lambda>k dest.
      let i = 2 * k;
          left = s ! i; left1 = s ! (i + 1);
          right = s ! (length s - (i + 1)); right1 = s ! (length s - (i + 2))
      in dest[i + 1 := right, i := right1, length s - (i + 2) := left, length s - (i + 1) := left1]) [0..<n] dest)"
  using assms(3)
proof (induction n)
  case (Suc n)
  then show ?case using rev_outer_step [OF assms(1,2) Suc.prems] by (simp add: Let_def)
qed (auto simp: rev_outer_def)

lemma ReverseHex_rev_pairs:
  assumes "even (length s)" and "length s \<le> length dest"
  shows "ReverseHex dest s (length s) = rev_pairs s @ drop (length s) dest"
proof (rule nth_equalityI)
  let ?n = "(length s div 2 + 1) div 2"
  have n: "2 * ?n \<le> length s" "length s \<le> 4 * ?n"
    using assms(1) by presburger+
  note loop = ReverseHex_loop [OF assms n(1), unfolded rev_outer_def]
  show "length (ReverseHex dest s (length s)) = length (rev_pairs s @ drop (length s) dest)"
    using loop assms by (simp add: ReverseHex_def length_rev_pairs)
  fix j assume "j < length (ReverseHex dest s (length s))"
  then show "ReverseHex dest s (length s) ! j = (rev_pairs s @ drop (length s) dest) ! j"
    using loop n assms by (auto simp: ReverseHex_def nth_append length_rev_pairs)
qed

lemma hex_byte_UnhexlifyS:
  assumes "even (length s)" and "list_all is_lower_hex s" and "k < length s div 2"
  shows "hex_byte (UnhexlifyS s ! k) = [s ! (k * 2), s ! (k * 2 + 1)]"
proof -
  have "is_lower_hex (s ! (k * 2))" "is_lower_hex (s ! (k * 2 + 1))"
    using assms by (auto simp: list_all_length elim!: evenE)
  then show ?thesis using hex_byte_of_digits assms(3) by (simp add: UnhexlifyS_map)
qed

lemma HexlifyS_rev:
  assumes "even (length s)" and "list_all is_lower_hex s"
  shows "HexlifyS (rev (UnhexlifyS s)) = rev_pairs s"
proof -
  let ?n = "length s div 2"
  have "map hex_byte (rev (UnhexlifyS s)) = map (\<lambda>k. [s ! (length s - 2 * k - 2), s ! (length s - 2 * k - 1)]) [0..<?n]"
  proof (rule nth_equalityI)
    fix k assume "k < length (map hex_byte (rev (UnhexlifyS s)))"
    then have k: "k < ?n" by simp
    have "(?n - 1 - k) * 2 = length s - 2 * k - 2" "(?n - 1 - k) * 2 + 1 = length s - 2 * k - 1"
      using assms(1) k by (auto elim!: evenE)
    then show "map hex_byte (rev (UnhexlifyS s)) ! k =
        map (\<lambda>k. [s ! (length s - 2 * k - 2), s ! (length s - 2 * k - 1)]) [0..<?n] ! k"
      using hex_byte_UnhexlifyS [OF assms, of "?n - 1 - k"] k by (simp add: rev_nth)
  qed simp
  then show ?thesis by (simp add: HexlifyS_map rev_pairs_def)
qed

lemma HexToUint_bytes: "HexToUint (HexlifyS bs) = foldl (\<lambda>v b. v * 256 + ucast b) 0 bs"
proof -
  have b: "(ucast (GetHex (hex_byte b ! 0)) * 16 + ucast (GetHex (hex_byte b ! 1)) :: u64) = ucast b" for b
  proof -
    have "\<forall>n \<in> set [0..<256]. (ucast (GetHex (hex_byte (of_nat n) ! 0)) * 16 + ucast (GetHex (hex_byte (of_nat n) ! 1)) :: u64) =
        ucast (of_nat n :: u8)" by code_simp
    then show ?thesis by (rule byte_all)
  qed
  have step: "(v * 16 + ucast (GetHex (hex_byte b ! 0))) * 16 + ucast (GetHex (hex_byte b ! 1)) = v * 256 + (ucast b :: u64)" for v b
    using b [of b] by (simp add: algebra_simps)
  have "foldl (\<lambda>val c. val * 16 + ucast (GetHex c)) v (concat (map hex_byte bs)) = foldl (\<lambda>v b. v * 256 + ucast b) v bs" for v :: u64
  proof (induction bs arbitrary: v)
    case (Cons a bs)
    have "hex_byte a = [hex_byte a ! 0, hex_byte a ! 1]" by (simp add: hex_byte_def)
    then show ?case using Cons step [of v a] by (metis (no_types, lifting) concat.simps(2) foldl_Cons foldl_Nil foldl_append list.simps(9))
  qed simp
  then show ?thesis by (simp add: HexToUint_def HexlifyS_map)
qed

text \<open>Reversing the hexadecimal form of a hash reverses its bytes, and reading a hexadecimal number gives the
  big endian value of its bytes, reduced to 64 bits.\<close>

theorem hex_byte_order:
  assumes "even (length s)" and "list_all is_lower_hex s" and "length dest = length s"
  shows "ReverseHex dest s (length s) = HexlifyS (rev (UnhexlifyS s)) \<and>
    HexToUint s = foldl (\<lambda>v b. v * 256 + ucast b) 0 (UnhexlifyS s)"
  using ReverseHex_rev_pairs [OF assms(1), of dest] HexlifyS_rev [OF assms(1,2)] HexToUint_bytes [of "UnhexlifyS s"]
    HexlifyS_UnhexlifyS [OF assms(1,2)] assms(3) by simp

theorem hex_byte_order_witness:
  "ReverseHex [0, 0, 0, 0] [48, 97, 49, 98] (length [48, 97, 49, 98 :: u8]) = HexlifyS (rev (UnhexlifyS [48, 97, 49, 98]))"
  using hex_byte_order [of "[48, 97, 49, 98]" "[0, 0, 0, 0]"] by (simp add: is_lower_hex_def hex_digits_def)

end
