(* ===== verification/Job_Manager.thy ===== *)
theory Job_Manager
  imports Hex_Utils
begin

text \<open>
  The jobs the pool hands out, \<^verbatim>\<open>src/src/jobs/job_manager.hpp\<close> with the constructors and comparisons of
  \<^verbatim>\<open>job_vrsc.hpp\<close>, \<^verbatim>\<open>job_base_btc.hpp\<close> and \<^verbatim>\<open>job_cryptonote.hpp\<close>. A job keeps what the manager looks at: its
  id, its height, whether it invalidates earlier jobs, and the value its equality compares (the Merkle root for
  VRSC, the sum of transaction hashes for ZANO, a type parameter here). The daemon's templates are the input. The
  mutex makes every operation atomic, so the runs of the manager are sequences of operations.
\<close>

section \<open>The code\<close>

datatype coin = ZANO | VRSC

record ('k, 'd) block_template =
  t_height :: u32
  t_key :: 'k
  t_hash :: "u8 list"
  t_data :: 'd

record ('k, 'd) job =
  job_id :: "u8 list"
  job_clean :: bool
  job_height :: u32
  job_key :: 'k
  job_data :: 'd

record ('k, 'd) job_manager =
  job_count :: u32
  last_job :: "('k, 'd) job option"
  jobs :: "('k, 'd) job list"

definition job_manager_new :: "('k, 'd) job_manager" where
  "job_manager_new = \<lparr>job_count = 0, last_job = None, jobs = []\<rparr>"

text \<open>\<open>fmt::format("{:08x}", job_count)\<close>\<close>

definition format_08x :: "u32 \<Rightarrow> u8 list" where
  "format_08x w = HexlifyS (be_store 4 w)"

text \<open>
  The constructor of a VRSC job names its last parameter \<open>is_payment\<close> and does not pass it on, so
  the default \<open>clean = true\<close> of \<open>JobBaseBtc\<close> applies.
\<close>

definition Job_ZEC :: "u8 list \<Rightarrow> ('k, 'd) block_template \<Rightarrow> bool \<Rightarrow> ('k, 'd) job" where
  "Job_ZEC jobId bt is_payment = \<lparr>job_id = jobId, job_clean = True, job_height = t_height bt, job_key = t_key bt, job_data = t_data bt\<rparr>"

definition Job_CN :: "('k, 'd) block_template \<Rightarrow> bool \<Rightarrow> ('k, 'd) job" where
  "Job_CN bt clean = \<lparr>job_id = HexlifyS (t_hash bt), job_clean = clean, job_height = t_height bt, job_key = t_key bt, job_data = t_data bt\<rparr>"

definition make_job :: "coin \<Rightarrow> u32 \<Rightarrow> ('k, 'd) block_template \<Rightarrow> bool \<Rightarrow> ('k, 'd) job" where
  "make_job c count bt clean =
    (case c of ZANO \<Rightarrow> Job_CN bt clean | VRSC \<Rightarrow> Job_ZEC (format_08x count) bt clean)"

definition GetJob :: "('k, 'd) job_manager \<Rightarrow> u8 list \<Rightarrow> ('k, 'd) job option" where
  "GetJob jm hexId = find (\<lambda>job. job_id job = hexId) (jobs jm)"

definition SetNewJob :: "('k, 'd) job_manager \<Rightarrow> ('k, 'd) job \<Rightarrow> ('k, 'd) job \<times> ('k, 'd) job_manager" where
  "SetNewJob jm job =
    (job, jm\<lparr>job_count := job_count jm + 1,
             jobs := (if job_clean job then [] else jobs jm) @ [job],
             last_job := Some job\<rparr>)"

definition GetLastJob :: "('k, 'd) job_manager \<Rightarrow> ('k, 'd) job option" where
  "GetLastJob jm = last_job jm"

text \<open>\<open>None\<close> is the exception: no template, no first job.\<close>

definition GetFirstJob :: "coin \<Rightarrow> ('k, 'd) block_template option \<Rightarrow> ('k, 'd) job_manager \<Rightarrow> ('k, 'd) job_manager option" where
  "GetFirstJob c res jm =
    map_option (\<lambda>bt. snd (SetNewJob jm (make_job c (job_count jm) bt True))) res"

text \<open>
  A new template: the job it becomes, if any. \<open>None\<close> outside is the dereference of a null \<open>last_job\<close>.
\<close>

definition GetNewJob :: "coin \<Rightarrow> ('k, 'd) block_template \<Rightarrow> ('k, 'd) job_manager \<Rightarrow> (('k, 'd) job option \<times> ('k, 'd) job_manager) option" where
  "GetNewJob c bt jm =
    (case last_job jm of None \<Rightarrow> None
     | Some prev \<Rightarrow>
         let clean = job_height prev < t_height bt;
             new_job = make_job c (job_count jm) bt clean
         in if \<not> clean \<and> job_key prev = job_key new_job then Some (None, jm)
            else let (job, jm') = SetNewJob jm new_job in Some (Some job, jm'))"

text \<open>\<open>GetNewJob()\<close>: ask the daemon first.\<close>

definition PollNewJob :: "coin \<Rightarrow> ('k, 'd) block_template option \<Rightarrow> ('k, 'd) job_manager \<Rightarrow> (('k, 'd) job option \<times> ('k, 'd) job_manager) option" where
  "PollNewJob c res jm = (case res of None \<Rightarrow> Some (None, jm) | Some bt \<Rightarrow> GetNewJob c bt jm)"

section \<open>Runs\<close>

inductive jm_step :: "coin \<Rightarrow> ('k, 'd) job_manager \<Rightarrow> ('k, 'd) job_manager \<Rightarrow> bool" for c where
  poll: "PollNewJob c res jm = Some (r, jm') \<Longrightarrow> jm_step c jm jm'"

inductive jm_reach :: "coin \<Rightarrow> ('k, 'd) job_manager \<Rightarrow> bool" for c where
  first: "GetFirstJob c res job_manager_new = Some jm \<Longrightarrow> jm_reach c jm"
| step: "jm_reach c jm \<Longrightarrow> jm_step c jm jm' \<Longrightarrow> jm_reach c jm'"

inductive_cases jm_stepE: "jm_step c jm jm'"

definition jm_inv :: "coin \<Rightarrow> ('k, 'd) job_manager \<Rightarrow> bool" where
  "jm_inv c jm \<longleftrightarrow> jobs jm \<noteq> [] \<and> last_job jm = Some (last (jobs jm)) \<and>
     job_clean (hd (jobs jm)) \<and> list_all (\<lambda>j. \<not> job_clean j) (tl (jobs jm)) \<and>
     sorted_wrt (\<lambda>a b. job_height b \<le> job_height a) (jobs jm)"

lemmas make_job_simps = make_job_def Job_ZEC_def Job_CN_def

lemma make_job_clean: "job_clean (make_job c n bt clean) \<longleftrightarrow> clean \<or> c = VRSC"
  by (cases c) (simp_all add: make_job_simps)

lemma make_job_height [simp]: "job_height (make_job c n bt clean) = t_height bt"
  by (cases c) (simp_all add: make_job_simps)

lemma make_job_key [simp]: "job_key (make_job c n bt clean) = t_key bt"
  by (cases c) (simp_all add: make_job_simps)

lemma jm_inv_first: "GetFirstJob c res jm0 = Some jm \<Longrightarrow> jobs jm0 = [] \<Longrightarrow> jm_inv c jm"
  by (auto simp: GetFirstJob_def SetNewJob_def jm_inv_def make_job_clean)

text \<open>Adding a job that is clean, or not higher than the last one.\<close>

lemma jm_inv_add:
  assumes "jm_inv c jm" and "job_clean job \<or> job_height job \<le> job_height (last (jobs jm))"
  shows "jm_inv c (snd (SetNewJob jm job))"
proof (cases "job_clean job")
  case True
  then show ?thesis by (simp add: SetNewJob_def jm_inv_def)
next
  case False
  have ne: "jobs jm \<noteq> []" and s: "sorted_wrt (\<lambda>a b. job_height b \<le> job_height a) (jobs jm)"
    using assms(1) by (simp_all add: jm_inv_def)
  have "job_height (last (jobs jm)) \<le> job_height a" if "a \<in> set (jobs jm)" for a
  proof -
    have "jobs jm = butlast (jobs jm) @ [last (jobs jm)]" using ne by simp
    then have "sorted_wrt (\<lambda>a b. job_height b \<le> job_height a) (butlast (jobs jm) @ [last (jobs jm)])"
      "a \<in> set (butlast (jobs jm)) \<or> a = last (jobs jm)"
      using s that by (metis, metis Un_iff empty_iff empty_set insert_iff list.simps(15) set_append)
    then show ?thesis by (auto simp: sorted_wrt_append)
  qed
  then have "\<forall>a \<in> set (jobs jm). job_height job \<le> job_height a" using assms(2) False by (meson order_trans)
  then show ?thesis using assms(1) ne False by (simp add: SetNewJob_def jm_inv_def sorted_wrt_append)
qed

lemma jm_inv_step: "jm_inv c jm \<Longrightarrow> jm_step c jm jm' \<Longrightarrow> jm_inv c jm'"
proof (erule jm_stepE)
  fix res r assume i: "jm_inv c jm" and p: "PollNewJob c res jm = Some (r, jm')"
  have l: "last_job jm = Some (last (jobs jm))" using i by (simp add: jm_inv_def)
  show "jm_inv c jm'"
  proof (cases res)
    case None
    then show ?thesis using i p by (simp add: PollNewJob_def)
  next
    case (Some bt)
    let ?clean = "job_height (last (jobs jm)) < t_height bt"
    let ?job = "make_job c (job_count jm) bt ?clean"
    have "jm_inv c (snd (SetNewJob jm ?job))"
      by (rule jm_inv_add [OF i]) (auto simp: make_job_clean not_less)
    then show ?thesis
      using p Some l i by (auto simp: PollNewJob_def GetNewJob_def Let_def case_prod_beta split: if_splits)
  qed
qed

lemma jm_reach_inv: "jm_reach c jm \<Longrightarrow> jm_inv c jm"
  by (induction rule: jm_reach.induct) (auto intro: jm_inv_first jm_inv_step simp: job_manager_new_def)

section \<open>What clients see\<close>

lemma find_job: "find (\<lambda>job. job_id job = i) js = None \<longleftrightarrow> i \<notin> job_id ` set js"
  by (auto simp: find_None_iff)

lemma find_pred: "pred_option (\<lambda>x. x \<in> set xs \<and> P x) (find P xs)"
  by (induction xs) (auto simp: pred_option_def)

text \<open>C6: in every state the manager can reach after its first job, there is a last job, it is the newest of the
  jobs that are kept, looking for a new template dereferences no null pointer, a job id is found exactly when a kept job has it,
  and all kept jobs come from the last clean job and are not higher than it.\<close>

theorem job_manager_sound:
  fixes jm :: "('k, 'd) job_manager"
  assumes "jm_reach c jm"
  shows "GetLastJob jm = Some (last (jobs jm)) \<and> last (jobs jm) \<in> set (jobs jm) \<and>
    PollNewJob c res jm \<noteq> None \<and>
    (GetJob jm i = None \<longleftrightarrow> i \<notin> job_id ` set (jobs jm)) \<and>
    pred_option (\<lambda>j. j \<in> set (jobs jm) \<and> job_id j = i) (GetJob jm i) \<and>
    job_clean (hd (jobs jm)) \<and>
    list_all (\<lambda>j. \<not> job_clean j \<and> job_height j \<le> job_height (hd (jobs jm))) (tl (jobs jm))"
proof -
  have inv: "jm_inv c jm" by (rule jm_reach_inv [OF assms])
  then obtain h ts where js: "jobs jm = h # ts" by (auto simp: jm_inv_def neq_Nil_conv)
  have "pred_option (\<lambda>j. j \<in> set (jobs jm) \<and> job_id j = i) (GetJob jm i)"
    unfolding GetJob_def by (rule find_pred)
  moreover have "PollNewJob c res jm \<noteq> None"
    using inv by (cases res) (auto simp: PollNewJob_def GetNewJob_def jm_inv_def Let_def case_prod_beta)
  ultimately show ?thesis
    using inv js by (auto simp: jm_inv_def GetLastJob_def GetJob_def find_job list_all_iff)
qed

theorem job_manager_sound_witness:
  "\<exists>jm :: (nat, unit) job_manager. jm_reach ZANO jm \<and> GetLastJob jm = Some (last (jobs jm))"
proof -
  let ?bt = "\<lparr>t_height = 7, t_key = 0, t_hash = [1], t_data = ()\<rparr> :: (nat, unit) block_template"
  let ?jm = "snd (SetNewJob job_manager_new (make_job ZANO 0 ?bt True))"
  have "GetFirstJob ZANO (Some ?bt) job_manager_new = Some ?jm" by (simp add: GetFirstJob_def job_manager_new_def)
  then have "jm_reach ZANO ?jm" by (rule jm_reach.first)
  then show ?thesis using job_manager_sound [of ZANO ?jm] by blast
qed

text \<open>C7: a template of a greater height becomes a job, for every coin, and from then on only the new job is found:
  shares for any earlier job are stale.\<close>

theorem new_height_drops_jobs:
  fixes jm :: "('k, 'd) job_manager"
  assumes "jm_reach c jm" and "job_height (last (jobs jm)) < t_height bt"
  defines "job \<equiv> make_job c (job_count jm) bt True"
  shows "\<exists>jm'. PollNewJob c (Some bt) jm = Some (Some job, jm') \<and> jobs jm' = [job] \<and>
    GetJob jm' i = (if i = job_id job then Some job else None)"
proof -
  have "last_job jm = Some (last (jobs jm))" using jm_reach_inv [OF assms(1)] by (simp add: jm_inv_def)
  then show ?thesis
    using assms(2) by (auto simp: PollNewJob_def GetNewJob_def SetNewJob_def GetJob_def make_job_clean job_def Let_def)
qed

theorem new_height_drops_jobs_witness:
  "\<exists>jm :: (nat, unit) job_manager. jm_reach VRSC jm \<and> (\<exists>j jm'. PollNewJob VRSC (Some \<lparr>t_height = 9, t_key = 0, t_hash = [], t_data = ()\<rparr>) jm = Some (Some j, jm'))"
proof -
  let ?bt = "\<lparr>t_height = 7, t_key = 0, t_hash = [1], t_data = ()\<rparr> :: (nat, unit) block_template"
  let ?jm = "snd (SetNewJob job_manager_new (make_job VRSC 0 ?bt True))"
  have "GetFirstJob VRSC (Some ?bt) job_manager_new = Some ?jm" by (simp add: GetFirstJob_def job_manager_new_def)
  then have "jm_reach VRSC ?jm" by (rule jm_reach.first)
  then show ?thesis
    using new_height_drops_jobs [of VRSC ?jm "\<lparr>t_height = 9, t_key = 0, t_hash = [], t_data = ()\<rparr>" "[]"]
    by (auto simp: SetNewJob_def job_manager_new_def)
qed

text \<open>Since a VRSC job drops the \<open>clean\<close> flag it is given, the manager never keeps more than one VRSC job:
  every accepted template, one of the same height included, makes all shares of the previous job stale.\<close>

theorem vrsc_single_job:
  fixes jm :: "('k, 'd) job_manager"
  assumes "jm_reach VRSC jm"
  shows "length (jobs jm) = 1"
  using assms
proof (induction rule: jm_reach.induct)
  case (first res jm)
  then show ?case by (auto simp: GetFirstJob_def SetNewJob_def make_job_clean job_manager_new_def)
next
  case (step jm jm')
  then show ?case
    by (auto elim!: jm_stepE simp: PollNewJob_def GetNewJob_def SetNewJob_def make_job_clean Let_def split: option.splits if_splits)
qed

theorem vrsc_single_job_witness: "\<exists>jm :: (nat, unit) job_manager. jm_reach VRSC jm \<and> length (jobs jm) = 1"
proof -
  let ?bt = "\<lparr>t_height = 7, t_key = 0, t_hash = [1], t_data = ()\<rparr> :: (nat, unit) block_template"
  let ?jm = "snd (SetNewJob job_manager_new (make_job VRSC 0 ?bt True))"
  have "GetFirstJob VRSC (Some ?bt) job_manager_new = Some ?jm" by (simp add: GetFirstJob_def job_manager_new_def)
  then have "jm_reach VRSC ?jm" by (rule jm_reach.first)
  then show ?thesis using vrsc_single_job [of ?jm] by blast
qed

end
