(* ===== verification/Merkle.thy ===== *)
theory Merkle
  imports Sha256 Hex_Utils
begin

text \<open>
  Merkle roots, \<^verbatim>\<open>src/src/crypto/merkle_tree.hpp\<close>, and the double hash \<open>HashWrapper::SHA256d\<close> of
  \<^verbatim>\<open>src/src/crypto/hash_wrapper.hpp\<close> they use. The loops work in one array whose live part shrinks while
  the old nodes stay behind it; the model keeps the whole array, so that what an odd level is
  paired with is what the code pairs it with. The hash is a parameter \<open>H\<close> of the loops.
\<close>

section \<open>The double hash\<close>

text \<open>The state in which \<open>Finalize\<close> leaves the shared object.\<close>

definition CSHA256_finalized :: "CSHA256 \<Rightarrow> CSHA256" where
  "CSHA256_finalized c =
    CSHA256_Write (CSHA256_Write c (take (1 + unat ((119 - md_bytes c mod 64) mod 64)) (0x80 # replicate 63 0)))
      (be_store 8 (push_bit 3 (md_bytes c)))"

definition SHA256d :: "CSHA256 \<Rightarrow> u8 list \<Rightarrow> (u8 list \<times> CSHA256) option" where
  "SHA256d csha256 inp =
    (let c1 = CSHA256_Write (CSHA256_Reset csha256) inp
     in case CSHA256_Finalize c1 of None \<Rightarrow> None
        | Some hash1 \<Rightarrow>
            let c2 = CSHA256_Write (CSHA256_Reset (CSHA256_finalized c1)) hash1
            in map_option (\<lambda>dest. (dest, CSHA256_finalized c2)) (CSHA256_Finalize c2))"

section \<open>The tree\<close>

definition GetHashes :: "nat \<Rightarrow> u8 list list \<Rightarrow> u8 list list" where
  "GetHashes HASHSIZE txs = map (\<lambda>hash. rev (Unhexlify_arr (HASHSIZE * 2) hash)) txs"

text \<open>One level, \<open>for (int i = k; i < hash_count; i += 2)\<close>: \<open>k\<close> counts pairs.\<close>

definition merkle_pairs :: "(u8 list \<Rightarrow> u8 list) \<Rightarrow> nat \<Rightarrow> nat \<Rightarrow> u8 list list \<Rightarrow> u8 list list" where
  "merkle_pairs H from to hashes =
    fold (\<lambda>k hashes. hashes[k := H (hashes ! (2 * k) @ hashes ! (2 * k + 1))]) [from..<to] hashes"

text \<open>\<open>if (hash_count & 1)\<close>\<close>

definition merkle_even :: "u8 list list \<Rightarrow> nat \<Rightarrow> u8 list list \<times> nat" where
  "merkle_even hashes hash_count =
    (if odd hash_count then (hashes @ [last hashes], hash_count + 1) else (hashes, hash_count))"

function CalcRoot_loop :: "(u8 list \<Rightarrow> u8 list) \<Rightarrow> u8 list list \<Rightarrow> nat \<Rightarrow> u8 list list" where
  "CalcRoot_loop H hashes hash_count =
    (if 1 < hash_count
     then let (hashes', n) = merkle_even hashes hash_count
          in CalcRoot_loop H (merkle_pairs H 0 (n div 2) hashes') (n div 2)
     else hashes)"
  by pat_completeness auto
termination
  by (relation "measure (\<lambda>(H, hs, n). n)") (auto simp: merkle_even_def split: if_splits, presburger)

declare CalcRoot_loop.simps [simp del]

text \<open>An empty vector has no first element: the result is then undefined.\<close>

definition CalcRoot :: "(u8 list \<Rightarrow> u8 list) \<Rightarrow> u8 list list \<Rightarrow> u8 list option" where
  "CalcRoot H hashes = (if hashes = [] then None else Some (CalcRoot_loop H hashes (length hashes) ! 0))"

definition CalcRootFromSteps :: "(u8 list \<Rightarrow> u8 list) \<Rightarrow> u8 list \<Rightarrow> u8 list list \<Rightarrow> nat \<Rightarrow> u8 list" where
  "CalcRootFromSteps H cb_txid steps step_count = fold (\<lambda>i buff. H (buff @ steps ! i)) [0..<step_count] cb_txid"

function CalcSteps_loop :: "(u8 list \<Rightarrow> u8 list) \<Rightarrow> u8 list list \<Rightarrow> nat \<Rightarrow> u8 list list \<Rightarrow> u8 list list" where
  "CalcSteps_loop H hashes hash_count res =
    (if 1 < hash_count
     then let (hashes', n) = merkle_even hashes hash_count
          in CalcSteps_loop H (merkle_pairs H 1 (n div 2) hashes') (n div 2) (res @ [hashes' ! 1])
     else res)"
  by pat_completeness auto
termination
  by (relation "measure (\<lambda>(H, hs, n, r). n)") (auto simp: merkle_even_def split: if_splits, presburger)

declare CalcSteps_loop.simps [simp del]

definition CalcSteps :: "(u8 list \<Rightarrow> u8 list) \<Rightarrow> u8 list list \<Rightarrow> u8 list list" where
  "CalcSteps H hashes = CalcSteps_loop H hashes (length hashes) []"

section \<open>One level\<close>

text \<open>A level overwrites no node before it has been read.\<close>

lemma merkle_pairs_nth:
  assumes "2 * to \<le> length hs"
  shows "length (merkle_pairs H from to hs) = length hs \<and> (\<forall>j < length hs. merkle_pairs H from to hs ! j =
    (if from \<le> j \<and> j < to then H (hs ! (2 * j) @ hs ! (2 * j + 1)) else hs ! j))"
  using assms
proof (induction to)
  case (Suc to)
  show ?case
  proof (cases "from \<le> to")
    case True
    let ?m = "merkle_pairs H from to hs"
    have m: "length ?m = length hs" "\<forall>j < length hs. ?m ! j =
        (if from \<le> j \<and> j < to then H (hs ! (2 * j) @ hs ! (2 * j + 1)) else hs ! j)" using Suc by simp_all
    have "merkle_pairs H from (Suc to) hs = ?m[to := H (?m ! (2 * to) @ ?m ! (2 * to + 1))]"
      using True by (simp add: merkle_pairs_def)
    moreover have "?m ! (2 * to) = hs ! (2 * to)" "?m ! (2 * to + 1) = hs ! (2 * to + 1)" using m(2) Suc.prems by auto
    ultimately show ?thesis using m True Suc.prems by (auto simp: nth_list_update less_Suc_eq)
  next
    case False
    then show ?thesis by (auto simp: merkle_pairs_def)
  qed
qed (simp add: merkle_pairs_def)

lemmas length_merkle_pairs = merkle_pairs_nth [THEN conjunct1]
lemmas nth_merkle_pairs = merkle_pairs_nth [THEN conjunct2, rule_format]

lemma merkle_even_props:
  assumes "merkle_even hs n = (hs', n')" and "0 < n" and "n \<le> length hs"
  shows "even n'" "n' \<le> length hs'" "n' div 2 = (n + 1) div 2" "\<And>j. j < length hs \<Longrightarrow> hs' ! j = hs ! j"
    "length hs \<le> length hs'"
  using assms by (auto simp: merkle_even_def nth_append split: if_splits)

section \<open>Steps\<close>

lemma CalcRootFromSteps_foldl: "CalcRootFromSteps H cb steps (length steps) = foldl (\<lambda>b s. H (b @ s)) cb steps"
proof -
  have "fold (\<lambda>i b. H (b @ steps ! i)) [0..<length steps] cb = fold (\<lambda>s b. H (b @ s)) (map ((!) steps) [0..<length steps]) cb"
    by (simp add: fold_map comp_def)
  then show ?thesis by (simp add: CalcRootFromSteps_def map_nth foldl_conv_fold)
qed

text \<open>
  Two arrays that agree except in their first element: the steps collected from the one, folded
  over the first element of the other, give its root.
\<close>

lemma steps_give_root:
  assumes "length A = length B" and "tl A = tl B" and "n \<le> length A" and "0 < n"
    and "foldl (\<lambda>b s. H (b @ s)) z res = A ! 0"
  shows "foldl (\<lambda>b s. H (b @ s)) z (CalcSteps_loop H B n res) = CalcRoot_loop H A n ! 0"
  using assms
proof (induction n arbitrary: A B res rule: less_induct)
  case (less n)
  show ?case
  proof (cases "1 < n")
    case True
    obtain A' n' where A': "merkle_even A n = (A', n')" by (metis surj_pair)
    obtain B' where B': "merkle_even B n = (B', n')" using A' by (auto simp: merkle_even_def split: if_splits)
    have tl: "tl A' = tl B'" "length A' = length B'"
    proof -
      have "tl A \<noteq> []" "tl B \<noteq> []" using True less.prems(1,3) by (cases A; cases B; auto)+
      then have "last A = last B" "A \<noteq> []" "B \<noteq> []" using less.prems(2) by (auto simp: last_tl [symmetric])
      then show "tl A' = tl B'" "length A' = length B'"
        using A' B' less.prems(1,2) by (auto simp: merkle_even_def split: if_splits)
    qed
    note pA = merkle_even_props [OF A' less.prems(4,3)]
    have nB: "n \<le> length B" using less.prems by simp
    note pB = merkle_even_props [OF B' less.prems(4) nB]
    have two: "2 * (n' div 2) \<le> length A'" "2 * (n' div 2) \<le> length B'" using pA(1,2) pB(2) by auto
    have same: "A' ! j = B' ! j" if "0 < j" "j < length A'" for j
      using tl that by (cases j) (auto simp: nth_tl [symmetric])
    let ?A = "merkle_pairs H 0 (n' div 2) A'" and ?B = "merkle_pairs H 1 (n' div 2) B'"
    have h: "0 < n' div 2" "n' div 2 < n" using pA(3) True by auto
    have len: "2 < length A' \<or> length A' = 2" using two h(1) by auto
    have len': "length ?A = length A'" "length ?B = length A'"
      using length_merkle_pairs [OF two(1)] length_merkle_pairs [OF two(2)] tl(2) by simp_all
    have "?A ! j = ?B ! j" if j: "0 < j" "j < length A'" for j
    proof (cases "j < n' div 2")
      case True
      then have "2 * j + 1 < length A'" using two by auto
      then show ?thesis
        using nth_merkle_pairs [OF two(1), of j H 0] nth_merkle_pairs [OF two(2), of j H 1] True j tl(2)
          same [of "2 * j"] same [of "2 * j + 1"] by simp
    next
      case False
      then show ?thesis
        using nth_merkle_pairs [OF two(1), of j H 0] nth_merkle_pairs [OF two(2), of j H 1] j tl(2) same by simp
    qed
    then have "tl ?A = tl ?B" using len' by (intro nth_equalityI) (simp_all add: nth_tl)
    moreover have "foldl (\<lambda>b s. H (b @ s)) z (res @ [B' ! 1]) = ?A ! 0"
    proof -
      have "A' ! 0 = A ! 0" using pA(4) [of 0] True less.prems(3) by linarith
      moreover have "?A ! 0 = H (A' ! 0 @ A' ! 1)" using nth_merkle_pairs [OF two(1), of 0 H 0] h len by fastforce
      ultimately show ?thesis using less.prems(5) same [of 1] len by auto
    qed
    ultimately have "foldl (\<lambda>b s. H (b @ s)) z (CalcSteps_loop H ?B (n' div 2) (res @ [B' ! 1])) =
        CalcRoot_loop H ?A (n' div 2) ! 0"
      using less.IH [OF h(2), of ?A ?B "res @ [B' ! 1]"] len' h(1) two(1) by simp
    then show ?thesis using True A' B' by (subst CalcSteps_loop.simps, subst CalcRoot_loop.simps) simp
  next
    case False
    then show ?thesis using less.prems by (simp add: CalcSteps_loop.simps CalcRoot_loop.simps)
  qed
qed

text \<open>C22: folding the steps that a miner is sent over its own coinbase transaction id gives the Merkle root of
  the block with that coinbase, for every number of transactions and whatever stood in the place of
  the coinbase when the steps were computed.\<close>

theorem merkle_steps_root:
  "Some (CalcRootFromSteps H cb (CalcSteps H (x # txs)) (length (CalcSteps H (x # txs)))) = CalcRoot H (cb # txs)"
  using steps_give_root [of "cb # txs" "x # txs" "Suc (length txs)" H cb "[]"]
  by (simp add: CalcRootFromSteps_foldl CalcSteps_def CalcRoot_def)

section \<open>The root\<close>

text \<open>The tree of the protocol: every level pairs its nodes, an odd last node with itself.\<close>

fun btc_level :: "(u8 list \<Rightarrow> u8 list) \<Rightarrow> u8 list list \<Rightarrow> u8 list list" where
  "btc_level H [] = []"
| "btc_level H [x] = [H (x @ x)]"
| "btc_level H (x # y # xs) = H (x @ y) # btc_level H xs"

lemma length_btc_level [simp]: "length (btc_level H xs) = (length xs + 1) div 2"
  by (induction H xs rule: btc_level.induct) auto

function btc_root :: "(u8 list \<Rightarrow> u8 list) \<Rightarrow> u8 list list \<Rightarrow> u8 list" where
  "btc_root H xs = (if 1 < length xs then btc_root H (btc_level H xs) else xs ! 0)"
  by pat_completeness auto
termination
  by (relation "measure (\<lambda>(H, xs). length xs)") auto

declare btc_root.simps [simp del]

text \<open>No level above the leaves has an odd number of nodes, except the root.\<close>

function even_above :: "nat \<Rightarrow> bool" where
  "even_above n =
    (if n \<le> 1 then True else ((n + 1) div 2 = 1 \<or> even ((n + 1) div 2)) \<and> even_above ((n + 1) div 2))"
  by pat_completeness auto
termination
  by (relation "measure id") auto

declare even_above.simps [simp del]

lemma btc_level_nth:
  "j < (length xs + 1) div 2 \<Longrightarrow>
    btc_level H xs ! j = H (xs ! (2 * j) @ (if 2 * j + 1 < length xs then xs ! (2 * j + 1) else xs ! (2 * j)))"
proof (induction H xs arbitrary: j rule: btc_level.induct)
  case (3 H x y xs)
  then show ?case by (cases j) auto
qed auto

lemma CalcRoot_level:
  assumes "1 < n" and "n \<le> length hs" and "even n \<or> n = length hs" and "merkle_even hs n = (hs', n')"
  shows "take (n' div 2) (merkle_pairs H 0 (n' div 2) hs') = btc_level H (take n hs)"
proof (rule nth_equalityI)
  have n: "0 < n" using assms(1) by simp
  note p = merkle_even_props [OF assms(4) n assms(2)]
  have two: "2 * (n' div 2) \<le> length hs'" using p(1,2) by auto
  show "length (take (n' div 2) (merkle_pairs H 0 (n' div 2) hs')) = length (btc_level H (take n hs))"
    using length_merkle_pairs [OF two] two p(3) assms(2) by (simp add: min_absorb2)
  fix j assume "j < length (take (n' div 2) (merkle_pairs H 0 (n' div 2) hs'))"
  then have j: "j < n' div 2" "j < (n + 1) div 2" "2 * j + 1 < length hs'" using two p(3) by auto
  have l: "hs' ! (2 * j) = hs ! (2 * j)" using p(4) [of "2 * j"] j(2) assms(2) by auto
  have r: "hs' ! (2 * j + 1) = (if 2 * j + 1 < n then hs ! (2 * j + 1) else hs ! (2 * j))"
  proof (cases "2 * j + 1 < n")
    case True
    then show ?thesis using p(4) [of "2 * j + 1"] assms(2) by simp
  next
    case False
    then have n: "n = 2 * j + 1" using j(2) by presburger
    then have o: "odd n" by simp
    then have "hs' = hs @ [last hs]" "length hs = 2 * j + 1" using assms(3,4) n by (simp_all only: merkle_even_def) auto
    moreover from this(2) have "hs \<noteq> []" by force
    ultimately show ?thesis using False by (simp add: nth_append last_conv_nth)
  qed
  show "take (n' div 2) (merkle_pairs H 0 (n' div 2) hs') ! j = btc_level H (take n hs) ! j"
    using nth_merkle_pairs [OF two, of j H 0] btc_level_nth [of j "take n hs" H] j l r assms(2)
    by (simp add: min_absorb2)
qed

lemma CalcRoot_loop_root:
  assumes "0 < n" and "n \<le> length hs" and "n = 1 \<or> even n \<or> n = length hs" and "even_above n"
  shows "CalcRoot_loop H hs n ! 0 = btc_root H (take n hs)"
  using assms
proof (induction n arbitrary: hs rule: less_induct)
  case (less n)
  show ?case
  proof (cases "1 < n")
    case True
    obtain hs' n' where e: "merkle_even hs n = (hs', n')" by (metis surj_pair)
    note p = merkle_even_props [OF e less.prems(1,2)]
    let ?k = "n' div 2" and ?m = "merkle_pairs H 0 (n' div 2) hs'"
    have two: "2 * ?k \<le> length hs'" using p(1,2) by auto
    have lev: "take ?k ?m = btc_level H (take n hs)"
      using CalcRoot_level [OF True less.prems(2) _ e] less.prems(3) True by auto
    have k: "?k < n" "0 < ?k" "?k \<le> length ?m" using p(3) True two length_merkle_pairs [OF two, of H 0] by auto
    have ev: "?k = 1 \<or> even ?k \<or> ?k = length ?m" "even_above ?k"
      using less.prems(4) True p(3) by (auto simp: even_above.simps [of n])
    have "CalcRoot_loop H ?m ?k ! 0 = btc_root H (btc_level H (take n hs))"
      using less.IH [OF k(1,2,3) ev] lev by simp
    then show ?thesis
      using True e less.prems(2) by (subst CalcRoot_loop.simps, subst btc_root.simps) (simp add: min_absorb2)
  next
    case False
    then show ?thesis using less.prems by (simp add: CalcRoot_loop.simps btc_root.simps)
  qed
qed

text \<open>C23: \<open>CalcRoot\<close> is the Merkle root of the protocol for every non-empty list of hashes in which only the level
  of the leaves may be odd (all powers of two, and 3, 7, 8, 15, 16 leaves, for example).\<close>

theorem merkle_root_ref:
  assumes "hashes \<noteq> []" and "even_above (length hashes)"
  shows "CalcRoot H hashes = Some (btc_root H hashes)"
  using CalcRoot_loop_root [of "length hashes" hashes H] assms by (simp add: CalcRoot_def)

theorem merkle_root_ref_witness: "CalcRoot (\<lambda>x. 0 # x) [[1], [2], [3]] = Some (btc_root (\<lambda>x. 0 # x) [[1], [2], [3]])"
proof (rule merkle_root_ref)
  show "even_above (length [[1], [2], [3 :: u8]])" by (simp add: even_above.simps)
qed simp

text \<open>From the second level on, an odd level is not paired with itself: \<open>push_back\<close> appends behind the old
  nodes, so the last live node is paired with the node that was left in the next place of the array.
  With six transactions that is the fourth one, and the root is not the one of the protocol whenever
  the hash separates the two arguments.\<close>

theorem merkle_root_six:
  "CalcRoot H [a, b, c, d, e, f] = Some (H (H (H (a @ b) @ H (c @ d)) @ H (H (e @ f) @ d))) \<and>
   btc_root H [a, b, c, d, e, f] = H (H (H (a @ b) @ H (c @ d)) @ H (H (e @ f) @ H (e @ f)))"
proof
  show "btc_root H [a, b, c, d, e, f] = H (H (H (a @ b) @ H (c @ d)) @ H (H (e @ f) @ H (e @ f)))"
    by (simp add: btc_root.simps)
  show "CalcRoot H [a, b, c, d, e, f] = Some (H (H (H (a @ b) @ H (c @ d)) @ H (H (e @ f) @ d)))"
    (is "_ = Some ?r")
  proof -
    have "CalcRoot_loop H [a, b, c, d, e, f] 6 = CalcRoot_loop H [H (a @ b), H (c @ d), H (e @ f), d, e, f] 3"
      by (subst CalcRoot_loop.simps) (simp add: merkle_even_def merkle_pairs_def upt_conv_Cons, (simp add: numeral_2_eq_2)?)
    also have "\<dots> = CalcRoot_loop H [H (H (a @ b) @ H (c @ d)), H (H (e @ f) @ d), H (e @ f), d, e, f, f] 2"
      by (subst CalcRoot_loop.simps) (simp add: merkle_even_def merkle_pairs_def upt_conv_Cons, (simp add: numeral_2_eq_2)?)
    finally have "CalcRoot_loop H [a, b, c, d, e, f] 6 ! 0 = CalcRoot_loop H
        [H (H (a @ b) @ H (c @ d)), H (H (e @ f) @ d), H (e @ f), d, e, f, f] 2 ! 0" by (simp only:)
    also have "\<dots> = ?r"
      by (simp add: CalcRoot_loop.simps merkle_even_def merkle_pairs_def)
    finally have "CalcRoot_loop H [a, b, c, d, e, f] 6 ! 0 = ?r" .
    moreover have "length [a, b, c, d, e, f] = 6" by simp
    ultimately show ?thesis by (simp only: CalcRoot_def list.distinct if_False)
  qed
qed

section \<open>The hash of the pool\<close>

lemma ctx_rep_buf: "ctx_rep f iv c m \<Longrightarrow> length (md_buf c) = 64"
  by (simp add: ctx_rep_def)

lemma CSHA256_Reset_fresh: "length (md_buf c) = 64 \<Longrightarrow> ctx_fresh H256 (CSHA256_Reset c)"
  by (simp add: CSHA256_Reset_def ctx_fresh_def sha256_Initialize_H256)

lemma SHA256d_double:
  assumes "length (md_buf c) = 64"
  shows "\<exists>c'. SHA256d c m = Some (sha256_hash (sha256_hash m), c') \<and> length (md_buf c') = 64"
proof -
  let ?w = "\<lambda>c m. CSHA256_Write (CSHA256_Reset c) m"
  have w: "ctx_rep sha256_Transform H256 (?w c m) m" if "length (md_buf c) = 64" for c m
    using sha256_ctx.pieces_rep [OF CSHA256_Reset_fresh [OF that], of "[m]"] by simp
  have f: "length (md_buf (CSHA256_finalized c)) = 64" if "ctx_rep sha256_Transform H256 c m" for c m
    unfolding CSHA256_finalized_def
    by (rule ctx_rep_buf [OF sha256_ctx.write_rep [OF sha256_ctx.write_rep [OF that]]])
  note r1 = w [OF assms, of m]
  note r2 = w [OF f [OF r1], of "sha256_hash m"]
  show ?thesis
    using f [OF r2] by (simp only: SHA256d_def Let_def option.case option.map CSHA256_digest [OF r1] CSHA256_digest [OF r2]) simp
qed

end
