(* ===== verification/Script_Num.thy ===== *)
theory Script_Num
  imports Hex_Utils
begin

text \<open>
  The number encodings of \<^verbatim>\<open>src/src/crypto/utils.hpp\<close>: \<open>GenNumScript\<close> writes the sign and magnitude
  form of Bitcoin scripts, \<open>ReadNumScript\<close> and \<open>VarInt\<close> handle the variable length integers of the
  network protocol, and \<open>GetTransactionHex\<close> of \<^verbatim>\<open>src/src/jobs/job_base_btc.hpp\<close> uses the first where a
  block calls for the second.
\<close>

unbundle bit_operations_syntax

section \<open>The code\<close>

text \<open>\<open>while (absvalue)\<close>\<close>

function gen_bytes :: "u64 \<Rightarrow> u8 list" where
  "gen_bytes absvalue = (if absvalue = 0 then [] else ucast (absvalue AND 0xFF) # gen_bytes (drop_bit 8 absvalue))"
  by pat_completeness auto
termination
proof (relation "measure unat")
  fix w :: u64 assume "w \<noteq> 0"
  then have "0 < unat w" by (simp add: unat_gt_0)
  then show "(drop_bit 8 w, w) \<in> measure unat" by (simp add: drop_bit_eq_div unat_div)
qed simp

declare gen_bytes.simps [simp del]

text \<open>The argument is a 64-bit signed integer; its magnitude is computed with 64-bit wrap-around.\<close>

definition GenNumScript :: "int \<Rightarrow> u8 list" where
  "GenNumScript value =
    (let neg = value < 0;
         absvalue = (word_of_int (if neg then - value else value) :: u64)
     in if value = 0 then [0]
        else let result = gen_bytes absvalue
             in if last result AND 0x80 \<noteq> 0 then result @ [if neg then 0x80 else 0]
                else if neg then butlast result @ [last result OR 0x80]
                else result)"

text \<open>The value and the number of bytes read.\<close>

definition ReadNumScript :: "u8 list \<Rightarrow> u64 \<times> nat" where
  "ReadNumScript script =
    (let type = script ! 0
     in if type < 0xFD then (ucast type, 1)
        else if type = 0xFD then (le_load (take 2 (drop 1 script)), 3)
        else if type = 0xFE then (le_load (take 4 (drop 1 script)), 5)
        else if type = 0xFF then (le_load (take 8 (drop 1 script)), 9)
        else (0, 0))"

text \<open>\<open>VarInt\<close> changes its argument in place and returns the length.\<close>

definition VarInt :: "u64 \<Rightarrow> u64 \<times> nat" where
  "VarInt len =
    (if len < 0xFD then (len, 1)
     else if len \<le> 0xFFFF then (push_bit 16 0xFD OR len, 3)
     else if len \<le> 0xFFFFFFFF then (push_bit 32 0xFE OR len, 5)
     else (len, 9))"

definition GetByteAmount :: "u32 \<Rightarrow> nat" where
  "GetByteAmount num = (if num \<le> 0xFF then 1 else if num \<le> 0xFFFF then 2 else if num \<le> 0xFFFFFF then 3 else 4)"

text \<open>The transactions of a block, each already in hexadecimal.\<close>

definition GetTransactionHex :: "u8 list list \<Rightarrow> u8 list" where
  "GetTransactionHex txs = fold (\<lambda>tx res. res @ tx) txs (HexlifyS (GenNumScript (int (length txs))))"

section \<open>Script numbers\<close>

definition le_val :: "u8 list \<Rightarrow> nat" where
  "le_val bs = foldr (\<lambda>b v. unat b + 256 * v) bs 0"

lemma le_val_Nil [simp]: "le_val [] = 0"
  by (simp add: le_val_def)

lemma le_val_Cons [simp]: "le_val (b # bs) = unat b + 256 * le_val bs"
  by (simp add: le_val_def)

lemma le_val_snoc: "le_val (bs @ [b]) = le_val bs + 256 ^ length bs * unat b"
  by (induction bs) (simp_all add: algebra_simps)

text \<open>How a script engine reads a number: sign in the top bit of the last byte.\<close>

definition script_num :: "u8 list \<Rightarrow> int" where
  "script_num bs =
    (if bs = [] then 0
     else if bit (last bs) 7 then - int (le_val (butlast bs @ [last bs AND 0x7F]))
     else int (le_val bs))"

lemma gen_bytes_val: "le_val (gen_bytes w) = unat w"
proof (induction w rule: gen_bytes.induct)
  case (1 w)
  have "unat (ucast (w AND 0xFF) :: u8) = unat w mod 256"
  proof -
    have "w AND 0xFF = take_bit 8 w" by (simp add: take_bit_eq_mask mask_eq_exp_minus_1)
    then show ?thesis by (simp add: unsigned_ucast_eq unsigned_take_bit_eq take_bit_eq_mod unat_mod)
  qed
  then show ?case using 1 by (subst gen_bytes.simps) (simp add: drop_bit_eq_div unat_div)
qed

lemma gen_bytes_last: "w \<noteq> 0 \<Longrightarrow> gen_bytes w \<noteq> [] \<and> last (gen_bytes w) \<noteq> 0"
proof (induction w rule: gen_bytes.induct)
  case (1 w)
  show ?case
  proof (cases "drop_bit 8 w = 0")
    case True
    have "ucast (w AND 0xFF) \<noteq> (0 :: u8)"
    proof
      assume z: "ucast (w AND 0xFF) = (0 :: u8)"
      have "le_val (gen_bytes w) = 0" using 1(2) z True by (simp add: gen_bytes.simps)
      then show False using gen_bytes_val [of w] 1(2) by (simp add: unat_eq_0)
    qed
    then show ?thesis using 1(2) True by (simp add: gen_bytes.simps)
  next
    case False
    then show ?thesis using 1 by (subst (1 2) gen_bytes.simps) simp
  qed
qed

lemma and_0x80_bit: "b AND 0x80 \<noteq> 0 \<longleftrightarrow> bit b 7" for b :: u8
  using and_exp_eq_0_iff_not_bit [of b 7] by simp

lemma script_num_append:
  assumes "bs \<noteq> []" and "bit (last bs) 7"
  shows "script_num (bs @ [0]) = int (le_val bs)" "script_num (bs @ [0x80]) = - int (le_val bs)"
  by (simp_all add: script_num_def le_val_snoc and_0x80_bit [symmetric])

lemma script_num_sign:
  assumes "bs \<noteq> []" and "\<not> bit (last bs) 7"
  shows "script_num (butlast bs @ [last bs OR 0x80]) = - int (le_val bs)" "script_num bs = int (le_val bs)"
proof -
  have "(last bs OR 0x80) AND 0x7F = last bs"
  proof -
    have "\<forall>n \<in> set [0..<256]. (of_nat n :: u8) AND 0x80 = 0 \<longrightarrow> ((of_nat n :: u8) OR 0x80) AND 0x7F = of_nat n" by code_simp
    then have "last bs AND 0x80 = 0 \<longrightarrow> (last bs OR 0x80) AND 0x7F = last bs" by (rule byte_all)
    then show ?thesis using assms(2) and_0x80_bit [of "last bs"] by simp
  qed
  moreover have "bit (last bs OR 0x80) 7" using and_0x80_bit [of "0x80"] by (simp add: bit_or_iff)
  ultimately show "script_num (butlast bs @ [last bs OR 0x80]) = - int (le_val bs)" using assms(1) by (simp add: script_num_def)
  show "script_num bs = int (le_val bs)" using assms by (simp add: script_num_def)
qed

text \<open>For every 64-bit signed integer, a script engine reads back from \<open>GenNumScript\<close> the number that was
  written, the most negative one included.\<close>

theorem script_num_roundtrip:
  assumes "- (2 ^ 63) \<le> v" and "v < 2 ^ 63"
  shows "script_num (GenNumScript v) = v"
proof (cases "v = 0")
  case True
  then show ?thesis by (simp add: GenNumScript_def script_num_def)
next
  case False
  let ?w = "word_of_int (if v < 0 then - v else v) :: u64"
  have w: "int (unat ?w) = abs v"
    using assms by (simp add: take_bit_int_eq_self uint_word_of_int_eq abs_if flip: uint_nat)
  have "?w \<noteq> 0"
  proof
    assume "?w = 0"
    then show False using w False by (simp only: unsigned_0)
  qed
  then have r: "gen_bytes ?w \<noteq> []" "int (le_val (gen_bytes ?w)) = abs v"
    using gen_bytes_last [of ?w] gen_bytes_val [of ?w] w by simp_all
  show ?thesis
  proof (cases "bit (last (gen_bytes ?w)) 7")
    case True
    then show ?thesis using script_num_append [OF r(1) True] r(2) False by (cases "v < 0") (simp_all add: GenNumScript_def Let_def and_0x80_bit)
  next
    case nb: False
    then show ?thesis using script_num_sign [OF r(1) nb] r(2) False by (cases "v < 0") (simp_all add: GenNumScript_def Let_def and_0x80_bit)
  qed
qed

theorem script_num_roundtrip_witness: "script_num (GenNumScript (- (2 ^ 63))) = - (2 ^ 63)"
  by (rule script_num_roundtrip) simp_all

section \<open>The number of transactions of a block\<close>

lemma GenNumScript_small:
  assumes "n < 253"
  shows "GenNumScript (int n) = (if n < 128 then [of_nat n] else [of_nat n, 0])"
proof -
  have "\<forall>n \<in> set [0..<253]. GenNumScript (int n) = (if n < 128 then [of_nat n] else [of_nat n, 0])" by code_simp
  then show ?thesis using assms by simp
qed

text \<open>C29: a block starts its transactions with their number as a variable length integer. What
  \<open>GetTransactionHex\<close> writes there is read back correctly for fewer than 128 transactions; from 128 to 252 it is one byte longer
  than a reader of the protocol consumes, so that everything behind it is shifted.\<close>

theorem tx_count_encoding:
  assumes "length txs < 253"
  shows "GetTransactionHex txs = HexlifyS (GenNumScript (int (length txs))) @ concat txs \<and>
    ReadNumScript (GenNumScript (int (length txs)) @ rest) = (of_nat (length txs), 1) \<and>
    length (GenNumScript (int (length txs))) = (if length txs < 128 then 1 else 2)"
proof -
  have "fold (\<lambda>tx res. res @ tx) txs acc = acc @ concat txs" for acc by (induction txs arbitrary: acc) simp_all
  then have hex: "GetTransactionHex txs = HexlifyS (GenNumScript (int (length txs))) @ concat txs"
    by (simp add: GetTransactionHex_def)
  have n: "length txs < 2 ^ 8" using assms by simp
  then have u: "unat (of_nat (length txs) :: u8) = length txs" by (simp add: unat_of_nat)
  then have "(of_nat (length txs) :: u8) < 0xFD" using assms by (simp add: word_less_nat_alt)
  moreover have "ucast (of_nat (length txs) :: u8) = (of_nat (length txs) :: u64)"
    using u by (metis of_nat_unat)
  ultimately show ?thesis using hex GenNumScript_small [OF assms] by (simp add: ReadNumScript_def Let_def)
qed

theorem tx_count_encoding_witness:
  "length (GenNumScript (int (length (replicate 200 [48 :: u8])))) = 2"
  using tx_count_encoding [of "replicate 200 [48 :: u8]" "[]"] by simp

end
