(* ===== verification/Stratum_Client.thy ===== *)
theory Stratum_Client
  imports Prelude Complex_Main
begin

text \<open>
  A miner's session: the difficulty controller \<open>VarDiff\<close> of \<^verbatim>\<open>src/src/difficulty/difficulty_manager.hpp\<close> and
  \<open>StratumClient\<close> of \<^verbatim>\<open>src/src/stratum/stratum_client.hpp\<close>. Floating point arithmetic is a parameter, the record
  \<open>float_ops\<close>: every theorem holds for any meaning of \<open>double\<close>, rounding and exceptional values included.
  Times are 64-bit millisecond counts whose differences wrap around, as in the code.
\<close>

section \<open>Floating point\<close>

record 'f float_ops =
  f_lit :: "rat \<Rightarrow> 'f"
  f_of_u64 :: "u64 \<Rightarrow> 'f"
  f_of_s64 :: "int \<Rightarrow> 'f"
  f_to_s64 :: "'f \<Rightarrow> int"
  f_add :: "'f \<Rightarrow> 'f \<Rightarrow> 'f"
  f_sub :: "'f \<Rightarrow> 'f \<Rightarrow> 'f"
  f_mul :: "'f \<Rightarrow> 'f \<Rightarrow> 'f"
  f_div :: "'f \<Rightarrow> 'f \<Rightarrow> 'f"
  f_abs :: "'f \<Rightarrow> 'f"
  f_fmod :: "'f \<Rightarrow> 'f \<Rightarrow> 'f"
  f_to_u8 :: "'f \<Rightarrow> u8"
  f_lt :: "'f \<Rightarrow> 'f \<Rightarrow> bool"
  f_le :: "'f \<Rightarrow> 'f \<Rightarrow> bool"
  f_eq :: "'f \<Rightarrow> 'f \<Rightarrow> bool"

text \<open>
  One meaning is that of the formulas before rounding: rational arithmetic, with the conversion to an integer rounding towards
  zero as \<open>static_cast\<close> does.
\<close>

definition rat_ops :: "rat float_ops" where
  "rat_ops = \<lparr>f_lit = id, f_of_u64 = (\<lambda>w. of_int (uint w)), f_of_s64 = of_int,
     f_to_s64 = (\<lambda>x. if 0 \<le> x then \<lfloor>x\<rfloor> else \<lceil>x\<rceil>), f_add = (+), f_sub = (-), f_mul = (*), f_div = (/),
     f_abs = abs, f_fmod = (\<lambda>x y. x - y * of_int (if 0 \<le> x / y then \<lfloor>x / y\<rfloor> else \<lceil>x / y\<rceil>)),
     f_to_u8 = (\<lambda>x. of_int \<lfloor>x\<rfloor>), f_lt = (<), f_le = (\<le>), f_eq = (=)\<rparr>"

lemma rat_ops_simps [simp]:
  "f_lit rat_ops x = x" "f_of_s64 rat_ops = of_int" "f_add rat_ops = (+)" "f_sub rat_ops = (-)" "f_mul rat_ops = (*)"
  "f_div rat_ops = (/)" "f_lt rat_ops = (<)" "f_le rat_ops = (\<le>)" "f_eq rat_ops = (=)"
  by (simp_all add: rat_ops_def)

lemma rat_ops_floor: "0 \<le> x \<Longrightarrow> f_to_s64 rat_ops x = \<lfloor>x\<rfloor>"
  by (simp add: rat_ops_def)

section \<open>\<open>VarDiff\<close>\<close>

record 'f var_diff =
  share_times :: "u64 list"
  retarget_count :: u64
  retarget_sum :: 'f
  share_sum :: u64
  share_pos :: nat
  target_share_rate :: 'f
  retarget_interval :: u32

definition VarDiff_new :: "'f float_ops \<Rightarrow> 'f \<Rightarrow> u32 \<Rightarrow> 'f var_diff" where
  "VarDiff_new F rate interval = \<lparr>share_times = replicate 10 0, retarget_count = 0, retarget_sum = f_lit F 0,
     share_sum = 0, share_pos = 0, target_share_rate = rate, retarget_interval = interval\<rparr>"

definition VarDiff_Add :: "u64 \<Rightarrow> 'f var_diff \<Rightarrow> 'f var_diff" where
  "VarDiff_Add t v =
    (let pos = (if length (share_times v) \<le> share_pos v then 0 else share_pos v)
     in v\<lparr>share_sum := share_sum v + t - share_times v ! pos,
          share_times := (share_times v)[pos := t],
          share_pos := pos + 1\<rparr>)"

text \<open>Too early to retarget: the first time, half the interval or half the shares are enough.\<close>

definition VarDiff_early :: "'f var_diff \<Rightarrow> u64 \<Rightarrow> u64 \<Rightarrow> bool" where
  "VarDiff_early v curtime last_adjusted =
    (let elapsed_time = (curtime - last_adjusted) div 1000
     in elapsed_time < ucast (retarget_interval v) \<and>
        (if retarget_count v = 0
         then share_pos v < length (share_times v) div 2 \<and> elapsed_time < ucast (retarget_interval v div 2)
         else share_pos v < length (share_times v)))"

text \<open>The new difficulty, or zero for no change.\<close>

definition VarDiff_Adjust :: "'f float_ops \<Rightarrow> 'f \<Rightarrow> u64 \<Rightarrow> u64 \<Rightarrow> 'f var_diff \<Rightarrow> 'f \<times> 'f var_diff" where
  "VarDiff_Adjust F current_diff curtime last_adjusted v =
    (if VarDiff_early v curtime last_adjusted then (f_lit F 0, v)
     else
       let current_share_time =
             (if share_sum v \<noteq> 0
              then f_div F (f_div F (f_of_u64 F (share_sum v)) (f_of_u64 F (of_nat (share_pos v)))) (f_lit F 1000)
              else f_lit F 0);
           v = v\<lparr>retarget_sum := f_add F (retarget_sum v) current_share_time, retarget_count := retarget_count v + 1\<rparr>;
           minute_rate = f_div F (f_lit F 60) (f_div F (retarget_sum v) (f_of_u64 F (retarget_count v)));
           diff_multiplier =
             (if f_eq F (retarget_sum v) (f_lit F 0) then f_div F (f_lit F 1) (f_of_u64 F (retarget_count v))
              else if f_eq F current_share_time (f_lit F 0) then f_lit F (1 / 2)
              else f_div F minute_rate (target_share_rate v));
           new_diff = f_mul F current_diff diff_multiplier;
           variance = f_abs F (f_sub F new_diff current_diff)
       in (if f_lt F (f_lit F (1 / 10)) (f_div F variance current_diff) then new_diff else f_lit F 0, v))"

section \<open>\<open>StratumClient\<close>\<close>

record full_id =
  miner_id :: u32
  worker_id :: u32

record 'f client =
  vardiff :: "'f var_diff"
  extra_nonce :: u32
  last_adjusted :: u64
  last_share_time :: u64
  current_diff :: 'f
  pending_diff :: "'f option"
  authorized_workers :: "(u8 list \<times> full_id) list"
  share_uset :: "u32 set"
  stats_it :: "nat option"

text \<open>
  The constructor gives no value to \<open>last_adjusted\<close> and \<open>last_share_time\<close>; they are parameters here. The
  extra nonce is taken from a counter shared by all clients.
\<close>

definition StratumClient_new ::
  "'f float_ops \<Rightarrow> 'f \<Rightarrow> 'f \<Rightarrow> u32 \<Rightarrow> u64 \<Rightarrow> u64 \<Rightarrow> u32 \<Rightarrow> 'f client \<times> u32" where
  "StratumClient_new F diff rate interval junk1 junk2 extra_nonce_counter =
    (\<lparr>vardiff = VarDiff_new F rate interval, extra_nonce = extra_nonce_counter, last_adjusted = junk1,
      last_share_time = junk2, current_diff = diff, pending_diff = None, authorized_workers = [], share_uset = {},
      stats_it = None\<rparr>,
     extra_nonce_counter + 1)"

definition GetHasAuthorized :: "'f client \<Rightarrow> bool" where
  "GetHasAuthorized cli \<longleftrightarrow> authorized_workers cli \<noteq> []"

definition GetAuthorizedId :: "'f client \<Rightarrow> u8 list \<Rightarrow> full_id option" where
  "GetAuthorizedId cli worker_name = map_of (authorized_workers cli) worker_name"

text \<open>\<open>now\<close> is what the clock reads.\<close>

definition SetPendingDifficulty :: "u64 \<Rightarrow> 'f \<Rightarrow> 'f client \<Rightarrow> 'f client" where
  "SetPendingDifficulty now diff cli = cli\<lparr>pending_diff := Some diff, last_adjusted := now\<rparr>"

text \<open>\<open>None\<close> is the exception that \<open>value\<close> raises on an empty optional.\<close>

definition ActivatePendingDiff :: "'f client \<Rightarrow> 'f client option" where
  "ActivatePendingDiff cli = map_option (\<lambda>d. cli\<lparr>current_diff := d, pending_diff := None\<rparr>) (pending_diff cli)"

definition HandleAdjust :: "'f float_ops \<Rightarrow> u64 \<Rightarrow> u64 \<Rightarrow> 'f client \<Rightarrow> 'f client" where
  "HandleAdjust F now time cli =
    (let (new_diff, v) = VarDiff_Adjust F (current_diff cli) time (last_adjusted cli) (vardiff cli);
         cli = cli\<lparr>vardiff := v\<rparr>
     in if \<not> f_eq F new_diff (f_lit F 0) then SetPendingDifficulty now new_diff cli else cli)"

definition SetLastShare :: "'f float_ops \<Rightarrow> u64 \<Rightarrow> u32 \<Rightarrow> u64 \<Rightarrow> 'f client \<Rightarrow> bool \<times> 'f client" where
  "SetLastShare F now shareEnd time cli =
    (let share_time = time - last_share_time cli;
         inserted = shareEnd \<notin> share_uset cli;
         cli = cli\<lparr>last_share_time := time, share_uset := insert shareEnd (share_uset cli),
                   vardiff := VarDiff_Add share_time (vardiff cli)\<rparr>
     in (inserted, HandleAdjust F now time cli))"

definition ResetShareSet :: "'f client \<Rightarrow> 'f client" where
  "ResetShareSet cli = cli\<lparr>share_uset := {}\<rparr>"

text \<open>
  \<open>try_emplace\<close> keeps the id of a name that is already there; the statistics iterator, here a position in the list of
  worker statistics, always moves to the worker given last.
\<close>

definition AuthorizeWorker :: "full_id \<Rightarrow> u8 list \<Rightarrow> nat \<Rightarrow> 'f client \<Rightarrow> 'f client" where
  "AuthorizeWorker full_id worker_name worker_it cli =
    cli\<lparr>authorized_workers :=
           (if map_of (authorized_workers cli) worker_name = None
            then authorized_workers cli @ [(worker_name, full_id)] else authorized_workers cli),
        stats_it := Some worker_it\<rparr>"

section \<open>The window of share times\<close>

text \<open>After the shares \<open>ts\<close>, the array holds the last ten of them, each at its number modulo ten.\<close>

definition window_holds :: "u64 list \<Rightarrow> 'f var_diff \<Rightarrow> bool" where
  "window_holds ts v \<longleftrightarrow> length (share_times v) = 10 \<and>
     share_pos v = (if ts = [] then 0 else (length ts - 1) mod 10 + 1) \<and>
     (\<forall>k < length ts. length ts \<le> k + 10 \<longrightarrow> share_times v ! (k mod 10) = ts ! k) \<and>
     (\<forall>i < 10. length ts \<le> i \<longrightarrow> share_times v ! i = 0) \<and>
     share_sum v = sum_list (drop (length ts - 10) ts)"

lemma window_next_pos:
  assumes "window_holds ts v"
  shows "(if length (share_times v) \<le> share_pos v then 0 else share_pos v) = length ts mod 10"
proof (cases "ts = []")
  case False
  define n where "n = length ts - 1"
  have n: "length ts = Suc n" using False by (simp add: n_def)
  have "n mod 10 < 10" by simp
  then show ?thesis using assms n False by (auto simp: window_holds_def mod_Suc)
qed (use assms in \<open>simp add: window_holds_def\<close>)

lemma window_oldest:
  assumes "window_holds ts v"
  shows "share_times v ! (length ts mod 10) = (if 10 \<le> length ts then ts ! (length ts - 10) else 0)"
proof (cases "10 \<le> length ts")
  case True
  then have "(length ts - 10) mod 10 = length ts mod 10" by (simp add: le_mod_geq [symmetric])
  moreover have "share_times v ! ((length ts - 10) mod 10) = ts ! (length ts - 10)"
    using assms True by (simp add: window_holds_def)
  ultimately show ?thesis using True by simp
next
  case False
  then show ?thesis using assms by (simp add: window_holds_def)
qed

lemma mod_ten_distinct: "k < n \<Longrightarrow> n < k + 10 \<Longrightarrow> k mod 10 \<noteq> n mod 10" for k n :: nat
proof
  assume a: "k < n" "n < k + 10" and e: "k mod 10 = n mod 10"
  then have "10 dvd n - k" by (metis less_imp_le mod_eq_dvd_iff_nat)
  then show False using a by (auto dest: dvd_imp_le)
qed

lemma window_add:
  assumes "window_holds ts v"
  shows "window_holds (ts @ [t]) (VarDiff_Add t v)"
proof -
  let ?n = "length ts" and ?p = "length ts mod 10"
  have len: "length (share_times v) = 10" "?p < 10" using assms by (simp_all add: window_holds_def)
  have add: "VarDiff_Add t v = v\<lparr>share_sum := share_sum v + t - share_times v ! ?p,
      share_times := (share_times v)[?p := t], share_pos := ?p + 1\<rparr>"
    using window_next_pos [OF assms] by (simp add: VarDiff_Add_def Let_def)
  have slot: "(share_times v)[?p := t] ! (k mod 10) = (ts @ [t]) ! k" if "k < Suc ?n" "Suc ?n \<le> k + 10" for k
  proof (cases "k = ?n")
    case False
    then have "k mod 10 \<noteq> ?p" using that mod_ten_distinct [of k ?n] by simp
    then show ?thesis using assms that False by (simp add: window_holds_def nth_append)
  qed (use len in simp)
  have rest: "(share_times v)[?p := t] ! i = 0" if "i < 10" "Suc ?n \<le> i" for i
    using assms that by (simp add: window_holds_def)
  have sum: "share_sum v + t - share_times v ! ?p = sum_list (drop (Suc ?n - 10) (ts @ [t]))"
  proof (cases "10 \<le> ?n")
    case True
    then have "drop (?n - 10) ts = ts ! (?n - 10) # drop (Suc ?n - 10) ts"
      by (metis Cons_nth_drop_Suc Suc_diff_le diff_less less_le_trans zero_less_numeral)
    then show ?thesis using assms True window_oldest [OF assms] by (simp add: window_holds_def algebra_simps)
  next
    case False
    then show ?thesis using assms window_oldest [OF assms] by (simp add: window_holds_def)
  qed
  show ?thesis unfolding window_holds_def add using len slot rest sum by simp
qed

lemma window_adds: "window_holds ts v \<Longrightarrow> window_holds (ts @ us) (fold VarDiff_Add us v)"
proof (induction us arbitrary: ts v)
  case (Cons u us)
  then show ?case using Cons.IH [OF window_add [OF Cons.prems]] by simp
qed simp

text \<open>The controller after the share times \<open>ts\<close>.\<close>

definition vardiff_after :: "'f float_ops \<Rightarrow> 'f \<Rightarrow> u32 \<Rightarrow> u64 list \<Rightarrow> 'f var_diff" where
  "vardiff_after F rate interval ts = fold VarDiff_Add ts (VarDiff_new F rate interval)"

lemma vardiff_after_holds: "window_holds ts (vardiff_after F rate interval ts)"
proof -
  have "window_holds [] (VarDiff_new F rate interval)" by (simp add: window_holds_def VarDiff_new_def nth_replicate)
  then show ?thesis using window_adds [of "[]" _ ts] by (simp add: vardiff_after_def)
qed

lemma sum_list_replace:
  "i < length xs \<Longrightarrow> sum_list (xs[i := x]) = sum_list xs + x - xs ! i" for xs :: "'a :: ab_group_add list"
proof (induction xs arbitrary: i)
  case (Cons y ys)
  then show ?case by (cases i) (auto simp: algebra_simps)
qed simp

lemma vardiff_after_sum:
  "share_sum (vardiff_after F rate interval ts) = sum_list (share_times (vardiff_after F rate interval ts))"
proof (induction ts rule: rev_induct)
  case (snoc t ts)
  let ?v = "vardiff_after F rate interval ts"
  have w: "window_holds ts ?v" by (rule vardiff_after_holds)
  then have p: "length ts mod 10 < length (share_times ?v)" by (simp add: window_holds_def)
  have "vardiff_after F rate interval (ts @ [t]) = VarDiff_Add t ?v" by (simp add: vardiff_after_def)
  then show ?case
    using snoc p window_next_pos [OF w] by (simp add: VarDiff_Add_def Let_def sum_list_replace algebra_simps)
qed (simp add: vardiff_after_def VarDiff_new_def sum_list_replicate)

text \<open>C26: after any sequence of shares the controller's index stays inside its array and its running sum is exactly
  the sum (modulo \<open>2 ^ 64\<close>) of the last ten share times, however often the ring has wrapped. The index
  that \<open>Adjust\<close> divides this sum by is the position in the ring, not the number of times summed: once the ring has wrapped the
  two differ at every position but the last.\<close>

theorem vardiff_window:
  "length (share_times (vardiff_after F rate interval ts)) = 10 \<and>
   share_pos (vardiff_after F rate interval ts) = (if ts = [] then 0 else (length ts - 1) mod 10 + 1) \<and>
   share_pos (vardiff_after F rate interval ts) \<le> 10 \<and>
   share_sum (vardiff_after F rate interval ts) = sum_list (drop (length ts - 10) ts) \<and>
   share_sum (vardiff_after F rate interval ts) = sum_list (share_times (vardiff_after F rate interval ts))"
proof -
  have "(length ts - 1) mod 10 + 1 \<le> 10" by (simp add: Suc_leI)
  then show ?thesis
    using vardiff_after_holds [of ts F rate interval] vardiff_after_sum [of F rate interval ts]
    unfolding window_holds_def by simp
qed

end
