(* ===== verification/Zec_Job.thy ===== *)
theory Zec_Job
  imports Job_Manager Merkle Script_Num Stratum_Client
begin

text \<open>
  The VRSC job, \<^verbatim>\<open>src/src/jobs/job_vrsc.hpp\<close> with its base \<^verbatim>\<open>job_base_btc.hpp\<close>: from the daemon's template to the
  notify message, the block header of a share and the block to submit. Strings are lists of bytes. A read past the end of a
  string view, or of the first element of an empty vector, has no result (\<open>None\<close>).
\<close>

section \<open>Text and numbers\<close>

definition ascii :: "string \<Rightarrow> u8 list" where
  "ascii s = map of_char s"

definition bswap_32 :: "u32 \<Rightarrow> u32" where
  "bswap_32 w = be_load (le_store 4 w)"

text \<open>The macros that turn bytes into a \<open>double\<close>, most significant byte first.\<close>

definition BytesToDouble :: "'f float_ops \<Rightarrow> u8 list \<Rightarrow> 'f" where
  "BytesToDouble F bin = foldl (\<lambda>res b. f_add F (f_mul F res (f_lit F 256)) (f_of_u64 F (ucast b))) (f_lit F 0) bin"

text \<open>From the last byte down, while \<open>i > 0\<close>: the first byte is not read.\<close>

definition BytesToDoubleLE :: "'f float_ops \<Rightarrow> u8 list \<Rightarrow> 'f" where
  "BytesToDoubleLE F bin =
    foldl (\<lambda>res i. f_add F (f_mul F res (f_lit F 256)) (f_of_u64 F (ucast (bin ! i)))) (f_lit F 0) (rev [1..<length bin])"

definition HexToDouble :: "'f float_ops \<Rightarrow> u8 list \<Rightarrow> 'f option" where
  "HexToDouble F hex =
    (if 64 < length hex then None
     else Some (BytesToDouble F (Unhexlify_arr 64 (hex @ replicate (64 - length hex) 0))))"

section \<open>Templates and jobs\<close>

record tx_res =
  tx_data :: "u8 list"
  tx_hash :: "u8 list"

record zec_template_res =
  res_version :: u32
  res_prev_block_hash :: "u8 list"
  res_final_sroot_hash :: "u8 list"
  res_solution :: "u8 list"
  res_transactions :: "tx_res list"
  res_coinbase_value :: u64
  res_target :: "u8 list"
  res_min_time :: u32
  res_bits :: u32
  res_height :: u32

record 'f zec_data =
  version :: u32
  prev_block_hash :: "u8 list"
  merkle_root_hash :: "u8 list"
  final_sroot_hash :: "u8 list"
  min_time :: u32
  bits :: u32
  target_diff :: 'f
  coinbase_value :: u64
  tx_count :: u32
  expected_hashes :: 'f
  block_size :: u32
  transactions_hex :: "u8 list"
  solution :: "u8 list"

text \<open>
  The constructors of \<open>BlockTemplateZec\<close> and of the job around it. No initialiser sets \<open>expected_hashes\<close> and
  \<open>block_size\<close>: they keep the default zero. \<open>H\<close> is the double SHA-256 of the Merkle tree.
\<close>

definition BlockTemplateZec ::
  "'f float_ops \<Rightarrow> (u8 list \<Rightarrow> u8 list) \<Rightarrow> zec_template_res \<Rightarrow> (u8 list, 'f zec_data) block_template option" where
  "BlockTemplateZec F H res =
    (if length (res_prev_block_hash res) < 64 \<or> length (res_final_sroot_hash res) < 64 \<or> length (res_solution res) < 144 \<or>
        \<not> list_all (\<lambda>tx. 64 \<le> length (tx_hash tx)) (res_transactions res)
     then None
     else case (CalcRoot H (GetHashes 32 (map tx_hash (res_transactions res))), HexToDouble F (res_target res)) of
       (Some mroot, Some target) \<Rightarrow>
         Some \<lparr>t_height = res_height res, t_key = mroot, t_hash = [], t_data =
           \<lparr>version = res_version res, prev_block_hash = UnhexlifyRev 64 (res_prev_block_hash res),
            merkle_root_hash = mroot, final_sroot_hash = UnhexlifyRev 64 (res_final_sroot_hash res),
            min_time = res_min_time res, bits = res_bits res, target_diff = target,
            coinbase_value = res_coinbase_value res, tx_count = of_nat (length (res_transactions res)),
            expected_hashes = f_lit F 0, block_size = 0,
            transactions_hex = GetTransactionHex (map tx_data (res_transactions res)),
            solution = res_solution res\<rparr>\<rparr>
     | _ \<Rightarrow> None)"

definition GenerateNotifyMessage :: "'f zec_data \<Rightarrow> u8 list \<Rightarrow> bool \<Rightarrow> u8 list" where
  "GenerateNotifyMessage d jobid clean =
    ascii ''{\"id\":null,\"method\":\"mining.notify\",\"params\":[\"'' @ jobid @ ascii ''\",\"'' @
    format_08x (bswap_32 (version d)) @ ascii ''\",\"'' @ HexlifyS (prev_block_hash d) @ ascii ''\",\"'' @
    HexlifyS (merkle_root_hash d) @ ascii ''\",\"'' @ HexlifyS (final_sroot_hash d) @ ascii ''\",\"'' @
    format_08x (bswap_32 (min_time d)) @ ascii ''\",\"'' @ format_08x (bswap_32 (bits d)) @ ascii ''\",'' @
    ascii (if clean then ''true'' else ''false'') @ ascii '',\"'' @ take 144 (solution d) @ ascii ''\"]}'' @ [10]"

text \<open>The message is built once, with the default \<open>clean = true\<close>, from fields that never change.\<close>

definition notify_msg :: "(u8 list, 'f zec_data) job \<Rightarrow> u8 list" where
  "notify_msg job = GenerateNotifyMessage (job_data job) (job_id job) True"

section \<open>Shares and headers\<close>

record share_zec =
  worker :: "u8 list"
  share_job_id :: "u8 list"
  nonce2_sv :: "u8 list"
  share_solution :: "u8 list"
  share_time :: u32

definition copy_at :: "u8 list \<Rightarrow> nat \<Rightarrow> u8 list \<Rightarrow> u8 list" where
  "copy_at buff pos bytes = take pos buff @ bytes @ drop (pos + length bytes) buff"

definition unhexlify_at :: "u8 list \<Rightarrow> nat \<Rightarrow> u8 list \<Rightarrow> nat \<Rightarrow> u8 list" where
  "unhexlify_at buff pos src sz = take pos buff @ Unhexlify (drop pos buff) src sz"

definition TIME_POS :: nat where "TIME_POS = 4 + 32 + 32 + 32"
definition BITS_POS :: nat where "BITS_POS = TIME_POS + 4"
definition NONCE1_POS :: nat where "NONCE1_POS = BITS_POS + 4"
definition NONCE2_POS :: nat where "NONCE2_POS = NONCE1_POS + 4"
definition SOLUTION_POS :: nat where "SOLUTION_POS = NONCE2_POS + 28"
definition BLOCK_HEADER_SIZE :: nat where "BLOCK_HEADER_SIZE = 140 + 3 + 1344"

text \<open>The first copy runs over the four fields from \<open>version\<close> on, which lie one behind the other.\<close>

definition GetHeaderData :: "'f zec_data \<Rightarrow> u8 list \<Rightarrow> share_zec \<Rightarrow> u32 \<Rightarrow> u8 list option" where
  "GetHeaderData d buff share nonce1 =
    (if length (nonce2_sv share) < 28 * 2 \<or> length (share_solution share) < (3 + 1344) * 2 then None
     else
       let buff = copy_at buff 0 (le_store 4 (version d) @ prev_block_hash d @ merkle_root_hash d @ final_sroot_hash d);
           buff = copy_at buff TIME_POS (le_store 4 (share_time share));
           buff = copy_at buff BITS_POS (le_store 4 (bits d));
           buff = copy_at buff NONCE1_POS (le_store 4 nonce1);
           buff = unhexlify_at buff NONCE2_POS (nonce2_sv share) (28 * 2)
       in Some (unhexlify_at buff SOLUTION_POS (share_solution share) ((3 + 1344) * 2)))"

definition GetBlockHex :: "'f zec_data \<Rightarrow> u8 list \<Rightarrow> u8 list" where
  "GetBlockHex d block_header =
    (let res = replicate (BLOCK_HEADER_SIZE * 2 + length (transactions_hex d)) 0;
         res = Hexlify res (take BLOCK_HEADER_SIZE block_header)
     in copy_at res (BLOCK_HEADER_SIZE * 2) (transactions_hex d))"

section \<open>The layout of a header\<close>

lemma copy_at_end [simp]: "length p = pos \<Longrightarrow> copy_at (p @ r) pos b = (p @ b) @ drop (length b) r"
  by (simp add: copy_at_def)

lemma unhexlify_at_end:
  assumes "length p = pos" and "length src = sz" and "sz div 2 \<le> length r"
  shows "unhexlify_at (p @ r) pos src sz = (p @ UnhexlifyS src) @ drop (sz div 2) r"
  using assms by (simp add: unhexlify_at_def Unhexlify_map UnhexlifyS_map)

definition zec_wf :: "'f zec_data \<Rightarrow> bool" where
  "zec_wf d \<longleftrightarrow> length (prev_block_hash d) = 32 \<and> length (merkle_root_hash d) = 32 \<and> length (final_sroot_hash d) = 32"

definition share_wf :: "share_zec \<Rightarrow> bool" where
  "share_wf share \<longleftrightarrow> length (nonce2_sv share) = 56 \<and> length (share_solution share) = 2694"

text \<open>What a block header of the protocol is.\<close>

definition zec_header :: "'f zec_data \<Rightarrow> u32 \<Rightarrow> u32 \<Rightarrow> u8 list \<Rightarrow> u8 list \<Rightarrow> u8 list" where
  "zec_header d time nonce1 nonce2 sol =
    le_store 4 (version d) @ prev_block_hash d @ merkle_root_hash d @ final_sroot_hash d @
    le_store 4 time @ le_store 4 (bits d) @ le_store 4 nonce1 @ nonce2 @ sol"

lemmas header_pos = TIME_POS_def BITS_POS_def NONCE1_POS_def NONCE2_POS_def SOLUTION_POS_def BLOCK_HEADER_SIZE_def

lemma GetHeaderData_layout:
  assumes "zec_wf d" and "share_wf share" and "length buff = BLOCK_HEADER_SIZE"
  shows "GetHeaderData d buff share nonce1 =
    Some (zec_header d (share_time share) nonce1 (UnhexlifyS (nonce2_sv share)) (UnhexlifyS (share_solution share)))"
proof -
  let ?a = "le_store 4 (version d) @ prev_block_hash d @ merkle_root_hash d @ final_sroot_hash d"
  let ?b = "?a @ le_store 4 (share_time share)"
  let ?c = "?b @ le_store 4 (bits d)"
  let ?d = "?c @ le_store 4 nonce1"
  let ?e = "?d @ UnhexlifyS (nonce2_sv share)"
  have len: "length ?a = 100" "length ?b = 104" "length ?c = 108" "length ?d = 112" "length ?e = 140"
    using assms(1,2) by (simp_all add: zec_wf_def share_wf_def)
  have a: "copy_at buff 0 ?a = ?a @ drop 100 buff"
    unfolding copy_at_def using len(1) by simp
  have e: "unhexlify_at (?d @ drop 112 buff) NONCE2_POS (nonce2_sv share) (28 * 2) = ?e @ drop 140 buff"
    using len(4) assms(2,3) by (subst unhexlify_at_end) (simp_all add: header_pos share_wf_def)
  have f: "unhexlify_at (?e @ drop 140 buff) SOLUTION_POS (share_solution share) ((3 + 1344) * 2) =
      ?e @ UnhexlifyS (share_solution share)"
    using len(5) assms(2,3) by (subst unhexlify_at_end) (simp_all add: header_pos share_wf_def)
  have "copy_at (?a @ drop 100 buff) TIME_POS (le_store 4 (share_time share)) = ?b @ drop 104 buff"
    "copy_at (?b @ drop 104 buff) BITS_POS (le_store 4 (bits d)) = ?c @ drop 108 buff"
    "copy_at (?c @ drop 108 buff) NONCE1_POS (le_store 4 nonce1) = ?d @ drop 112 buff"
    using len(1-3) by (subst copy_at_end; simp add: header_pos)+
  then show ?thesis
    using a e f assms(2) by (simp only: GetHeaderData_def Let_def share_wf_def) (simp add: zec_header_def)
qed

lemma le_store_4_inj: "le_store 4 a = le_store 4 b \<longleftrightarrow> a = b" for a b :: u32
proof -
  have "le_load (le_store 4 w) = w" for w :: u32 by (simp add: le_load_le_store take_bit_word_eq_self)
  then show ?thesis by metis
qed

lemma zec_header_inj:
  assumes "zec_header d time nonce1 nonce2 sol = zec_header d time' nonce1' nonce2' sol'" and "length nonce2 = length nonce2'"
  shows "time = time' \<and> nonce1 = nonce1' \<and> nonce2 = nonce2' \<and> sol = sol'"
  using assms by (simp add: zec_header_def append_eq_append_conv le_store_4_inj)

lemma GetBlockHex_eq:
  assumes "length header = BLOCK_HEADER_SIZE"
  shows "GetBlockHex d header = HexlifyS header @ transactions_hex d"
proof -
  have "Hexlify (replicate (BLOCK_HEADER_SIZE * 2 + length (transactions_hex d)) 0) header =
      HexlifyS header @ replicate (length (transactions_hex d)) 0"
    using assms by (subst Hexlify_map) (simp_all add: HexlifyS_map)
  then show ?thesis using assms unfolding GetBlockHex_def Let_def by simp
qed

text \<open>C8: for a share with a 28 byte nonce and a 1347 byte solution, whatever was in the worker's buffer before, the
  header is the 1487 bytes of the protocol in their order, with the server's extra nonce in front of the miner's; two shares of the
  same job that give the same header have the same time, extra nonce, nonce and solution, so clients with different extra
  nonces never hash the same header; and the block to submit is that header in hexadecimal followed by the transactions.\<close>

theorem zec_header_layout:
  assumes "zec_wf d" and "share_wf s" and "length buff = BLOCK_HEADER_SIZE" and "GetHeaderData d buff s n = Some header"
  shows "length header = BLOCK_HEADER_SIZE \<and>
    header = zec_header d (share_time s) n (UnhexlifyS (nonce2_sv s)) (UnhexlifyS (share_solution s)) \<and>
    GetBlockHex d header = HexlifyS header @ transactions_hex d \<and>
    (share_wf s' \<and> length buff' = BLOCK_HEADER_SIZE \<and> GetHeaderData d buff' s' n' = Some header \<longrightarrow>
      share_time s = share_time s' \<and> n = n' \<and> UnhexlifyS (nonce2_sv s) = UnhexlifyS (nonce2_sv s') \<and>
      UnhexlifyS (share_solution s) = UnhexlifyS (share_solution s'))"
proof -
  have h: "header = zec_header d (share_time s) n (UnhexlifyS (nonce2_sv s)) (UnhexlifyS (share_solution s))"
    using GetHeaderData_layout [OF assms(1-3), of n] assms(4) by simp
  then have len: "length header = BLOCK_HEADER_SIZE"
    using assms(1,2) by (simp add: zec_header_def zec_wf_def share_wf_def header_pos)
  have "share_time s = share_time s' \<and> n = n' \<and> UnhexlifyS (nonce2_sv s) = UnhexlifyS (nonce2_sv s') \<and>
      UnhexlifyS (share_solution s) = UnhexlifyS (share_solution s')"
    if a: "share_wf s'" "length buff' = BLOCK_HEADER_SIZE" "GetHeaderData d buff' s' n' = Some header"
  proof (rule zec_header_inj)
    show "zec_header d (share_time s) n (UnhexlifyS (nonce2_sv s)) (UnhexlifyS (share_solution s)) =
        zec_header d (share_time s') n' (UnhexlifyS (nonce2_sv s')) (UnhexlifyS (share_solution s'))"
      using h GetHeaderData_layout [OF assms(1) a(1,2), of n'] a(3) by simp
  qed (use a(1) assms(2) in \<open>simp add: share_wf_def\<close>)
  then show ?thesis using h len GetBlockHex_eq [OF len] by blast
qed

theorem zec_header_layout_witness:
  "\<exists>d :: nat zec_data. \<exists>s header. zec_wf d \<and> share_wf s \<and>
    GetHeaderData d (replicate BLOCK_HEADER_SIZE 0) s 7 = Some header \<and> length header = BLOCK_HEADER_SIZE"
proof -
  let ?z = "replicate 32 0 :: u8 list"
  let ?d = "\<lparr>version = 4, prev_block_hash = ?z, merkle_root_hash = ?z, final_sroot_hash = ?z, min_time = 0, bits = 0,
    target_diff = 0, coinbase_value = 0, tx_count = 0, expected_hashes = 0, block_size = 0, transactions_hex = [],
    solution = []\<rparr> :: nat zec_data"
  let ?s = "\<lparr>worker = [], share_job_id = [], nonce2_sv = replicate 56 48, share_solution = replicate 2694 48, share_time = 5\<rparr>"
  have wf: "zec_wf ?d" "share_wf ?s" "length (replicate BLOCK_HEADER_SIZE 0 :: u8 list) = BLOCK_HEADER_SIZE"
    by (simp_all add: zec_wf_def share_wf_def)
  obtain header where h: "GetHeaderData ?d (replicate BLOCK_HEADER_SIZE 0) ?s 7 = Some header"
    using GetHeaderData_layout [OF wf] by blast
  show ?thesis using zec_header_layout [OF wf h] wf h by blast
qed

section \<open>Jobs are well formed\<close>

lemma merkle_even_len:
  assumes "merkle_even hs n = (hs', n')" and "0 < length hs" and "list_all (\<lambda>h. length h = k) hs"
  shows "list_all (\<lambda>h. length h = k) hs'" "length hs \<le> length hs'"
  using assms by (auto simp: merkle_even_def list_all_iff split: if_splits)

lemma merkle_pairs_len:
  assumes "\<And>x. length (H x) = k" and "list_all (\<lambda>h. length h = k) hs"
  shows "list_all (\<lambda>h. length h = k) (merkle_pairs H from to hs) \<and> length (merkle_pairs H from to hs) = length hs"
proof -
  have "list_all (\<lambda>h. length h = k) (fold (\<lambda>i hs. hs[i := H (hs ! (2 * i) @ hs ! (2 * i + 1))]) is hs) \<and>
      length (fold (\<lambda>i hs. hs[i := H (hs ! (2 * i) @ hs ! (2 * i + 1))]) is hs) = length hs" for "is"
    using assms(2)
  proof (induction "is" arbitrary: hs)
    case (Cons i "is")
    have "list_all (\<lambda>h. length h = k) (hs[i := H (hs ! (2 * i) @ hs ! (2 * i + 1))])"
      using Cons.prems assms(1) by (auto simp: list_all_iff dest!: set_update_subset_insert [THEN subsetD])
    then show ?case using Cons.IH by simp
  qed simp
  then show ?thesis by (simp add: merkle_pairs_def)
qed

lemma CalcRoot_loop_len:
  assumes "\<And>x. length (H x) = k" and "list_all (\<lambda>h. length h = k) hs" and "hs \<noteq> []"
  shows "list_all (\<lambda>h. length h = k) (CalcRoot_loop H hs n) \<and> CalcRoot_loop H hs n \<noteq> []"
  using assms(2,3)
proof (induction n arbitrary: hs rule: less_induct)
  case (less n)
  show ?case
  proof (cases "1 < n")
    case True
    obtain hs' n' where e: "merkle_even hs n = (hs', n')" by fastforce
    have "n' div 2 < n" using e True by (auto simp: merkle_even_def split: if_splits, presburger)
    moreover have "list_all (\<lambda>h. length h = k) (merkle_pairs H 0 (n' div 2) hs')"
      "length (merkle_pairs H 0 (n' div 2) hs') = length hs'"
      using merkle_pairs_len [where H = H, OF assms(1) merkle_even_len(1) [OF e]] less.prems by simp_all
    moreover from this have "merkle_pairs H 0 (n' div 2) hs' \<noteq> []"
      using merkle_even_len(2) [OF e _ less.prems(1)] less.prems(2) by fastforce
    moreover have "CalcRoot_loop H hs n = CalcRoot_loop H (merkle_pairs H 0 (n' div 2) hs') (n' div 2)"
      using True e by (subst CalcRoot_loop.simps) simp
    ultimately show ?thesis using less.IH [of "n' div 2" "merkle_pairs H 0 (n' div 2) hs'"] by simp
  next
    case False
    then show ?thesis using less.prems by (subst (1 2) CalcRoot_loop.simps) simp
  qed
qed

lemma length_UnhexlifyRev [simp]: "length (UnhexlifyRev n s) = n div 2"
  by (simp add: UnhexlifyRev_def Unhexlify_map)

lemma CalcRoot_len:
  assumes "\<And>x. length (H x) = 32" and "CalcRoot H (GetHashes 32 txs) = Some r"
  shows "length r = 32"
proof -
  have "list_all (\<lambda>h. length h = 32) (GetHashes 32 txs)"
    by (simp add: GetHashes_def list_all_iff Unhexlify_arr_def Unhexlify_map)
  then show ?thesis
    using CalcRoot_loop_len [where H = H, OF assms(1)] assms(2) by (auto simp: CalcRoot_def list_all_length split: if_splits)
qed



end
