(* ===== verification/Pool_Accounting.thy ===== *)
theory Pool_Accounting
  imports Stratum_Client
begin

text \<open>
  What the pool counts and pays: worker statistics (\<^verbatim>\<open>src/src/stats/stats_manager.cpp\<close>, with the loop of
  \<^verbatim>\<open>redis_stats.cpp\<close> that closes an interval), rounds (\<^verbatim>\<open>src/src/round/round_manager.cpp\<close>) and payouts
  (\<^verbatim>\<open>src/src/payouts/manager/payout_manager.cpp\<close>). What is sent to the database is a result of the operation. Iterators of
  the worker list are positions in it: the code appends to the list and never erases from it.
\<close>

section \<open>Worker statistics\<close>

record 'f worker_stats =
  average_hashrate :: 'f
  interval_hashrate :: 'f
  interval_valid_shares :: u32
  interval_stale_shares :: u32
  interval_invalid_shares :: u32
  average_hashrate_sum :: 'f
  current_interval_effort :: 'f

record 'f miner_stats = "'f worker_stats" +
  worker_count :: u32

type_synonym 'f worker_map = "(full_id \<times> 'f worker_stats) list"

definition worker_stats_zero :: "'f float_ops \<Rightarrow> 'f worker_stats" where
  "worker_stats_zero F = \<lparr>average_hashrate = f_lit F 0, interval_hashrate = f_lit F 0, interval_valid_shares = 0,
     interval_stale_shares = 0, interval_invalid_shares = 0, average_hashrate_sum = f_lit F 0,
     current_interval_effort = f_lit F 0\<rparr>"

definition miner_stats_zero :: "'f float_ops \<Rightarrow> 'f miner_stats" where
  "miner_stats_zero F = worker_stats.extend (worker_stats_zero F) \<lparr>worker_count = 0\<rparr>"

definition ResetInterval :: "'f float_ops \<Rightarrow> 'f worker_stats \<Rightarrow> 'f worker_stats" where
  "ResetInterval F ws = ws\<lparr>current_interval_effort := f_lit F 0, interval_valid_shares := 0,
     interval_stale_shares := 0, interval_invalid_shares := 0\<rparr>"

definition update_worker :: "nat \<Rightarrow> ('f worker_stats \<Rightarrow> 'f worker_stats) \<Rightarrow> 'f worker_map \<Rightarrow> 'f worker_map" where
  "update_worker it f wm = wm[it := map_prod id f (wm ! it)]"

definition AddValidShare :: "'f float_ops \<Rightarrow> nat \<Rightarrow> 'f \<Rightarrow> 'f worker_map \<Rightarrow> 'f worker_map" where
  "AddValidShare F it diff = update_worker it (\<lambda>ws. ws\<lparr>interval_valid_shares := interval_valid_shares ws + 1,
     current_interval_effort := f_add F (current_interval_effort ws) diff\<rparr>)"

definition AddStaleShare :: "nat \<Rightarrow> 'f worker_map \<Rightarrow> 'f worker_map" where
  "AddStaleShare it = update_worker it (\<lambda>ws. ws\<lparr>interval_stale_shares := interval_stale_shares ws + 1\<rparr>)"

definition AddInvalidShare :: "nat \<Rightarrow> 'f worker_map \<Rightarrow> 'f worker_map" where
  "AddInvalidShare it = update_worker it (\<lambda>ws. ws\<lparr>interval_invalid_shares := interval_invalid_shares ws + 1\<rparr>)"

definition AddExistingWorker :: "'f float_ops \<Rightarrow> full_id \<Rightarrow> 'f worker_map \<Rightarrow> nat \<times> 'f worker_map" where
  "AddExistingWorker F fid wm = (length wm, wm @ [(fid, worker_stats_zero F)])"

text \<open>One worker of the loop of \<open>UpdateIntervalStats\<close>; \<open>operator[]\<close> makes a fresh entry for a new miner.\<close>

definition interval_worker ::
  "'f float_ops \<Rightarrow> 'f \<Rightarrow> u32 \<Rightarrow> full_id \<times> 'f worker_stats \<Rightarrow> 'f worker_map \<times> (u32 \<Rightarrow> 'f miner_stats option) \<Rightarrow>
    'f worker_map \<times> (u32 \<Rightarrow> 'f miner_stats option)" where
  "interval_worker F hash_multiplier seconds = (\<lambda>(fid, ws) (wm, mm).
    let ws = ws\<lparr>interval_hashrate :=
          f_div F (f_mul F hash_multiplier (current_interval_effort ws)) (f_of_u64 F (ucast seconds))\<rparr>;
        ms = (case mm (miner_id fid) of None \<Rightarrow> miner_stats_zero F | Some ms \<Rightarrow> ms);
        ms = ms\<lparr>interval_hashrate := f_add F (interval_hashrate ms) (interval_hashrate ws),
                interval_valid_shares := interval_valid_shares ms + interval_valid_shares ws,
                interval_invalid_shares := interval_invalid_shares ms + interval_invalid_shares ws,
                interval_stale_shares := interval_stale_shares ms + interval_stale_shares ws\<rparr>;
        ms = (if f_lt F (f_lit F 0) (interval_hashrate ws) then ms\<lparr>worker_count := worker_count ms + 1\<rparr> else ms)
    in (wm @ [(fid, ws)], mm(miner_id fid \<mapsto> ms)))"

definition UpdateIntervalStats ::
  "'f float_ops \<Rightarrow> 'f \<Rightarrow> u32 \<Rightarrow> 'f worker_map \<Rightarrow> 'f worker_map \<times> (u32 \<Rightarrow> 'f miner_stats option)" where
  "UpdateIntervalStats F hash_multiplier seconds wm =
    fold (interval_worker F hash_multiplier seconds) wm ([], Map.empty)"

text \<open>
  The loop over the workers on the database's side: the pool's hashrate, the number of active workers, and the workers with
  their interval counters reset.
\<close>

definition close_interval :: "'f float_ops \<Rightarrow> 'f worker_map \<Rightarrow> 'f \<times> u32 \<times> 'f worker_map" where
  "close_interval F wm =
    fold (\<lambda>(fid, ws) (pool_hr, pool_worker_count, wm).
      let pool_worker_count = (if f_lt F (f_lit F 0) (interval_hashrate ws) then pool_worker_count + 1 else pool_worker_count);
          ws = ResetInterval F ws
      in (f_add F pool_hr (interval_hashrate ws), pool_worker_count, wm @ [(fid, ws)])) wm (f_lit F 0, 0, [])"

section \<open>Rounds\<close>

record 'f share_entry =
  share_miner :: u32
  share_diff :: 'f

record 'f round_manager =
  pending_shares :: "'f share_entry list"
  round_total_effort :: 'f
  round_start_ms :: u64
  efforts_map :: "u32 \<Rightarrow> 'f option"

definition AddRoundShare :: "'f float_ops \<Rightarrow> u32 \<Rightarrow> 'f \<Rightarrow> 'f round_manager \<Rightarrow> 'f round_manager" where
  "AddRoundShare F miner effort rm =
    (let old = (case efforts_map rm miner of None \<Rightarrow> f_lit F 0 | Some e \<Rightarrow> e)
     in rm\<lparr>efforts_map := (efforts_map rm)(miner \<mapsto> f_add F old effort),
           round_total_effort := f_add F (round_total_effort rm) effort\<rparr>)"

definition AddRoundSharePPLNS :: "u32 \<Rightarrow> 'f \<Rightarrow> 'f round_manager \<Rightarrow> 'f round_manager" where
  "AddRoundSharePPLNS miner effort rm =
    rm\<lparr>pending_shares := pending_shares rm @ [\<lparr>share_miner = miner, share_diff = effort\<rparr>]\<rparr>"

text \<open>The shares handed to \<open>AddPendingShares\<close>, and the manager without them.\<close>

definition PushPendingShares :: "'f round_manager \<Rightarrow> 'f share_entry list \<times> 'f round_manager" where
  "PushPendingShares rm = (pending_shares rm, rm\<lparr>pending_shares := []\<rparr>)"

definition ResetRoundEfforts :: "'f float_ops \<Rightarrow> 'f round_manager \<Rightarrow> 'f round_manager" where
  "ResetRoundEfforts F rm = rm\<lparr>efforts_map := \<lambda>miner. map_option (\<lambda>_. f_lit F 0) (efforts_map rm miner)\<rparr>"

text \<open>The reward map that is stored with the round stays empty: the call that would fill it is commented out.\<close>

definition CloseRound :: "'f float_ops \<Rightarrow> 'f round_manager \<Rightarrow> 'f share_entry list \<times> 'f round_manager" where
  "CloseRound F rm = (let (pushed, rm) = PushPendingShares rm in (pushed, ResetRoundEfforts F rm))"

section \<open>Payouts\<close>

record 'f round_reward =
  r_effort :: 'f
  r_share :: 'f
  r_reward :: int

definition round_reward_zero :: "'f float_ops \<Rightarrow> 'f round_reward" where
  "round_reward_zero F = \<lparr>r_effort = f_lit F 0, r_share = f_lit F 0, r_reward = 0\<rparr>"

definition AddSharePPLNS ::
  "'f float_ops \<Rightarrow> 'f \<Rightarrow> 'f \<Rightarrow> int \<Rightarrow> 'f \<Rightarrow> u32 \<Rightarrow> (u32 \<Rightarrow> 'f round_reward option) \<times> 'f \<Rightarrow>
    (u32 \<Rightarrow> 'f round_reward option) \<times> 'f" where
  "AddSharePPLNS F n score block_reward fee miner = (\<lambda>(miner_shares, score_sum).
    let share_ratio = f_div F score n;
        reward = f_to_s64 F (f_mul F (f_mul F share_ratio (f_sub F (f_lit F 1) fee)) (f_of_s64 F block_reward));
        score_sum = f_add F score_sum score;
        r = (case miner_shares miner of None \<Rightarrow> round_reward_zero F | Some r \<Rightarrow> r)
    in (miner_shares(miner \<mapsto> r\<lparr>r_reward := r_reward r + reward, r_share := f_add F (r_share r) share_ratio,
          r_effort := f_add F (r_effort r) (f_lit F 1)\<rparr>), score_sum))"

text \<open>The shares from the newest to the oldest; the oldest gets what is left of the window.\<close>

definition GetRewardsPPLNS ::
  "'f float_ops \<Rightarrow> 'f share_entry list \<Rightarrow> int \<Rightarrow> 'f \<Rightarrow> 'f \<Rightarrow> (u32 \<Rightarrow> 'f round_reward option) \<Rightarrow>
    bool \<times> (u32 \<Rightarrow> 'f round_reward option)" where
  "GetRewardsPPLNS F shares block_reward n fee miner_shares =
    (if shares = [] then (False, miner_shares)
     else
       let (miner_shares, score_sum) =
             fold (\<lambda>i. AddSharePPLNS F n (share_diff (shares ! i)) block_reward fee (share_miner (shares ! i)))
               (rev [1..<length shares]) (miner_shares, f_lit F 0)
       in if f_le F n score_sum then (False, miner_shares)
          else (True, fst (AddSharePPLNS F n (f_sub F n score_sum) block_reward fee (share_miner (shares ! 0))
                            (miner_shares, score_sum))))"

definition GetRewardsPROP ::
  "'f float_ops \<Rightarrow> int \<Rightarrow> (u32 \<Rightarrow> 'f option) \<Rightarrow> 'f \<Rightarrow> 'f \<Rightarrow> (u32 \<Rightarrow> 'f round_reward option) \<Rightarrow>
    bool \<times> (u32 \<Rightarrow> 'f round_reward option)" where
  "GetRewardsPROP F block_reward miner_efforts total_effort fee miner_shares =
    (let substracted_reward = f_to_s64 F (f_mul F (f_of_s64 F block_reward) (f_sub F (f_lit F 1) fee))
     in if f_eq F total_effort (f_lit F 0) then (False, miner_shares)
        else (True, \<lambda>miner. case miner_shares miner of Some r \<Rightarrow> Some r
            | None \<Rightarrow> map_option (\<lambda>effort.
                let share = f_div F effort total_effort
                in \<lparr>r_effort = effort, r_share = share,
                    r_reward = f_to_s64 F (f_mul F share (f_of_s64 F substracted_reward))\<rparr>) (miner_efforts miner)))"

section \<open>An interval is reported once\<close>

definition miner_shares_of :: "('f worker_stats \<Rightarrow> u32) \<Rightarrow> u32 \<Rightarrow> 'f worker_map \<Rightarrow> u32" where
  "miner_shares_of field miner wm = sum_list (map (\<lambda>w. field (snd w)) (filter (\<lambda>w. miner_id (fst w) = miner) wm))"

lemma miner_stats_zero_fields [simp]:
  "interval_valid_shares (miner_stats_zero F) = 0" "interval_stale_shares (miner_stats_zero F) = 0"
  "interval_invalid_shares (miner_stats_zero F) = 0" "worker_count (miner_stats_zero F) = 0"
  by (simp_all add: miner_stats_zero_def worker_stats_zero_def worker_stats.defs)

lemma UpdateIntervalStats_snoc:
  "UpdateIntervalStats F k s (wm @ [w]) = interval_worker F k s w (UpdateIntervalStats F k s wm)"
  by (simp add: UpdateIntervalStats_def)

definition active_workers :: "'f float_ops \<Rightarrow> u32 \<Rightarrow> 'f worker_map \<Rightarrow> u32" where
  "active_workers F = miner_shares_of (\<lambda>ws. if f_lt F (f_lit F 0) (interval_hashrate ws) then 1 else 0)"

lemma miner_shares_of_simps [simp]:
  "miner_shares_of field miner [] = 0"
  "miner_shares_of field miner (wm @ [w]) = miner_shares_of field miner wm + (if miner_id (fst w) = miner then field (snd w) else 0)"
  by (simp_all add: miner_shares_of_def)

definition miner_total :: "'f float_ops \<Rightarrow> 'f worker_map \<Rightarrow> 'f worker_map \<Rightarrow> u32 \<Rightarrow> 'f miner_stats \<Rightarrow> bool" where
  "miner_total F wm wm' miner ms \<longleftrightarrow>
     interval_valid_shares ms = miner_shares_of interval_valid_shares miner wm \<and>
     interval_stale_shares ms = miner_shares_of interval_stale_shares miner wm \<and>
     interval_invalid_shares ms = miner_shares_of interval_invalid_shares miner wm \<and>
     worker_count ms = active_workers F miner wm'"

definition interval_inv :: "'f float_ops \<Rightarrow> 'f worker_map \<Rightarrow> 'f worker_map \<times> (u32 \<Rightarrow> 'f miner_stats option) \<Rightarrow> bool" where
  "interval_inv F wm = (\<lambda>(wm', mm). map fst wm' = map fst wm \<and>
    (\<forall>miner. (mm miner = None \<longleftrightarrow> miner \<notin> miner_id ` fst ` set wm) \<and>
      miner_total F wm wm' miner (case mm miner of None \<Rightarrow> miner_stats_zero F | Some ms \<Rightarrow> ms)))"

lemma interval_inv_step:
  assumes "interval_inv F wm (wm', mm)"
  shows "interval_inv F (wm @ [w]) (interval_worker F k s w (wm', mm))"
proof -
  obtain fid ws where w: "w = (fid, ws)" by fastforce
  show ?thesis
    using assms
    by (auto simp: interval_inv_def interval_worker_def w Let_def miner_total_def active_workers_def)
qed

lemma interval_inv_update: "interval_inv F wm (UpdateIntervalStats F k s wm)"
proof (induction wm rule: rev_induct)
  case (snoc w wm)
  then show ?case
    using interval_inv_step [of F wm "fst (UpdateIntervalStats F k s wm)" "snd (UpdateIntervalStats F k s wm)" w k s]
    by (simp add: UpdateIntervalStats_snoc)
qed (simp add: interval_inv_def UpdateIntervalStats_def miner_total_def active_workers_def)

lemma close_interval_workers:
  "snd (snd (close_interval F wm)) = map (\<lambda>(fid, ws). (fid, ResetInterval F ws)) wm"
  by (induction wm rule: rev_induct) (auto simp: close_interval_def Let_def case_prod_beta)


section \<open>The ledger of a round\<close>

datatype 'f round_op = Effort u32 'f | Pplns u32 'f | Push | Close

fun round_step :: "'f float_ops \<Rightarrow> 'f round_op \<Rightarrow> 'f share_entry list \<times> 'f round_manager \<Rightarrow> 'f share_entry list \<times> 'f round_manager" where
  "round_step F (Effort miner e) (sent, rm) = (sent, AddRoundShare F miner e rm)"
| "round_step F (Pplns miner e) (sent, rm) = (sent, AddRoundSharePPLNS miner e rm)"
| "round_step F Push (sent, rm) = (let (pushed, rm) = PushPendingShares rm in (sent @ pushed, rm))"
| "round_step F Close (sent, rm) = (let (pushed, rm) = CloseRound F rm in (sent @ pushed, rm))"

fun op_share :: "'f round_op \<Rightarrow> 'f share_entry list" where
  "op_share (Pplns miner e) = [\<lparr>share_miner = miner, share_diff = e\<rparr>]"
| "op_share _ = []"

fun op_effort :: "'f round_op \<Rightarrow> 'f list" where
  "op_effort (Effort miner e) = [e]"
| "op_effort _ = []"

lemmas round_defs = AddRoundShare_def AddRoundSharePPLNS_def PushPendingShares_def CloseRound_def ResetRoundEfforts_def

lemma round_step_ledger:
  "fst (round_step F op (sent, rm)) @ pending_shares (snd (round_step F op (sent, rm))) = sent @ pending_shares rm @ op_share op"
  "round_total_effort (snd (round_step F op (sent, rm))) = foldl (f_add F) (round_total_effort rm) (op_effort op)"
  by (cases op; simp add: round_defs)+


section \<open>Payouts in exact arithmetic\<close>

text \<open>A total over all the entries of a reward map.\<close>

definition map_total :: "('r \<Rightarrow> 'n :: comm_monoid_add) \<Rightarrow> (u32 \<Rightarrow> 'r option) \<Rightarrow> 'n" where
  "map_total g m = (\<Sum>k \<in> dom m. g (the (m k)))"

lemma map_total_empty [simp]: "map_total g Map.empty = 0"
  by (simp add: map_total_def)

lemma map_total_upd:
  fixes g :: "'r \<Rightarrow> 'n :: ab_group_add"
  shows "map_total g (m(k \<mapsto> v)) = map_total g m + g v - (case m k of None \<Rightarrow> 0 | Some r \<Rightarrow> g r)"
proof -
  have fin: "finite (dom m)" by simp
  have rest: "(\<Sum>x \<in> dom m - {k}. g (the ((m(k \<mapsto> v)) x))) = (\<Sum>x \<in> dom m - {k}. g (the (m x)))"
    by (rule sum.cong) auto
  show ?thesis
  proof (cases "m k")
    case None
    then have "dom m - {k} = dom m" by auto
    then show ?thesis using rest None by (simp add: map_total_def sum.insert_remove [OF fin] algebra_simps)
  next
    case (Some r)
    then have "(\<Sum>x \<in> dom m. g (the (m x))) = g r + (\<Sum>x \<in> dom m - {k}. g (the (m x)))"
      by (subst sum.remove [OF fin, of k]) auto
    then show ?thesis using rest Some by (simp add: map_total_def sum.insert_remove [OF fin] algebra_simps)
  qed
qed

definition pplns_reward :: "rat \<Rightarrow> rat \<Rightarrow> int \<Rightarrow> rat \<Rightarrow> int" where
  "pplns_reward n fee block_reward score = f_to_s64 rat_ops (score / n * (1 - fee) * of_int block_reward)"

lemma pplns_add_totals:
  assumes "AddSharePPLNS rat_ops n score R fee miner (m, acc) = (m', acc')"
  shows "acc' = acc + score" "map_total r_share m' = map_total r_share m + score / n"
    "map_total r_reward m' = map_total r_reward m + pplns_reward n fee R score"
    "0 \<le> pplns_reward n fee R score \<Longrightarrow> \<forall>k r. m k = Some r \<longrightarrow> 0 \<le> r_reward r \<Longrightarrow> \<forall>k r. m' k = Some r \<longrightarrow> 0 \<le> r_reward r"
  using assms
  by (auto simp: AddSharePPLNS_def Let_def map_total_upd round_reward_zero_def pplns_reward_def
      split: option.splits if_splits)

text \<open>All the credits of a payout, one after the other.\<close>

definition pplns_credits :: "rat \<Rightarrow> int \<Rightarrow> rat \<Rightarrow> (rat \<times> u32) list \<Rightarrow> (u32 \<Rightarrow> rat round_reward option) \<times> rat \<Rightarrow>
    (u32 \<Rightarrow> rat round_reward option) \<times> rat" where
  "pplns_credits n R fee = fold (\<lambda>(score, miner). AddSharePPLNS rat_ops n score R fee miner)"

lemma pplns_credits_totals:
  assumes "\<forall>(score, miner) \<in> set cs. 0 \<le> pplns_reward n fee R score" and "\<forall>k r. m k = Some r \<longrightarrow> 0 \<le> r_reward r"
    and "pplns_credits n R fee cs (m, acc) = (m', acc')"
  shows "acc' = acc + sum_list (map fst cs) \<and> map_total r_share m' = map_total r_share m + sum_list (map fst cs) / n \<and>
    map_total r_reward m' = map_total r_reward m + sum_list (map (\<lambda>c. pplns_reward n fee R (fst c)) cs) \<and>
    (\<forall>k r. m' k = Some r \<longrightarrow> 0 \<le> r_reward r)"
  using assms
proof (induction cs arbitrary: m acc)
  case Nil
  then show ?case by (simp add: pplns_credits_def)
next
  case (Cons c cs)
  obtain score miner where c: "c = (score, miner)" by fastforce
  obtain m1 a1 where st: "AddSharePPLNS rat_ops n score R fee miner (m, acc) = (m1, a1)" by fastforce
  note t = pplns_add_totals [OF st]
  have p: "0 \<le> pplns_reward n fee R score" using Cons.prems(1) c by simp
  have "pplns_credits n R fee cs (m1, a1) = (m', acc')" using Cons.prems(3) st c by (simp add: pplns_credits_def)
  then show ?case
    using Cons.IH [of m1 a1] Cons.prems(1) t(4) [OF p Cons.prems(2)] t(1-3) c by (simp add: add_divide_distrib)
qed

lemma sum_list_floor:
  fixes xs :: "rat list"
  assumes "xs \<noteq> []"
  shows "of_int (sum_list (map floor xs)) \<le> sum_list xs \<and> sum_list xs < of_int (sum_list (map floor xs)) + of_nat (length xs)"
  using assms
proof (induction xs rule: list_nonempty_induct)
  case (single x)
  then show ?case by (simp, linarith)
next
  case (cons x xs)
  define f where "f = (of_int \<lfloor>x\<rfloor> :: rat)"
  have "f \<le> x" "x < f + 1" unfolding f_def by linarith+
  then show ?case using cons by (simp flip: f_def)
qed

lemma fold_index_tl:
  "fold (\<lambda>i. f (xs ! i)) (rev [1..<length xs]) = fold f (rev (tl xs))"
proof -
  have "map ((!) xs) (rev [1..<length xs]) = rev (tl xs)"
    by (cases xs) (simp_all add: rev_map [symmetric] map_Suc_upt [symmetric] comp_def map_nth del: upt_Suc map_Suc_upt)
  then have "fold f (rev (tl xs)) = fold f (map ((!) xs) (rev [1..<length xs]))" by simp
  then show ?thesis by (simp add: fold_map comp_def)
qed

text \<open>The credits \<open>GetRewardsPPLNS\<close> makes: every share but the oldest at its difficulty, the oldest at the rest of the window.\<close>

definition pplns_window :: "rat share_entry list \<Rightarrow> rat \<Rightarrow> (rat \<times> u32) list" where
  "pplns_window shares n = map (\<lambda>s. (share_diff s, share_miner s)) (rev (tl shares)) @
     [(n - sum_list (map share_diff (tl shares)), share_miner (shares ! 0))]"

lemma sum_list_rev_map: "sum_list (map f (rev xs)) = sum_list (map f xs)" for f :: "'a \<Rightarrow> 'b :: comm_monoid_add"
  by (metis rev_map sum_list_rev)

lemma pplns_credits_score: "snd (pplns_credits n R fee cs (m, acc)) = acc + sum_list (map fst cs)"
proof (induction cs arbitrary: m acc)
  case (Cons c cs)
  obtain m1 a1 where st: "AddSharePPLNS rat_ops n (fst c) R fee (snd c) (m, acc) = (m1, a1)" by fastforce
  show ?case
    using Cons.IH [of m1 a1] pplns_add_totals(1) [OF st] st by (simp add: pplns_credits_def case_prod_beta)
qed (simp add: pplns_credits_def)

lemma GetRewardsPPLNS_credits:
  assumes "shares \<noteq> []"
  shows "GetRewardsPPLNS rat_ops shares R n fee m =
    (if n \<le> sum_list (map share_diff (tl shares))
     then (False, fst (pplns_credits n R fee (map (\<lambda>s. (share_diff s, share_miner s)) (rev (tl shares))) (m, 0)))
     else (True, fst (pplns_credits n R fee (pplns_window shares n) (m, 0))))"
proof -
  let ?cs = "map (\<lambda>s. (share_diff s, share_miner s)) (rev (tl shares))"
  have f: "fold (\<lambda>i. AddSharePPLNS rat_ops n (share_diff (shares ! i)) R fee (share_miner (shares ! i)))
      (rev [1..<length shares]) = pplns_credits n R fee ?cs"
    using fold_index_tl [of "\<lambda>s. AddSharePPLNS rat_ops n (share_diff s) R fee (share_miner s)" shares]
    by (simp add: pplns_credits_def fold_map comp_def)
  obtain m1 a1 where c: "pplns_credits n R fee ?cs (m, 0) = (m1, a1)" by fastforce
  have "a1 = sum_list (map share_diff (tl shares))"
    using pplns_credits_score [of n R fee ?cs m 0] sum_list_rev_map [of share_diff "tl shares"] by (simp add: c comp_def)
  moreover have "pplns_credits n R fee (pplns_window shares n) (m, 0) =
      AddSharePPLNS rat_ops n (n - sum_list (map share_diff (tl shares))) R fee (share_miner (shares ! 0)) (m1, a1)"
    using c by (simp add: pplns_credits_def pplns_window_def)
  ultimately show ?thesis using assms by (simp add: GetRewardsPPLNS_def f [simplified] c)
qed

text \<open>C9: in exact arithmetic, whenever the shares after the oldest do not fill the window, the PPLNS payout succeeds, the
  miners' ratios add up to one, no reward is negative, and the rewards add up to the block reward less the fee, short of it by
  less than one unit per share: the pool never pays more than the block and keeps at most the rounding. When they do fill
  it, the call fails.\<close>

theorem pplns_payout:
  assumes "shares \<noteq> []" and "0 < n" and "0 \<le> fee" and "fee \<le> 1" and "0 \<le> R" and "\<forall>s \<in> set shares. 0 \<le> share_diff s"
    and "GetRewardsPPLNS rat_ops shares R n fee Map.empty = (ok, m)"
  shows "(ok \<longleftrightarrow> sum_list (map share_diff (tl shares)) < n) \<and>
    (ok \<longrightarrow> map_total r_share m = 1 \<and> (\<forall>miner r. m miner = Some r \<longrightarrow> 0 \<le> r_reward r) \<and>
      of_int (map_total r_reward m) \<le> (1 - fee) * of_int R \<and>
      (1 - fee) * of_int R < of_int (map_total r_reward m) + of_nat (length shares))"
proof (cases "n \<le> sum_list (map share_diff (tl shares))")
  case True
  then show ?thesis using assms(7) by (simp add: GetRewardsPPLNS_credits [OF assms(1)])
next
  case False
  let ?w = "pplns_window shares n" and ?x = "\<lambda>c. fst c / n * (1 - fee) * of_int R"
  have nonneg: "0 \<le> fst c" if "c \<in> set ?w" for c
    using that False assms(6) by (auto simp: pplns_window_def dest: list.set_sel(2) [OF assms(1)])
  have floor: "pplns_reward n fee R (fst c) = \<lfloor>?x c\<rfloor>" and pos: "0 \<le> pplns_reward n fee R (fst c)" if "c \<in> set ?w" for c
    using nonneg [OF that] assms(2-5) by (simp_all add: pplns_reward_def rat_ops_floor)
  have n: "sum_list (map fst ?w) = n"
    using sum_list_rev_map [of share_diff "tl shares"] by (simp add: pplns_window_def comp_def)
  have "sum_list (map ?x cs) = sum_list (map fst cs) / n * (1 - fee) * of_int R" for cs
    by (induction cs) (simp_all add: add_divide_distrib algebra_simps)
  from this [of ?w] have total: "sum_list (map ?x ?w) = (1 - fee) * of_int R" using n assms(2) by simp
  have len: "length ?w = length shares" "?w \<noteq> []" using assms(1) by (simp_all add: pplns_window_def)
  obtain acc where "pplns_credits n R fee ?w (Map.empty, 0) = (m, acc)"
    using assms(7) False by (cases "pplns_credits n R fee ?w (Map.empty, 0)") (simp add: GetRewardsPPLNS_credits [OF assms(1)])
  moreover have "\<forall>(score, miner) \<in> set ?w. 0 \<le> pplns_reward n fee R score" using pos by auto
  ultimately have t: "map_total r_share m = sum_list (map fst ?w) / n"
      "map_total r_reward m = sum_list (map (\<lambda>c. pplns_reward n fee R (fst c)) ?w)" "\<forall>k r. m k = Some r \<longrightarrow> 0 \<le> r_reward r"
    using pplns_credits_totals [of ?w n fee R Map.empty 0 m acc] by simp_all
  have e: "map (\<lambda>c. pplns_reward n fee R (fst c)) ?w = map floor (map ?x ?w)" using floor by simp
  have "n / n = 1" using assms(2) by simp
  then have "map_total r_share m = 1 \<and> (\<forall>k r. m k = Some r \<longrightarrow> 0 \<le> r_reward r) \<and>
      map_total r_reward m = sum_list (map floor (map ?x ?w))"
    unfolding t(1,2) e n using t(3) assms(2) by blast
  then show ?thesis
    using sum_list_floor [of "map ?x ?w"] total len assms(7) False by (auto simp: GetRewardsPPLNS_credits [OF assms(1)])
qed

theorem pplns_payout_witness:
  "\<exists>m. GetRewardsPPLNS rat_ops [\<lparr>share_miner = 1, share_diff = 5\<rparr>, \<lparr>share_miner = 2, share_diff = 3\<rparr>] 100 8 (1 / 50) Map.empty =
      (True, m) \<and> map_total r_share m = 1 \<and> of_int (map_total r_reward m) \<le> (98 :: rat)"
proof -
  let ?s = "[\<lparr>share_miner = 1, share_diff = 5\<rparr>, \<lparr>share_miner = 2, share_diff = 3\<rparr>] :: rat share_entry list"
  obtain ok m where g: "GetRewardsPPLNS rat_ops ?s 100 8 (1 / 50) Map.empty = (ok, m)" by fastforce
  show ?thesis using pplns_payout [OF _ _ _ _ _ _ g] g by auto
qed

end
