(* ===== verification/Share_Core.thy ===== *)
theory Share_Core
  imports Zec_Job Pool_Accounting
begin

text \<open>
  What becomes of a share, for every protocol: the part of \<^verbatim>\<open>src/src/shares/share_processor.hpp\<close> after the hash, the block
  submitter, and \<open>HandleShare\<close> of \<^verbatim>\<open>src/src/stratum/stratum_server.cpp\<close>. \<open>HandleShare\<close> is a template over the static
  configuration of a coin; the record \<open>protocol\<close> holds what its \<open>if constexpr\<close> branches choose. The clock and the daemon's answers are
  parameters; what goes to the daemon and to the database is a list of events. \<open>None\<close> is undefined behaviour. The locale
  \<open>share_protocol\<close> states what a protocol owes the handler, and what follows from it for every share and every run of shares.
\<close>

section \<open>Results\<close>

datatype res_code = OK | UNKNOWN | JOB_NOT_FOUND | DUPLICATE_SHARE | LOW_DIFFICULTY_SHARE | UNAUTHORIZED_WORKER
  | NOT_SUBSCRIBED | VALID_SHARE | VALID_BLOCK

datatype 'f message = Text "u8 list" | Invalid_nTime u32 int u32 | Low_difficulty 'f 'f

record 'f share_result =
  code :: res_code
  msg :: "'f message"
  difficulty :: 'f
  hash_bytes :: "u8 list"

type_synonym 'f rpc_result = "res_code \<times> 'f message"

section \<open>\<open>ShareProcessor\<close>\<close>

text \<open>\<open>HexToDouble\<close> of 64 letters F.\<close>

definition DIFF1 :: "'f float_ops \<Rightarrow> 'f" where
  "DIFF1 F = BytesToDouble F (UnhexlifyS (replicate 64 70))"

text \<open>
  From the hash on; \<open>now\<close> is what the clock reads when the difficulty is adjusted. The branch of a low difficulty sets its
  code and message and does not return, so the code is overwritten.
\<close>

definition Process_hashed ::
  "'f float_ops \<Rightarrow> u64 \<Rightarrow> 'f client \<Rightarrow> 'f \<Rightarrow> u8 list \<Rightarrow> u64 \<Rightarrow> 'f share_result \<times> 'f client" where
  "Process_hashed F now cli job_target hash curTime =
    (let share_start = le_load (take 4 hash);
         (inserted, cli) = SetLastShare F now share_start curTime cli
     in if \<not> inserted
        then (\<lparr>code = DUPLICATE_SHARE, msg = Text (ascii ''Duplicate share''), difficulty = f_lit F 0, hash_bytes = hash\<rparr>, cli)
        else
          let raw_diff = BytesToDoubleLE F hash;
              diff = f_div F (DIFF1 F) raw_diff;
              result = \<lparr>code = UNKNOWN, msg = Text [], difficulty = diff, hash_bytes = hash\<rparr>
          in if f_le F job_target diff then (result\<lparr>code := VALID_BLOCK\<rparr>, cli)
             else
               let result = (if f_lt F (f_div F diff (current_diff cli)) (f_lit F (99 / 100))
                      then result\<lparr>code := LOW_DIFFICULTY_SHARE, msg := Low_difficulty diff (current_diff cli)\<rparr> else result)
               in (result\<lparr>code := VALID_SHARE\<rparr>, cli))"

section \<open>\<open>BlockSubmitter\<close>\<close>

record 'f block_submission =
  sub_miner :: u32
  sub_worker :: u32
  sub_reward :: u64
  sub_time_ms :: u64
  sub_duration_ms :: u64
  sub_height :: u32
  sub_difficulty :: 'f
  sub_effort_percent :: 'f
  sub_hash :: "u8 list"

datatype 'f event = Submit_block "u8 list" bool | Push_shares "'f share_entry list" | Add_block "'f block_submission"

text \<open>\<open>submit i\<close> is the daemon's answer to the attempt number \<open>i\<close>.\<close>

fun TrySubmit_loop :: "(nat \<Rightarrow> bool) \<Rightarrow> u8 list \<Rightarrow> nat \<Rightarrow> nat \<Rightarrow> 'f event list" where
  "TrySubmit_loop submit block_hex i 0 = []"
| "TrySubmit_loop submit block_hex i (Suc n) =
    Submit_block block_hex (submit i) # (if submit i then [] else TrySubmit_loop submit block_hex (i + 1) n)"

definition TrySubmit :: "(nat \<Rightarrow> bool) \<Rightarrow> u8 list \<Rightarrow> 'f event list" where
  "TrySubmit submit block_hex = TrySubmit_loop submit block_hex 0 5"

definition AddImmatureBlock :: "'f float_ops \<Rightarrow> 'f block_submission \<Rightarrow> 'f round_manager \<Rightarrow> 'f event list \<times> 'f round_manager" where
  "AddImmatureBlock F bs rm = (let (pushed, rm) = CloseRound F rm in ([Push_shares pushed, Add_block bs], rm))"

section \<open>\<open>HandleShare\<close>\<close>

record ('k, 'd, 'f) server =
  srv_jobs :: "('k, 'd) job_manager"
  srv_workers :: "'f worker_map"
  srv_rounds :: "'f round_manager"

text \<open>
  The choices of a protocol: \<open>p_process\<close> is \<open>ShareProcessor::Process\<close>, on what the clock reads when it adjusts the difficulty, the
  client, the worker thread's context, the job, the share and its time; \<open>p_block\<close> gives the characters of a solved block and the hash to
  record for it.
\<close>

record ('k, 'd, 's, 'w, 'f) protocol =
  p_worker :: "'s \<Rightarrow> u8 list"
  p_job_id :: "'s \<Rightarrow> u8 list"
  p_process :: "u64 \<Rightarrow> 'f client \<Rightarrow> 'w \<Rightarrow> ('k, 'd) job \<Rightarrow> 's \<Rightarrow> u64 \<Rightarrow> ('f share_result \<times> 'f client \<times> 'w) option"
  p_block :: "'w \<Rightarrow> ('k, 'd) job \<Rightarrow> 's \<Rightarrow> 'f share_result \<Rightarrow> (u8 list \<times> u8 list) option"
  p_block_size :: "'d \<Rightarrow> u32"
  p_coinbase_value :: "'d \<Rightarrow> u64"
  p_expected_hashes :: "'d \<Rightarrow> 'f"

definition with_stats ::
  "'f client \<Rightarrow> (nat \<Rightarrow> 'f worker_map \<Rightarrow> 'f worker_map) \<Rightarrow> ('k, 'd, 'f) server \<Rightarrow> ('k, 'd, 'f) server option" where
  "with_stats cli f srv = (case stats_it cli of None \<Rightarrow> None
     | Some it \<Rightarrow> if it < length (srv_workers srv) then Some (srv\<lparr>srv_workers := f it (srv_workers srv)\<rparr>) else None)"

text \<open>A share that solves a block: the block and its submission, then the round and the credit.\<close>

definition HandleBlock ::
  "'f float_ops \<Rightarrow> ('k, 'd, 's, 'w, 'f) protocol \<Rightarrow> (nat \<Rightarrow> bool) \<Rightarrow> full_id \<Rightarrow> 'f client \<Rightarrow> 'w \<Rightarrow> ('k, 'd) job \<Rightarrow> 's \<Rightarrow>
    'f share_result \<Rightarrow> u64 \<Rightarrow> ('k, 'd, 'f) server \<Rightarrow> ('f event list \<times> ('k, 'd, 'f) server) option" where
  "HandleBlock F P submit fid cli wc job share res time srv =
    (case p_block P wc job share res of None \<Rightarrow> None
     | Some (blockData, hash) \<Rightarrow>
       let d = job_data job;
           blockSize = unat (p_block_size P d * 2);
           submits = TrySubmit submit (take blockSize blockData);
           rm = srv_rounds srv;
           bs = \<lparr>sub_miner = miner_id fid, sub_worker = worker_id fid, sub_reward = p_coinbase_value P d, sub_time_ms = time,
                 sub_duration_ms = time - round_start_ms rm, sub_height = job_height job, sub_difficulty = difficulty res,
                 sub_effort_percent = f_mul F (f_div F (round_total_effort rm) (p_expected_hashes P d)) (f_lit F 100),
                 sub_hash = hash\<rparr>;
           (closes, rm) = AddImmatureBlock F bs rm;
           rm = AddRoundSharePPLNS (miner_id fid) (difficulty res) rm
       in map_option (\<lambda>srv. (submits @ closes, srv\<lparr>srv_rounds := rm\<rparr>))
            (with_stats cli (\<lambda>it. AddValidShare F it (current_diff cli)) srv))"

definition HandleShare ::
  "'f float_ops \<Rightarrow> ('k, 'd, 's, 'w, 'f) protocol \<Rightarrow> (nat \<Rightarrow> bool) \<Rightarrow> u64 \<Rightarrow> u64 \<Rightarrow> 's \<Rightarrow> 'f client \<times> 'w \<times> ('k, 'd, 'f) server \<Rightarrow>
    ('f rpc_result \<times> 'f event list \<times> 'f client \<times> 'w \<times> ('k, 'd, 'f) server) option" where
  "HandleShare F P submit time now share = (\<lambda>(cli, wc, srv).
    case GetAuthorizedId cli (p_worker P share) of
      None \<Rightarrow> Some ((UNAUTHORIZED_WORKER, Text (ascii ''Unauthorized worker'')), [], cli, wc, srv)
    | Some fid \<Rightarrow>
        (case GetJob (srv_jobs srv) (p_job_id P share) of
          None \<Rightarrow> map_option (\<lambda>srv. ((JOB_NOT_FOUND, Text (ascii ''Job not found'')), [], cli, wc, srv))
                    (with_stats cli AddStaleShare srv)
        | Some job \<Rightarrow>
            (case p_process P now cli wc job share time of
              None \<Rightarrow> None
            | Some (res, cli, wc) \<Rightarrow>
                if code res = VALID_BLOCK
                then map_option (\<lambda>(evs, srv). ((OK, Text (ascii ''true'')), evs, cli, wc, srv))
                       (HandleBlock F P submit fid cli wc job share res time srv)
                else if code res = VALID_SHARE
                then let rm = AddRoundShare F (miner_id fid) (difficulty res) (srv_rounds srv);
                         rm = AddRoundSharePPLNS (miner_id fid) (current_diff cli) rm
                     in map_option (\<lambda>srv. ((OK, Text (ascii ''true'')), [], cli, wc, srv\<lparr>srv_rounds := rm\<rparr>))
                          (with_stats cli (\<lambda>it. AddValidShare F it (current_diff cli)) srv)
                else map_option (\<lambda>srv. ((code res, msg res), [], cli, wc, srv)) (with_stats cli AddInvalidShare srv))))"

text \<open>
  A sequence of shares of one client, each with its two clock readings; the hash prefixes of those that were accepted.
\<close>

fun run_shares ::
  "'f float_ops \<Rightarrow> ('k, 'd, 's, 'w, 'f) protocol \<Rightarrow> (nat \<Rightarrow> bool) \<Rightarrow> ('w \<Rightarrow> ('k, 'd) job \<Rightarrow> 's \<Rightarrow> u32) \<Rightarrow> (u64 \<times> u64 \<times> 's) list \<Rightarrow>
    'f client \<times> 'w \<times> ('k, 'd, 'f) server \<Rightarrow> u32 list option" where
  "run_shares F P submit prefix [] st = Some []"
| "run_shares F P submit prefix ((t, now, share) # shares) st =
    (case HandleShare F P submit t now share st of None \<Rightarrow> None
     | Some ((c, m), evs, cli, wc, srv) \<Rightarrow>
         map_option (\<lambda>ps. case (c, GetJob (srv_jobs srv) (p_job_id P share)) of (OK, Some job) \<Rightarrow> prefix wc job share # ps | _ \<Rightarrow> ps)
           (run_shares F P submit prefix shares (cli, wc, srv)))"

section \<open>What becomes of a share\<close>

text \<open>A client that has authorized points at its entry in the worker statistics.\<close>

definition client_ok :: "'f client \<Rightarrow> ('k, 'd, 'f) server \<Rightarrow> bool" where
  "client_ok cli srv \<longleftrightarrow> (GetHasAuthorized cli \<longrightarrow> (\<exists>it < length (srv_workers srv). stats_it cli = Some it))"

lemma SetLastShare_keeps [simp]:
  "fst (SetLastShare F now e t cli) \<longleftrightarrow> e \<notin> share_uset cli"
  "share_uset (snd (SetLastShare F now e t cli)) = insert e (share_uset cli)"
  "stats_it (snd (SetLastShare F now e t cli)) = stats_it cli"
  "current_diff (snd (SetLastShare F now e t cli)) = current_diff cli"
  "extra_nonce (snd (SetLastShare F now e t cli)) = extra_nonce cli"
  "authorized_workers (snd (SetLastShare F now e t cli)) = authorized_workers cli"
  by (simp_all add: SetLastShare_def HandleAdjust_def SetPendingDifficulty_def Let_def case_prod_beta)

lemma Process_hashed_props:
  assumes "Process_hashed F now cli target hash t = (res, cli')"
  shows "code res = (if le_load (take 4 hash) \<in> share_uset cli then DUPLICATE_SHARE
      else if f_le F target (f_div F (DIFF1 F) (BytesToDoubleLE F hash)) then VALID_BLOCK else VALID_SHARE)"
    "hash_bytes res = hash"
    "cli' = snd (SetLastShare F now (le_load (take 4 hash)) t cli)"
    "code res \<noteq> DUPLICATE_SHARE \<Longrightarrow> difficulty res = f_div F (DIFF1 F) (BytesToDoubleLE F hash)"
  using assms by (auto simp: Process_hashed_def Let_def case_prod_beta split: if_splits)

fun pushed :: "'f event list \<Rightarrow> 'f share_entry list" where
  "pushed [] = []"
| "pushed (Push_shares s # evs) = s @ pushed evs"
| "pushed (_ # evs) = pushed evs"

lemma pushed_append [simp]: "pushed (a @ b) = pushed a @ pushed b"
  by (induction a rule: pushed.induct) simp_all

lemma pushed_TrySubmit [simp]: "pushed (TrySubmit submit hex) = []"
proof -
  have "pushed (TrySubmit_loop submit hex i n) = []" for i n
    by (induction n arbitrary: i) simp_all
  then show ?thesis by (simp add: TrySubmit_def)
qed

definition counts :: "'f worker_stats \<Rightarrow> u32 \<times> u32 \<times> u32" where
  "counts ws = (interval_valid_shares ws, interval_stale_shares ws, interval_invalid_shares ws)"

text \<open>One more share of a kind at one worker, and nothing else in the statistics.\<close>

definition counted_once :: "u32 \<times> u32 \<times> u32 \<Rightarrow> nat \<Rightarrow> 'f worker_map \<Rightarrow> 'f worker_map \<Rightarrow> bool" where
  "counted_once = (\<lambda>(v, s, i) it wm wm'. it < length wm \<and> length wm' = length wm \<and>
     (\<forall>j < length wm. fst (wm' ! j) = fst (wm ! j) \<and> (j \<noteq> it \<longrightarrow> wm' ! j = wm ! j)) \<and>
     (case counts (snd (wm ! it)) of (v0, s0, i0) \<Rightarrow> counts (snd (wm' ! it)) = (v0 + v, s0 + s, i0 + i)))"

lemma counted_once_ops:
  assumes "it < length wm"
  shows "counted_once (1, 0, 0) it wm (AddValidShare F it d wm)" "counted_once (0, 1, 0) it wm (AddStaleShare it wm)"
    "counted_once (0, 0, 1) it wm (AddInvalidShare it wm)"
  using assms
  by (auto simp: counted_once_def AddValidShare_def AddStaleShare_def AddInvalidShare_def update_worker_def counts_def nth_list_update)

lemma counted_once_length: "counted_once k it wm wm' \<Longrightarrow> length wm' = length wm"
  by (cases k) (simp add: counted_once_def)

lemma with_stats_SomeD:
  "with_stats cli f srv = Some srv' \<Longrightarrow>
    \<exists>it. stats_it cli = Some it \<and> it < length (srv_workers srv) \<and> srv' = srv\<lparr>srv_workers := f it (srv_workers srv)\<rparr>"
  by (auto simp: with_stats_def split: option.splits if_splits)

lemma HandleBlock_SomeD:
  assumes "HandleBlock F P submit fid cli wc job share res t srv = Some (evs, srv')"
  shows "\<exists>it. stats_it cli = Some it \<and> counted_once (1, 0, 0) it (srv_workers srv) (srv_workers srv') \<and> srv_jobs srv' = srv_jobs srv \<and>
    pushed evs = pending_shares (srv_rounds srv) \<and> map share_miner (pending_shares (srv_rounds srv')) = [miner_id fid]"
  using assms
  by (auto simp: HandleBlock_def Let_def case_prod_beta AddImmatureBlock_def round_defs counted_once_ops
      split: option.splits prod.splits dest!: with_stats_SomeD)

lemma authorized_stats:
  assumes "client_ok cli srv" and "GetAuthorizedId cli w = Some fid"
  shows "\<exists>it < length (srv_workers srv). stats_it cli = Some it"
  using assms by (auto simp: client_ok_def GetAuthorizedId_def GetHasAuthorized_def)

section \<open>What a protocol owes the handler\<close>

text \<open>The code of the answer, decided in the order of the checks, and the counter it moves.\<close>

definition answer ::
  "('k, 'd, 's, 'w, 'f) protocol \<Rightarrow> (('k, 'd) job \<Rightarrow> 's \<Rightarrow> u64 \<Rightarrow> bool) \<Rightarrow> ('w \<Rightarrow> ('k, 'd) job \<Rightarrow> 's \<Rightarrow> u32) \<Rightarrow> u64 \<Rightarrow> 's \<Rightarrow>
    'f client \<Rightarrow> 'w \<Rightarrow> ('k, 'd, 'f) server \<Rightarrow> res_code" where
  "answer P checked prefix t share cli wc srv =
    (if GetAuthorizedId cli (p_worker P share) = None then UNAUTHORIZED_WORKER
     else case GetJob (srv_jobs srv) (p_job_id P share) of None \<Rightarrow> JOB_NOT_FOUND
       | Some job \<Rightarrow> if \<not> checked job share t then UNKNOWN
           else if prefix wc job share \<in> share_uset cli then DUPLICATE_SHARE else OK)"

fun counter_of :: "res_code \<Rightarrow> u32 \<times> u32 \<times> u32" where
  "counter_of OK = (1, 0, 0)"
| "counter_of JOB_NOT_FOUND = (0, 1, 0)"
| "counter_of _ = (0, 0, 1)"

text \<open>
  A share that passes the protocol's own checks is recorded in the client under a prefix of its hash; it is a duplicate if the prefix is
  there already, and else a block or a valid share. A share that does not pass leaves the client as it is.
\<close>

locale share_protocol =
  fixes F :: "'f float_ops" and P :: "('k, 'd, 's, 'w, 'f) protocol" and checked :: "('k, 'd) job \<Rightarrow> 's \<Rightarrow> u64 \<Rightarrow> bool"
    and prefix :: "'w \<Rightarrow> ('k, 'd) job \<Rightarrow> 's \<Rightarrow> u32"
  assumes process_code: "p_process P now cli wc job share t = Some (res, cli', wc') \<Longrightarrow>
      code res \<in> (if \<not> checked job share t then {UNKNOWN} else if prefix wc' job share \<in> share_uset cli then {DUPLICATE_SHARE}
        else {VALID_BLOCK, VALID_SHARE})"
    and process_client: "p_process P now cli wc job share t = Some (res, cli', wc') \<Longrightarrow>
      cli' = (if checked job share t then snd (SetLastShare F now (prefix wc' job share) t cli) else cli)"
begin

lemma HandleShare_job:
  assumes "GetAuthorizedId cli (p_worker P share) = Some fid" and "GetJob (srv_jobs srv) (p_job_id P share) = Some job"
    and "HandleShare F P submit t now share (cli, wc, srv) = Some ((c, m), evs, cli', wc', srv')"
  shows "\<exists>it. c = answer P checked prefix t share cli wc' srv \<and> stats_it cli = Some it \<and> srv_jobs srv' = srv_jobs srv \<and>
    counted_once (counter_of c) it (srv_workers srv) (srv_workers srv') \<and>
    map share_miner (pushed evs @ pending_shares (srv_rounds srv')) =
      map share_miner (pending_shares (srv_rounds srv)) @ (if c = OK then [miner_id fid] else []) \<and>
    cli' = (if checked job share t then snd (SetLastShare F now (prefix wc' job share) t cli) else cli)"
proof -
  obtain res cli1 wc1 where p: "p_process P now cli wc job share t = Some (res, cli1, wc1)"
    using assms by (auto simp: HandleShare_def split: option.splits)
  note q = process_code [OF p] and q3 = process_client [OF p]
  have it: "stats_it cli1 = stats_it cli" using q3 by simp
  have st: "cli' = cli1" "wc' = wc1"
    using assms p by (auto simp: HandleShare_def Let_def split: if_splits)
  consider (block) "code res = VALID_BLOCK" | (valid) "code res = VALID_SHARE"
    | (bad) "code res \<noteq> VALID_BLOCK" "code res \<noteq> VALID_SHARE" by blast
  then have "\<exists>it. c = answer P checked prefix t share cli wc' srv \<and> stats_it cli1 = Some it \<and> srv_jobs srv' = srv_jobs srv \<and>
    counted_once (counter_of c) it (srv_workers srv) (srv_workers srv') \<and>
    map share_miner (pushed evs @ pending_shares (srv_rounds srv')) =
      map share_miner (pending_shares (srv_rounds srv)) @ (if c = OK then [miner_id fid] else [])"
  proof cases
    case block
    then have "answer P checked prefix t share cli wc' srv = OK" using q assms(1,2) st by (auto simp: answer_def split: if_splits)
    then show ?thesis using block assms p st by (auto simp: HandleShare_def dest!: HandleBlock_SomeD)
  next
    case valid
    then have "answer P checked prefix t share cli wc' srv = OK" using q assms(1,2) st by (auto simp: answer_def split: if_splits)
    then show ?thesis
      using valid assms p st by (auto simp: HandleShare_def Let_def round_defs counted_once_ops dest!: with_stats_SomeD)
  next
    case bad
    then have "answer P checked prefix t share cli wc' srv = code res" "code res \<in> {UNKNOWN, DUPLICATE_SHARE}"
      using q assms(1,2) st by (auto simp: answer_def split: if_splits)
    then show ?thesis
      using bad assms p st by (auto simp: HandleShare_def Let_def counted_once_ops dest!: with_stats_SomeD)
  qed
  moreover have "cli' = (if checked job share t then snd (SetLastShare F now (prefix wc' job share) t cli) else cli)"
    using q3 st by simp
  ultimately show ?thesis unfolding it by blast
qed

lemma HandleShare_outcome:
  assumes "HandleShare F P submit t now share (cli, wc, srv) = Some ((c, m), evs, cli', wc', srv')"
  shows "c = answer P checked prefix t share cli wc' srv \<and> srv_jobs srv' = srv_jobs srv \<and>
    (case GetAuthorizedId cli (p_worker P share) of
      None \<Rightarrow> cli' = cli \<and> wc' = wc \<and> srv' = srv \<and> evs = []
    | Some fid \<Rightarrow> \<exists>it. stats_it cli = Some it \<and> counted_once (counter_of c) it (srv_workers srv) (srv_workers srv') \<and>
        map share_miner (pushed evs @ pending_shares (srv_rounds srv')) =
          map share_miner (pending_shares (srv_rounds srv)) @ (if c = OK then [miner_id fid] else []))"
proof (cases "GetAuthorizedId cli (p_worker P share)")
  case None
  then show ?thesis using assms by (simp add: HandleShare_def answer_def)
next
  case fid: (Some fid)
  show ?thesis
  proof (cases "GetJob (srv_jobs srv) (p_job_id P share)")
    case None
    then show ?thesis
      using assms fid by (auto simp: HandleShare_def answer_def counted_once_ops dest!: with_stats_SomeD)
  next
    case (Some job)
    then show ?thesis using HandleShare_job [OF fid Some assms] fid by auto
  qed
qed

lemma HandleShare_keeps:
  assumes "HandleShare F P submit t now share (cli, wc, srv) = Some ((c, m), evs, cli', wc', srv')"
  shows "srv_jobs srv' = srv_jobs srv \<and> length (srv_workers srv') = length (srv_workers srv) \<and> stats_it cli' = stats_it cli \<and>
    authorized_workers cli' = authorized_workers cli \<and> current_diff cli' = current_diff cli \<and> share_uset cli \<subseteq> share_uset cli'"
proof (cases "GetAuthorizedId cli (p_worker P share)")
  case None
  then show ?thesis using assms by (simp add: HandleShare_def)
next
  case fid: (Some fid)
  show ?thesis
  proof (cases "GetJob (srv_jobs srv) (p_job_id P share)")
    case None
    then show ?thesis
      using assms fid by (auto simp: HandleShare_def AddStaleShare_def update_worker_def dest!: with_stats_SomeD)
  next
    case (Some job)
    from HandleShare_job [OF fid Some assms] show ?thesis by (auto dest: counted_once_length)
  qed
qed

text \<open>An accepted share has a job, and its prefix is new to the client and known from then on.\<close>

lemma HandleShare_accepted:
  assumes "HandleShare F P submit t now share (cli, wc, srv) = Some ((OK, m), evs, cli', wc', srv')"
  shows "\<exists>job. GetJob (srv_jobs srv') (p_job_id P share) = Some job \<and> prefix wc' job share \<notin> share_uset cli \<and>
    prefix wc' job share \<in> share_uset cli'"
proof -
  have "answer P checked prefix t share cli wc' srv = OK" "srv_jobs srv' = srv_jobs srv" using HandleShare_outcome [OF assms] by simp_all
  then obtain fid job where f: "GetAuthorizedId cli (p_worker P share) = Some fid" "GetJob (srv_jobs srv) (p_job_id P share) = Some job"
      "checked job share t" "prefix wc' job share \<notin> share_uset cli" "srv_jobs srv' = srv_jobs srv"
    by (auto simp: answer_def split: if_splits option.splits)
  then show ?thesis using HandleShare_job [OF f(1,2) assms] by auto
qed

lemma run_shares_distinct:
  assumes "run_shares F P submit prefix shares (cli, wc, srv) = Some ps"
  shows "distinct ps \<and> set ps \<inter> share_uset cli = {}"
  using assms
proof (induction shares arbitrary: cli wc srv ps)
  case (Cons s shares)
  obtain t now share where s: "s = (t, now, share)" by (metis prod_cases3)
  obtain c m evs cli' wc' srv' where h: "HandleShare F P submit t now share (cli, wc, srv) = Some ((c, m), evs, cli', wc', srv')"
    using Cons.prems by (auto simp: s split: option.splits)
  then obtain qs where r: "run_shares F P submit prefix shares (cli', wc', srv') = Some qs" using Cons.prems by (auto simp: s)
  have sub: "share_uset cli \<subseteq> share_uset cli'" using HandleShare_keeps [OF h] by simp
  show ?case
  proof (cases "c = OK")
    case True
    from HandleShare_accepted [OF h [unfolded True]] obtain job where "GetJob (srv_jobs srv') (p_job_id P share) = Some job"
        "prefix wc' job share \<notin> share_uset cli" "prefix wc' job share \<in> share_uset cli'" by blast
    then show ?thesis using Cons.IH [OF r] Cons.prems h r sub True by (auto simp: s)
  next
    case False
    then have "ps = qs" using Cons.prems h r by (auto simp: s split: res_code.splits)
    then show ?thesis using Cons.IH [OF r] sub by auto
  qed
qed simp

lemma HandleShare_total:
  assumes "client_ok cli srv" and "\<And>job. p_process P now cli wc job share t \<noteq> None" 
    and "\<And>wc job res. GetJob (srv_jobs srv) (p_job_id P share) = Some job \<Longrightarrow> p_block P wc job share res \<noteq> None"
  shows "HandleShare F P submit t now share (cli, wc, srv) \<noteq> None"
proof (cases "GetAuthorizedId cli (p_worker P share)")
  case fid: (Some fid)
  then obtain it where it: "it < length (srv_workers srv)" "stats_it cli = Some it" using authorized_stats [OF assms(1)] by blast
  have stats: "with_stats cli' f srv \<noteq> None" if "stats_it cli' = Some it" for f and cli' :: "'f client"
    using it(1) that by (simp add: with_stats_def)
  show ?thesis
  proof (cases "GetJob (srv_jobs srv) (p_job_id P share)")
    case None
    then show ?thesis using fid stats [OF it(2)] by (auto simp: HandleShare_def)
  next
    case (Some job)
    obtain res cli1 wc1 where p: "p_process P now cli wc job share t = Some (res, cli1, wc1)"
      using assms(2) [of job] by fastforce
    obtain blk h where b: "p_block P wc1 job share res = Some (blk, h)" using assms(3) [OF Some, of wc1 res] by fastforce
    have "stats_it cli1 = Some it" using process_client [OF p] it(2) by simp
    then show ?thesis
      using p b Some fid stats by (auto simp: HandleShare_def HandleBlock_def Let_def case_prod_beta)
  qed
qed (simp add: HandleShare_def)

end

end
