(* ===== verification/Share_Handler.thy ===== *)
theory Share_Handler
  imports Share_Core "HOL-Library.Signed_Division"
begin

text \<open>
  The VRSC shares: \<open>ShareProcessor::Process\<close> of \<^verbatim>\<open>src/src/shares/share_processor.hpp\<close> for the ZEC protocol, the parameter parser of
  \<^verbatim>\<open>src/src/stratum/stratum_server.hpp\<close> and \<open>HandleSubmit\<close> of \<^verbatim>\<open>stratum_server_zec.cpp\<close>. The hash function is a parameter. The
  context of a worker thread is its block header buffer.
\<close>

section \<open>\<open>ShareProcessor\<close>\<close>

definition max_time :: "u64 \<Rightarrow> int" where
  "max_time curTime = sint curTime sdiv 1000 + 60"

definition Process ::
  "'f float_ops \<Rightarrow> (u8 list \<Rightarrow> u8 list) \<Rightarrow> u64 \<Rightarrow> 'f client \<Rightarrow> u8 list \<Rightarrow> 'f zec_data \<Rightarrow> share_zec \<Rightarrow> u64 \<Rightarrow>
    ('f share_result \<times> 'f client \<times> u8 list) option" where
  "Process F hash now cli block_header job share curTime =
    (if share_time share < min_time job \<or> max_time curTime < uint (share_time share)
     then Some (\<lparr>code = UNKNOWN, msg = Invalid_nTime (min_time job) (max_time curTime) (share_time share),
                 difficulty = f_lit F 0, hash_bytes = []\<rparr>, cli, block_header)
     else map_option (\<lambda>header.
            let (result, cli) = Process_hashed F now cli (target_diff job) (hash header) curTime in (result, cli, header))
          (GetHeaderData job block_header share (extra_nonce cli)))"

type_synonym 'f zec_server = "(u8 list, 'f zec_data, 'f) server"

definition zec_protocol :: "'f float_ops \<Rightarrow> (u8 list \<Rightarrow> u8 list) \<Rightarrow> (u8 list, 'f zec_data, share_zec, u8 list, 'f) protocol" where
  "zec_protocol F hash = \<lparr>p_worker = worker, p_job_id = share_job_id,
     p_process = (\<lambda>now cli header job share t. Process F hash now cli header (job_data job) share t),
     p_block = (\<lambda>header job share res. Some (GetBlockHex (job_data job) header, hash_bytes res)),
     p_block_size = block_size, p_coinbase_value = coinbase_value, p_expected_hashes = expected_hashes\<rparr>"

section \<open>\<open>HandleSubmit\<close>\<close>

text \<open>
  The parameters of a request as the JSON parser gives them, \<open>None\<close> for a value that is not a string. A field that has no
  parameter keeps its empty value; surplus parameters are not looked at.
\<close>

fun ParseShareParams :: "(u8 list \<times> nat) list \<Rightarrow> u8 list option list \<Rightarrow> u8 list + u8 list list" where
  "ParseShareParams [] params = Inr []"
| "ParseShareParams (fld # fs) [] = Inr ([] # map (\<lambda>_. []) fs)"
| "ParseShareParams ((name, sz) # fs) (None # params) = Inl (name @ ascii '': '')"
| "ParseShareParams ((name, sz) # fs) (Some v # params) =
    (if length v \<noteq> sz \<and> sz \<noteq> 0 then Inl (name @ ascii '': '' @ ascii ''Bad size of field'')
     else map_sum id (\<lambda>vs. v # vs) (ParseShareParams fs params))"

definition zec_fields :: "(u8 list \<times> nat) list" where
  "zec_fields = [(ascii ''worker'', 0), (ascii ''job id'', 4 * 2), (ascii ''time'', 4 * 2), (ascii ''nonce2'', 28 * 2),
     (ascii ''solution'', (1344 + 3) * 2)]"

definition is_xdigit :: "u8 \<Rightarrow> bool" where
  "is_xdigit c \<longleftrightarrow> 48 \<le> c \<and> c \<le> 57 \<or> 97 \<le> c \<and> c \<le> 102 \<or> 65 \<le> c \<and> c \<le> 70"

text \<open>
  \<open>std::from_chars\<close> in base 16 on at most eight characters: the digits at the front; with none, the target keeps its
  value, which is indeterminate here.
\<close>

definition from_chars_hex :: "u8 list \<Rightarrow> u32 \<Rightarrow> u32" where
  "from_chars_hex s old = (let ds = takeWhile is_xdigit s in if ds = [] then old else ucast (HexToUint ds))"

definition HandleSubmit ::
  "'f float_ops \<Rightarrow> (u8 list \<Rightarrow> u8 list) \<Rightarrow> (nat \<Rightarrow> bool) \<Rightarrow> u64 \<Rightarrow> u64 \<Rightarrow> u32 \<Rightarrow> u8 list option list \<Rightarrow> 'f client \<times> u8 list \<times> 'f zec_server \<Rightarrow>
    ('f rpc_result \<times> 'f event list \<times> 'f client \<times> u8 list \<times> 'f zec_server) option" where
  "HandleSubmit F hash submit time now junk params st =
    (case ParseShareParams zec_fields params of
      Inl err \<Rightarrow> Some ((UNKNOWN, Text (ascii ''Failed to parse share: '' @ err)), [], st)
    | Inr vs \<Rightarrow>
        HandleShare F (zec_protocol F hash) submit time now
          \<lparr>worker = vs ! 0, share_job_id = vs ! 1, nonce2_sv = vs ! 3, share_solution = vs ! 4,
           share_time = bswap_32 (from_chars_hex (vs ! 2) junk)\<rparr> st)"

section \<open>What becomes of a VRSC share\<close>

definition share_time_ok :: "'f zec_data \<Rightarrow> share_zec \<Rightarrow> u64 \<Rightarrow> bool" where
  "share_time_ok job share t \<longleftrightarrow> min_time job \<le> share_time share \<and> uint (share_time share) \<le> max_time t"

definition hash_prefix :: "(u8 list \<Rightarrow> u8 list) \<Rightarrow> u8 list \<Rightarrow> u32" where
  "hash_prefix hash header = le_load (take 4 (hash header))"

lemma share_time_bad: "share_time share < min_time job \<or> max_time t < uint (share_time share) \<longleftrightarrow> \<not> share_time_ok job share t"
  by (auto simp: share_time_ok_def not_less not_le)

lemma Process_eq:
  "Process F hash now cli header job share t =
    (if \<not> share_time_ok job share t
     then Some (\<lparr>code = UNKNOWN, msg = Invalid_nTime (min_time job) (max_time t) (share_time share), difficulty = f_lit F 0,
            hash_bytes = []\<rparr>, cli, header)
     else map_option (\<lambda>h. (fst (Process_hashed F now cli (target_diff job) (hash h) t),
            snd (Process_hashed F now cli (target_diff job) (hash h) t), h)) (GetHeaderData job header share (extra_nonce cli)))"
  by (simp add: Process_def share_time_bad case_prod_beta Let_def)

lemma Process_props:
  assumes "Process F hash now cli header job share t = Some (res, cli', header')"
  shows "code res = (if \<not> share_time_ok job share t then UNKNOWN
      else if hash_prefix hash header' \<in> share_uset cli then DUPLICATE_SHARE
      else if f_le F (target_diff job) (f_div F (DIFF1 F) (BytesToDoubleLE F (hash header'))) then VALID_BLOCK else VALID_SHARE)"
    "share_time_ok job share t \<Longrightarrow> GetHeaderData job header share (extra_nonce cli) = Some header'"
    "cli' = (if share_time_ok job share t then snd (SetLastShare F now (hash_prefix hash header') t cli) else cli)"
  using assms Process_hashed_props(1,3) [OF prod.collapse [symmetric], of F now cli "target_diff job" "hash header'" t]
  by (auto simp: Process_eq hash_prefix_def split: if_splits)

lemma Process_defined:
  assumes "28 * 2 \<le> length (nonce2_sv share)" and "(3 + 1344) * 2 \<le> length (share_solution share)"
  shows "Process F hash now cli header job share t \<noteq> None"
  using assms by (simp add: Process_eq GetHeaderData_def Let_def)

definition zec_checked :: "(u8 list, 'f zec_data) job \<Rightarrow> share_zec \<Rightarrow> u64 \<Rightarrow> bool" where
  "zec_checked job = share_time_ok (job_data job)"

definition zec_prefix :: "(u8 list \<Rightarrow> u8 list) \<Rightarrow> u8 list \<Rightarrow> (u8 list, 'f zec_data) job \<Rightarrow> share_zec \<Rightarrow> u32" where
  "zec_prefix hash header job share = hash_prefix hash header"

interpretation zec: share_protocol F "zec_protocol F hash" zec_checked "zec_prefix hash" for F hash
  by unfold_locales (simp_all add: zec_protocol_def zec_checked_def zec_prefix_def, (drule Process_props(1), simp), (drule Process_props(3), simp))

lemma zec_protocol_simps [simp]:
  "p_worker (zec_protocol F hash) = worker" "p_job_id (zec_protocol F hash) = share_job_id"
  "p_block_size (zec_protocol F hash) = block_size"
  by (simp_all add: zec_protocol_def)

lemma HandleShare_defined:
  assumes "client_ok cli srv" and "28 * 2 \<le> length (nonce2_sv share)" and "(3 + 1344) * 2 \<le> length (share_solution share)"
  shows "HandleShare F (zec_protocol F hash) submit t now share (cli, header, srv) \<noteq> None"
  using Process_defined [OF assms(2,3)] by (intro zec.HandleShare_total [OF assms(1)]) (simp_all add: zec_protocol_def)

text \<open>C1: the answer to a share is decided by authorization, job, time and repetition alone, in this order; a share that
  passes them is accepted whatever its difficulty (the answer for a low difficulty is never given). Every share of an authorized
  worker moves exactly one counter of exactly one worker by one: valid if accepted, stale without a job, invalid otherwise. An accepted share
  adds exactly one PPLNS entry, for the miner that was authorized, also when it closes a round; any other share adds none. A share that is not
  authorized changes nothing.\<close>

theorem share_outcome:
  assumes "HandleShare F (zec_protocol F hash) submit t now share (cli, header, srv) = Some ((c, m), evs, cli', header', srv')"
  shows "c = answer (zec_protocol F hash) zec_checked (zec_prefix hash) t share cli header' srv \<and> srv_jobs srv' = srv_jobs srv \<and>
    (case GetAuthorizedId cli (worker share) of
      None \<Rightarrow> cli' = cli \<and> header' = header \<and> srv' = srv \<and> evs = []
    | Some fid \<Rightarrow> \<exists>it. stats_it cli = Some it \<and> counted_once (counter_of c) it (srv_workers srv) (srv_workers srv') \<and>
        map share_miner (pushed evs @ pending_shares (srv_rounds srv')) =
          map share_miner (pending_shares (srv_rounds srv)) @ (if c = OK then [miner_id fid] else []))"
  using zec.HandleShare_outcome [OF assms] by simp

text \<open>A small pool: one worker, one job, one share.\<close>

definition ex_data :: "rat zec_data" where
  "ex_data = \<lparr>version = 4, prev_block_hash = replicate 32 0, merkle_root_hash = replicate 32 0,
     final_sroot_hash = replicate 32 0, min_time = 0, bits = 0, target_diff = 1000, coinbase_value = 0, tx_count = 1,
     expected_hashes = 0, block_size = 0, transactions_hex = [48, 49], solution = []\<rparr>"

definition ex_client :: "rat client" where
  "ex_client = AuthorizeWorker \<lparr>miner_id = 3, worker_id = 4\<rparr> [65] 0 (fst (StratumClient_new rat_ops 10 5 60 0 0 7))"

definition ex_server :: "rat zec_server" where
  "ex_server = \<lparr>srv_jobs = \<lparr>job_count = 1, last_job = None, jobs = [\<lparr>job_id = replicate 8 49, job_clean = True, job_height = 9, job_key = [],
       job_data = ex_data\<rparr>]\<rparr>,
     srv_workers = snd (AddExistingWorker rat_ops \<lparr>miner_id = 3, worker_id = 4\<rparr> []),
     srv_rounds = \<lparr>pending_shares = [], round_total_effort = 0, round_start_ms = 0, efforts_map = Map.empty\<rparr>\<rparr>"

definition ex_share :: share_zec where
  "ex_share = \<lparr>worker = [65], share_job_id = replicate 8 49, nonce2_sv = replicate 56 48, share_solution = replicate 2694 48, share_time = 5\<rparr>"

lemma ex_client_ok: "client_ok ex_client ex_server"
  by (simp add: client_ok_def ex_client_def ex_server_def AuthorizeWorker_def AddExistingWorker_def)

lemma ex_share_lengths: "28 * 2 \<le> length (nonce2_sv ex_share)" "(3 + 1344) * 2 \<le> length (share_solution ex_share)"
  by (simp_all add: ex_share_def)

lemma ex_answer: "answer (zec_protocol rat_ops hash) zec_checked (zec_prefix hash) 10000 ex_share ex_client header ex_server = OK"
  by (simp add: answer_def zec_checked_def zec_prefix_def ex_share_def ex_client_def ex_server_def ex_data_def AuthorizeWorker_def StratumClient_new_def
      GetAuthorizedId_def GetJob_def share_time_ok_def max_time_def)

theorem share_outcome_witness:
  "\<exists>m evs cli' header' srv'. HandleShare rat_ops (zec_protocol rat_ops id) (\<lambda>i. True) 10000 10000 ex_share (ex_client, replicate BLOCK_HEADER_SIZE 0, ex_server) =
      Some ((OK, m), evs, cli', header', srv')"
proof -
  obtain c m evs cli' header' srv' where h: "HandleShare rat_ops (zec_protocol rat_ops id) (\<lambda>i. True) 10000 10000 ex_share
      (ex_client, replicate BLOCK_HEADER_SIZE 0, ex_server) = Some ((c, m), evs, cli', header', srv')"
    using HandleShare_defined [OF ex_client_ok ex_share_lengths] by (metis not_None_eq prod_cases4 surj_pair)
  then have "c = OK" using share_outcome [OF h] ex_answer by metis
  then show ?thesis using h by blast
qed

text \<open>C2: as long as a client's set of seen shares is not reset, whatever it submits, for whatever jobs and at
  whatever times, no two of its accepted shares have the same first four hash bytes, and none of them repeats a share seen
  before: in particular no block header is credited twice.\<close>

theorem no_double_credit:
  assumes "run_shares F (zec_protocol F hash) submit (zec_prefix hash) shares (cli, header, srv) = Some ps"
  shows "distinct ps \<and> set ps \<inter> share_uset cli = {}"
  by (rule zec.run_shares_distinct [OF assms])

theorem no_double_credit_witness:
  "\<exists>ps. run_shares rat_ops (zec_protocol rat_ops id) (\<lambda>i. True) (zec_prefix id) [(10000, 10000, ex_share)] (ex_client, replicate BLOCK_HEADER_SIZE 0, ex_server) = Some ps \<and>
    distinct ps"
proof -
  have "\<exists>ps. run_shares rat_ops (zec_protocol rat_ops id) (\<lambda>i. True) (zec_prefix id) [(10000, 10000, ex_share)] (ex_client, replicate BLOCK_HEADER_SIZE 0, ex_server) = Some ps"
    using HandleShare_defined [OF ex_client_ok ex_share_lengths] by (fastforce split: option.splits)
  then show ?thesis using no_double_credit by blast
qed

section \<open>Submissions that are defined\<close>

lemma ParseShareParams_lengths:
  assumes "ParseShareParams fs params = Inr vs"
  shows "length vs = length fs \<and>
    (\<forall>i < length fs. i < length params \<longrightarrow> snd (fs ! i) \<noteq> 0 \<longrightarrow> length (vs ! i) = snd (fs ! i))"
  using assms
proof (induction fs params arbitrary: vs rule: ParseShareParams.induct)
  case (4 name sz fs v params)
  then obtain ws where ws: "ParseShareParams fs params = Inr ws" "vs = v # ws" "length v = sz \<or> sz = 0"
    by (cases "ParseShareParams fs params") (auto split: if_splits)
  show ?case
  proof (intro conjI allI impI)
    show "length vs = length ((name, sz) # fs)" using 4(1) ws by (auto split: if_splits)
    fix i assume "i < length ((name, sz) # fs)" "i < length (Some v # params)" "snd (((name, sz) # fs) ! i) \<noteq> 0"
    then show "length (vs ! i) = snd (((name, sz) # fs) ! i)" using 4(1) ws by (cases i) auto
  qed
qed auto

lemma HandleSubmit_defined:
  assumes "client_ok cli srv" and "5 \<le> length params"
  shows "HandleSubmit F hash submit t now junk params (cli, header, srv) \<noteq> None"
proof (cases "ParseShareParams zec_fields params")
  case (Inr vs)
  have "length (vs ! 3) = 28 * 2" "length (vs ! 4) = (3 + 1344) * 2"
    using ParseShareParams_lengths [OF Inr, THEN conjunct2, rule_format, of 3]
      ParseShareParams_lengths [OF Inr, THEN conjunct2, rule_format, of 4] assms(2)
    by (simp_all add: zec_fields_def)
  then show ?thesis unfolding HandleSubmit_def Inr by (simp add: HandleShare_defined [OF assms(1)])
qed (simp add: HandleSubmit_def)

text \<open>C18: a submission with all five parameters, whatever they contain, is answered without undefined behaviour. One that
  stops after the time is not refused: for an authorized worker, a current job and a valid time the missing nonce and solution
  are read past the end of an empty string view.\<close>

theorem submit_params:
  assumes "client_ok cli srv"
  shows "(5 \<le> length params \<longrightarrow> HandleSubmit F hash submit t now junk params (cli, header, srv) \<noteq> None) \<and>
    (length j = 8 \<and> length tm = 8 \<and> GetAuthorizedId cli w = Some fid \<and> GetJob (srv_jobs srv) j = Some job \<and>
      min_time (job_data job) \<le> bswap_32 (from_chars_hex tm junk) \<and> uint (bswap_32 (from_chars_hex tm junk)) \<le> max_time t \<longrightarrow>
      HandleSubmit F hash submit t now junk [Some w, Some j, Some tm] (cli, header, srv) = None)"
  using HandleSubmit_defined [OF assms]
  by (auto simp: HandleSubmit_def zec_fields_def HandleShare_def zec_protocol_def Process_eq share_time_ok_def GetHeaderData_def)

theorem submit_params_witness:
  "HandleSubmit rat_ops id (\<lambda>i. True) 10000 10000 0 [Some [65], None, None, None, None] (ex_client, [], ex_server) \<noteq> None \<and>
   HandleSubmit rat_ops id (\<lambda>i. True) 10000 10000 0 [Some [65], Some (replicate 8 49), Some [48, 53, 48, 48, 48, 48, 48, 48]]
     (ex_client, [], ex_server) = None"
proof -
  have time: "bswap_32 (from_chars_hex [48, 53, 48, 48, 48, 48, 48, 48] 0) = 5" by code_simp
  let ?job = "\<lparr>job_id = replicate 8 49, job_clean = True, job_height = 9, job_key = [], job_data = ex_data\<rparr> :: (u8 list, rat zec_data) job"
  have "GetAuthorizedId ex_client [65] = Some \<lparr>miner_id = 3, worker_id = 4\<rparr>"
    by (simp add: ex_client_def AuthorizeWorker_def StratumClient_new_def GetAuthorizedId_def)
  moreover have "GetJob (srv_jobs ex_server) (replicate 8 49) = Some ?job" by (simp add: ex_server_def GetJob_def)
  moreover have "min_time (job_data ?job) \<le> (5 :: u32)" "uint (5 :: u32) \<le> max_time 10000"
    by (simp_all add: ex_data_def max_time_def)
  ultimately show ?thesis
    using submit_params [OF ex_client_ok, of "[Some [65], None, None, None, None]" rat_ops id "\<lambda>i. True" 10000 10000 0 "[]"
        "replicate 8 49" "[48, 53, 48, 48, 48, 48, 48, 48]" "[65]" "\<lparr>miner_id = 3, worker_id = 4\<rparr>" ?job] time
    by simp
qed

text \<open>
  A block that is found is not submitted: the length of what is sent comes from \<open>block_size\<close>, which is zero for every VRSC
  job, so the daemon is given an empty string up to five times.
\<close>

lemma TrySubmit_hex: "Submit_block h b \<in> set (TrySubmit submit hex) \<Longrightarrow> h = hex"
proof -
  have "Submit_block h b \<in> set (TrySubmit_loop submit hex i n) \<Longrightarrow> h = hex" for i n
    by (induction n arbitrary: i) (auto split: if_splits)
  then show "Submit_block h b \<in> set (TrySubmit submit hex) \<Longrightarrow> h = hex" by (simp add: TrySubmit_def)
qed

theorem vrsc_block_lost:
  assumes "HandleBlock F (zec_protocol F hash) submit fid cli header job share res t srv = Some (evs, srv')" and "block_size (job_data job) = 0"
    and "Submit_block hex added \<in> set evs"
  shows "hex = []"
  using assms by (auto simp: HandleBlock_def Let_def case_prod_beta AddImmatureBlock_def split: option.splits dest!: TrySubmit_hex)

end
