(* ===== verification/Difficulty_Hex.thy ===== *)
theory Difficulty_Hex
  imports Zec_Job
begin

text \<open>
  The target a miner is sent: \<open>DoubleToBin256\<close> of \<^verbatim>\<open>src/src/utils/hex_utils.hpp\<close> and \<open>GetDifficultyHex\<close> of
  \<^verbatim>\<open>src/src/crypto/utils.hpp\<close>. The loop has no bound of its own on the index it writes: a write outside the array is \<open>None\<close>,
  which also ends the recursion, so the definition is total for every meaning of floating point arithmetic.
\<close>

function DoubleToBin256_loop :: "'f float_ops \<Rightarrow> 'f \<Rightarrow> nat \<Rightarrow> u8 list \<Rightarrow> u8 list option" where
  "DoubleToBin256_loop F d i res =
    (if \<not> f_le F (f_lit F 1) d then Some res
     else if 32 \<le> i then None
     else let remain = f_fmod F d (f_lit F 256)
          in DoubleToBin256_loop F (f_div F d (f_lit F 256)) (i + 1) (res[32 - i - 1 := f_to_u8 F remain]))"
  by pat_completeness auto
termination
  by (relation "measure (\<lambda>(F, d, i, res). 32 - i)") auto

declare DoubleToBin256_loop.simps [simp del]

definition DoubleToBin256 :: "'f float_ops \<Rightarrow> 'f \<Rightarrow> u8 list option" where
  "DoubleToBin256 F d = DoubleToBin256_loop F d 0 (replicate 32 0)"

definition GetDifficultyHex :: "'f float_ops \<Rightarrow> 'f \<Rightarrow> 'f \<Rightarrow> u8 list option" where
  "GetDifficultyHex F DIFF1 diff =
    (let raw_diff = f_mul F DIFF1 (f_div F (f_lit F 1) diff)
     in map_option HexlifyS (DoubleToBin256 F raw_diff))"

section \<open>The loop in exact arithmetic\<close>

text \<open>Byte \<open>k\<close> from the left of the 32 byte big endian form of a number.\<close>

definition be_byte :: "int \<Rightarrow> nat \<Rightarrow> u8" where
  "be_byte n k = of_int (n div 256 ^ (31 - k))"

lemma floor_div_256: "\<lfloor>d / 256\<rfloor> = \<lfloor>d\<rfloor> div 256" for d :: rat
proof (rule floor_unique)
  let ?q = "\<lfloor>d\<rfloor> div 256"
  have "256 * ?q \<le> \<lfloor>d\<rfloor>" "\<lfloor>d\<rfloor> + 1 \<le> 256 * ?q + 256" by linarith+
  then have "of_int (256 * ?q) \<le> d" "d < of_int (256 * ?q + 256)" by linarith+
  then show "of_int ?q \<le> d / 256" "d / 256 < of_int ?q + 1" by simp_all
qed

lemma fmod_byte: "0 \<le> d \<Longrightarrow> f_to_u8 rat_ops (f_fmod rat_ops d 256) = of_int \<lfloor>d\<rfloor>"
proof -
  assume d: "0 \<le> d"
  have "\<lfloor>d - 256 * of_int \<lfloor>d / 256\<rfloor>\<rfloor> = \<lfloor>d\<rfloor> - 256 * \<lfloor>d / 256\<rfloor>"
    using floor_diff_of_int [of d "256 * \<lfloor>d / 256\<rfloor>"] by simp
  then have "\<lfloor>d - 256 * of_int \<lfloor>d / 256\<rfloor>\<rfloor> = \<lfloor>d\<rfloor> mod 256" by (simp add: floor_div_256 minus_mult_div_eq_mod)
  then show ?thesis
    using d by (simp add: rat_ops_def word_of_int_eq_iff take_bit_eq_mod)
qed

text \<open>
  After \<open>i\<close> turns \<open>n div 256 ^ i\<close> is left, the last \<open>i\<close> bytes are in place and the others are zero.
\<close>

lemma loop_bytes:
  assumes "0 \<le> d" and "\<lfloor>d\<rfloor> = n div 256 ^ i" and "length res = 32" and "i \<le> 32" and "\<lfloor>d\<rfloor> < 256 ^ (32 - i)"
    and "\<forall>k < 32. res ! k = (if 32 - i \<le> k then be_byte n k else 0)"
  shows "\<exists>bs. DoubleToBin256_loop rat_ops d i res = Some bs \<and> length bs = 32 \<and> (\<forall>k < 32. bs ! k = be_byte n k)"
  using assms
proof (induction "32 - i" arbitrary: d i res)
  case 0
  then have "\<lfloor>d\<rfloor> < 1" "i = 32" by simp_all
  then have "\<not> 1 \<le> d" by linarith
  then show ?case using 0 \<open>i = 32\<close> by (subst DoubleToBin256_loop.simps) simp
next
  case (Suc m)
  then have i: "i < 32" by simp
  have shift: "n div 256 ^ (i + j) = \<lfloor>d\<rfloor> div 256 ^ j" for j
    using Suc.prems(2) by (simp add: power_add zdiv_zmult2_eq)
  show ?case
  proof (cases "1 \<le> d")
    case True
    let ?res = "res[32 - i - 1 := f_to_u8 rat_ops (f_fmod rat_ops d 256)]"
    have "\<lfloor>d / 256\<rfloor> = n div 256 ^ (i + 1)" using shift [of 1] by (simp add: floor_div_256)
    moreover have "\<lfloor>d / 256\<rfloor> < 256 ^ (32 - (i + 1))"
      using Suc.prems(5) i by (simp add: floor_div_256 Suc_diff_Suc [symmetric] div_less_iff_less_mult mult.commute)
    moreover have "?res ! k = (if 32 - (i + 1) \<le> k then be_byte n k else 0)" if "k < 32" for k
      using that i Suc.prems(2,3,6) fmod_byte [OF Suc.prems(1)] by (auto simp: nth_list_update be_byte_def)
    ultimately have "\<exists>bs. DoubleToBin256_loop rat_ops (d / 256) (i + 1) ?res = Some bs \<and> length bs = 32 \<and> (\<forall>k < 32. bs ! k = be_byte n k)"
      using Suc.hyps(1) [of "i + 1" "d / 256" ?res] Suc.hyps(2) Suc.prems(1,3) i by simp
    then show ?thesis using True i by (subst DoubleToBin256_loop.simps) simp
  next
    case False
    then have "\<lfloor>d\<rfloor> = 0" using Suc.prems(1) by linarith
    then have "be_byte n k = 0" if "k < 32 - i" for k
      using shift [of "31 - k - i"] that by (simp add: be_byte_def)
    then show ?thesis using False Suc.prems(3,6) by (subst DoubleToBin256_loop.simps) simp
  qed
qed

lemma loop_overflow:
  assumes "256 ^ (32 - i) \<le> d" and "i \<le> 32"
  shows "DoubleToBin256_loop rat_ops d i res = None"
  using assms
proof (induction "32 - i" arbitrary: d i res)
  case 0
  then show ?case by (subst DoubleToBin256_loop.simps) simp
next
  case (Suc m)
  have "(1 :: rat) \<le> 256 ^ (32 - i)" by (rule one_le_power) simp
  then have d: "1 \<le> d" using Suc.prems(1) by linarith
  have "256 ^ (32 - (i + 1)) \<le> d / 256"
    using Suc.prems Suc.hyps(2) by (simp add: Suc_diff_Suc [symmetric] pos_le_divide_eq mult.commute)
  then show ?case using Suc.hyps(1) [of "i + 1" "d / 256"] Suc.hyps(2) d by (subst DoubleToBin256_loop.simps) simp
qed

lemma be_bytes_value:
  assumes "0 \<le> n" and "n < 256 ^ 32" and "j \<le> 32"
  shows "BytesToDouble rat_ops (map (be_byte n) [0..<j]) = of_int (n div 256 ^ (32 - j))"
  using assms(3)
proof (induction j)
  case 0
  then show ?case using assms(1,2) by (simp add: BytesToDouble_def)
next
  case (Suc j)
  let ?q = "n div 256 ^ (31 - j)"
  have "uint (ucast (be_byte n j) :: u64) = ?q mod 256"
    by (simp add: be_byte_def uint_word_of_int unsigned_ucast_eq take_bit_eq_mod)
  then have b: "f_of_u64 rat_ops (ucast (be_byte n j)) = of_int (?q mod 256)"
    by (simp only: rat_ops_def float_ops.select_convs)
  have "32 - j = Suc (31 - j)" using Suc.prems by simp
  then have "n div 256 ^ (32 - j) = ?q div 256" by (simp only: power_Suc2) (simp add: zdiv_zmult2_eq)
  then have "of_int (n div 256 ^ (32 - j)) * 256 + of_int (?q mod 256) = (of_int ?q :: rat)"
    by (metis div_mult_mod_eq of_int_add of_int_mult of_int_numeral)
  then show ?case using Suc b by (simp add: BytesToDouble_def)
qed

lemma difficulty_hex_cases:
  assumes "0 \<le> D" and "0 < diff"
  shows "if 2 ^ 256 \<le> D / diff then GetDifficultyHex rat_ops D diff = None
    else \<exists>bs. GetDifficultyHex rat_ops D diff = Some (HexlifyS bs) \<and> length bs = 32 \<and> BytesToDouble rat_ops bs = of_int \<lfloor>D / diff\<rfloor>"
proof (cases "2 ^ 256 \<le> D / diff")
  case True
  then have "256 ^ (32 - 0) \<le> D / diff" by simp
  then have "DoubleToBin256_loop rat_ops (D / diff) 0 (replicate 32 0) = None" using loop_overflow [of 0] by blast
  then show ?thesis using True by (simp add: GetDifficultyHex_def DoubleToBin256_def)
next
  case False
  let ?d = "D / diff"
  have pos: "0 \<le> ?d" using assms by simp
  have small: "\<lfloor>?d\<rfloor> < 256 ^ 32" using False by (simp add: floor_less_iff)
  then obtain bs where bs: "DoubleToBin256 rat_ops ?d = Some bs" "length bs = 32" "\<forall>k < 32. bs ! k = be_byte \<lfloor>?d\<rfloor> k"
    using loop_bytes [OF pos, of "\<lfloor>?d\<rfloor>" 0 "replicate 32 0"] by (auto simp: DoubleToBin256_def)
  have "bs = map (be_byte \<lfloor>?d\<rfloor>) [0..<32]" by (rule nth_equalityI) (use bs in simp_all)
  then have "BytesToDouble rat_ops bs = of_int \<lfloor>?d\<rfloor>" using be_bytes_value [of "\<lfloor>?d\<rfloor>" 32] pos small by simp
  then show ?thesis using bs False by (auto simp: GetDifficultyHex_def)
qed

lemma difficulty_hex_defined: "0 \<le> D \<Longrightarrow> 0 < diff \<Longrightarrow> D / diff < 2 ^ 256 \<Longrightarrow> GetDifficultyHex rat_ops D diff \<noteq> None"
  using difficulty_hex_cases [of D diff] by (auto split: if_splits)

text \<open>C20: in exact arithmetic the conversion of a target ends inside its 32 byte array exactly for targets below
  \<open>2 ^ 256\<close>; the bytes then are the big endian form of the target rounded down, as \<open>BytesToDouble\<close> reads it back. A larger
  target, which is what a difficulty below that of the first target gives, writes in front of the array.\<close>

theorem difficulty_target:
  assumes "0 \<le> D" and "0 < diff"
  shows "(GetDifficultyHex rat_ops D diff = None \<longleftrightarrow> 2 ^ 256 \<le> D / diff) \<and>
    pred_option (\<lambda>hex. length hex = 64 \<and> BytesToDouble rat_ops (UnhexlifyS hex) = of_int \<lfloor>D / diff\<rfloor>) (GetDifficultyHex rat_ops D diff)"
  using difficulty_hex_cases [OF assms] by (auto simp: UnhexlifyS_HexlifyS split: if_splits)

theorem difficulty_target_witness:
  "\<exists>hex. GetDifficultyHex rat_ops (2 ^ 256 - 1) 2 = Some hex \<and> length hex = 64 \<and> GetDifficultyHex rat_ops (2 ^ 256) 1 = None"
  using difficulty_target [of "2 ^ 256 - 1" 2] difficulty_target [of "2 ^ 256" 1] by (auto simp: pred_option_def)

end
