(* ===== verification/Base58.thy ===== *)
theory Base58
  imports Zec_Job
begin

text \<open>
  Base 58 strings, \<^verbatim>\<open>src/src/crypto/base58.cpp\<close>, which decide whether a miner's address is accepted. The vectors of digits
  are lists, most significant digit first, and the inner loops run over them from the end as the reverse iterators do. A
  failed \<open>assert\<close> is \<open>None\<close>.
\<close>

section \<open>The code\<close>

definition pszBase58 :: "u8 list" where
  "pszBase58 = ascii ''123456789ABCDEFGHJKLMNPQRSTUVWXYZabcdefghijkmnopqrstuvwxyz''"

definition is_space :: "u8 \<Rightarrow> bool" where
  "is_space c \<longleftrightarrow> c = 32 \<or> 9 \<le> c \<and> c \<le> 13"

text \<open>
  One pass over a digit vector, \<open>v * mul + carry\<close> in base \<open>b\<close>: the list is in the order of the reverse iterator. The result
  has the carry that is left.
\<close>

fun mul_add :: "nat \<Rightarrow> nat \<Rightarrow> nat \<Rightarrow> nat list \<Rightarrow> nat list \<times> nat" where
  "mul_add mul b carry [] = ([], carry)"
| "mul_add mul b carry (d # ds) =
    (let carry = carry + mul * d; (ds', out) = mul_add mul b (carry div b) ds in (carry mod b # ds', out))"

definition mul_add_vec :: "nat \<Rightarrow> nat \<Rightarrow> nat \<Rightarrow> nat list \<Rightarrow> nat list option" where
  "mul_add_vec mul b carry v = (let (ds, out) = mul_add mul b carry (rev v) in if out = 0 then Some (rev ds) else None)"

fun convert :: "nat \<Rightarrow> nat \<Rightarrow> nat list \<Rightarrow> nat list \<Rightarrow> nat list option" where
  "convert mul b [] v = Some v"
| "convert mul b (x # xs) v = (case mul_add_vec mul b x v of None \<Rightarrow> None | Some v \<Rightarrow> convert mul b xs v)"

definition EncodeBase58 :: "u8 list \<Rightarrow> u8 list option" where
  "EncodeBase58 bytes =
    (let zeroes = length (takeWhile (\<lambda>b. b = 0) bytes);
         rest = drop zeroes bytes
     in map_option (\<lambda>b58. replicate zeroes 49 @ map (\<lambda>d. pszBase58 ! d) (dropWhile (\<lambda>d. d = 0) b58))
          (convert 256 58 (map unat rest) (replicate (length rest * 138 div 100 + 1) 0)))"

text \<open>\<open>strchr(pszBase58, c) - pszBase58\<close>\<close>

fun strchr_index :: "u8 list \<Rightarrow> u8 \<Rightarrow> nat option" where
  "strchr_index [] c = None"
| "strchr_index (x # xs) c = (if x = c then Some 0 else map_option Suc (strchr_index xs c))"

text \<open>
  The loop over the characters: \<open>Inl\<close> is the early \<open>return false\<close>, \<open>Inr\<close> the vector and the rest of the string.
\<close>

fun decode_loop :: "u8 list \<Rightarrow> nat list \<Rightarrow> (unit + nat list \<times> u8 list) option" where
  "decode_loop [] v = Some (Inr (v, []))"
| "decode_loop (c # cs) v =
    (if is_space c then Some (Inr (v, c # cs))
     else case strchr_index pszBase58 c of None \<Rightarrow> Some (Inl ())
       | Some carry \<Rightarrow> (case mul_add_vec 58 256 carry v of None \<Rightarrow> None | Some v \<Rightarrow> decode_loop cs v))"

text \<open>The bytes of a string that decodes; the inner \<open>None\<close> is the result \<open>false\<close>.\<close>

definition DecodeBase58 :: "u8 list \<Rightarrow> u8 list option option" where
  "DecodeBase58 str =
    (let psz = dropWhile is_space (takeWhile (\<lambda>c. c \<noteq> 0) str);
         zeroes = length (takeWhile (\<lambda>c. c = 49) psz);
         psz = drop zeroes psz
     in case decode_loop psz (replicate (length psz * 733 div 1000 + 1) 0) of
          None \<Rightarrow> None
        | Some (Inl _) \<Rightarrow> Some None
        | Some (Inr (b256, psz)) \<Rightarrow>
            if dropWhile is_space psz \<noteq> [] then Some None
            else Some (Some (replicate zeroes 0 @ map of_nat (dropWhile (\<lambda>d. d = 0) b256))))"

section \<open>Digits and values\<close>

definition val :: "nat \<Rightarrow> nat list \<Rightarrow> nat" where
  "val b ds = foldl (\<lambda>v d. v * b + d) 0 ds"

lemma val_snoc [simp]: "val b (ds @ [d]) = val b ds * b + d" "val b [] = 0"
  by (simp_all add: val_def)

lemma val_append: "val b (xs @ ys) = val b xs * b ^ length ys + val b ys"
  by (induction ys rule: rev_induct) (simp_all add: algebra_simps flip: append_assoc)

lemma val_less: "list_all (\<lambda>d. d < b) ds \<Longrightarrow> val b ds < b ^ length ds"
proof (induction ds rule: rev_induct)
  case (snoc d ds)
  then have "val b ds + 1 \<le> b ^ length ds" "d < b" by simp_all
  then have "(val b ds + 1) * b \<le> b ^ length ds * b" by (rule_tac mult_right_mono) simp_all
  then show ?case using \<open>d < b\<close> by (simp add: algebra_simps)
qed simp

lemma val_zeros [simp]: "val b (replicate n 0) = 0"
  by (induction n) (simp_all add: replicate_append_same [symmetric])

lemma takeWhile_replicate: "takeWhile (\<lambda>d. d = a) ds = replicate (length (takeWhile (\<lambda>d. d = a) ds)) a"
  by (induction ds) auto

lemma val_dropWhile: "val b (dropWhile (\<lambda>d. d = 0) ds) = val b ds"
proof -
  have "takeWhile (\<lambda>d. d = 0) ds = replicate (length (takeWhile (\<lambda>d. d = 0) ds)) 0" by (rule takeWhile_replicate)
  then have "val b (takeWhile (\<lambda>d. d = 0) ds) = 0" by (metis val_zeros)
  then show ?thesis using val_append [of b "takeWhile (\<lambda>d. d = 0) ds" "dropWhile (\<lambda>d. d = 0) ds"] by simp
qed

lemma mul_add_val:
  assumes "mul_add m b c ds = (ds', out)" and "0 < b"
  shows "val b (rev ds') + b ^ length ds * out = c + m * val b (rev ds) \<and> length ds' = length ds \<and> list_all (\<lambda>d. d < b) ds'"
  using assms(1)
proof (induction ds arbitrary: c ds' out)
  case (Cons d ds)
  obtain es o1 where r: "mul_add m b ((c + m * d) div b) ds = (es, o1)" by fastforce
  then have d: "ds' = (c + m * d) mod b # es" "out = o1" using Cons.prems by simp_all
  define q where "q = (c + m * d) div b"
  define rm where "rm = (c + m * d) mod b"
  have x: "c + m * d = q * b + rm" by (simp add: q_def rm_def)
  have ih: "val b (rev es) + b ^ length ds * o1 = q + m * val b (rev ds)" using Cons.IH [OF r] by (simp add: q_def)
  have "val b (rev ds') + b ^ length (d # ds) * out = (val b (rev es) + b ^ length ds * o1) * b + rm"
    by (simp add: d rm_def algebra_simps)
  also have "\<dots> = c + m * val b (rev (d # ds))" unfolding ih using x by (simp add: algebra_simps)
  finally show ?case using Cons.IH [OF r] d assms(2) by simp
qed simp

definition digits :: "nat \<Rightarrow> nat list \<Rightarrow> bool" where
  "digits b ds \<longleftrightarrow> list_all (\<lambda>d. d < b) ds"

lemma mul_add_vec_val:
  assumes "0 < b" and "c + m * val b v < b ^ length v"
  shows "\<exists>v'. mul_add_vec m b c v = Some v' \<and> val b v' = c + m * val b v \<and> length v' = length v \<and> digits b v'"
proof -
  obtain ds out where r: "mul_add m b c (rev v) = (ds, out)" by fastforce
  note t = mul_add_val [OF r assms(1)]
  have "out = 0" using t assms by (cases out) auto
  then show ?thesis using t r by (auto simp: mul_add_vec_def digits_def list_all_iff)
qed

lemma convert_val:
  assumes "0 < b" and "digits m xs" and "val b v * m ^ length xs + val m xs < b ^ length v" and "digits b v"
  shows "\<exists>v'. convert m b xs v = Some v' \<and> val b v' = val b v * m ^ length xs + val m xs \<and> length v' = length v \<and> digits b v'"
  using assms(2-4)
proof (induction xs arbitrary: v)
  case (Cons x xs)
  have "val m (x # xs) = x * m ^ length xs + val m xs" using val_append [of m "[x]" xs] by (simp add: val_def)
  then have tot: "val b v * m ^ length (x # xs) + val m (x # xs) = (x + m * val b v) * m ^ length xs + val m xs"
    by (simp add: algebra_simps)
  have m: "0 < m" using Cons.prems(1) by (auto simp: digits_def)
  have "x + m * val b v \<le> (x + m * val b v) * m ^ length xs + val m xs" using m by (simp add: trans_le_add1)
  then have "x + m * val b v < b ^ length v" using Cons.prems(2) tot by linarith
  then obtain v1 where v1: "mul_add_vec m b x v = Some v1" "val b v1 = x + m * val b v" "length v1 = length v" "digits b v1"
    using mul_add_vec_val [OF assms(1)] by blast
  have "digits m xs" using Cons.prems(1) by (simp add: digits_def)
  then show ?case using Cons.IH [of v1] v1 tot Cons.prems(2) by simp
qed simp

lemma convert_zeros:
  assumes "0 < b" and "digits m xs" and "val m xs < b ^ n"
  shows "\<exists>v. convert m b xs (replicate n 0) = Some v \<and> val b v = val m xs \<and> digits b v"
  using convert_val [of b m xs "replicate n 0"] assms by (auto simp: digits_def list_all_iff)

definition canonical :: "nat list \<Rightarrow> bool" where
  "canonical ds \<longleftrightarrow> (ds \<noteq> [] \<longrightarrow> hd ds \<noteq> 0)"

lemma canonical_dropWhile: "canonical (dropWhile (\<lambda>d. d = 0) ds)"
  using hd_dropWhile [of "\<lambda>d. d = 0" ds] by (auto simp: canonical_def)

lemma canonical_pos:
  assumes "canonical ds" and "ds \<noteq> []" and "1 < b"
  shows "0 < val b ds"
proof -
  obtain d es where ds: "ds = d # es" using assms(2) by (cases ds) auto
  have "val b ds = d * b ^ length es + val b es" using val_append [of b "[d]" es] ds by (simp add: val_def)
  then show ?thesis using assms ds by (simp add: canonical_def)
qed

lemma canonical_unique:
  assumes "1 < b" and "digits b xs" "digits b ys" and "canonical xs" "canonical ys" and "val b xs = val b ys"
  shows "xs = ys"
  using assms(2-6)
proof (induction xs arbitrary: ys rule: rev_induct)
  case Nil
  then show ?case using canonical_pos [of ys b] assms(1) by auto
next
  case (snoc x xs)
  have "ys \<noteq> []" using canonical_pos [of "xs @ [x]" b] snoc.prems assms(1) by auto
  then obtain ys' y where ys: "ys = ys' @ [y]" by (metis rev_exhaust)
  have lt: "x < b" "y < b" using snoc.prems ys by (simp_all add: digits_def)
  have eq: "val b xs * b + x = val b ys' * b + y" using snoc.prems(5) ys by simp
  then have "(val b xs * b + x) mod b = (val b ys' * b + y) mod b" "(val b xs * b + x) div b = (val b ys' * b + y) div b" by simp_all
  then have "x = y" "val b xs = val b ys'" using lt assms(1) by simp_all
  moreover have "canonical xs" "canonical ys'" using snoc.prems(3,4) ys by (auto simp: canonical_def hd_append split: if_splits)
  ultimately show ?case using snoc.IH [of ys'] snoc.prems(1,2) ys by (simp add: digits_def)
qed

section \<open>The buffers are large enough\<close>

lemma upt_8: "[0..<8] = [0, 1, 2, 3, 4, 5, 6, 7]"
  by code_simp

lemma upt_71: "[0..<71] = [0, 1, 2, 3, 4, 5, 6, 7, 8, 9, 10, 11, 12, 13, 14, 15, 16, 17, 18, 19, 20, 21, 22, 23, 24, 25, 26, 27, 28, 29, 30, 31, 32, 33, 34, 35, 36, 37, 38, 39, 40, 41, 42, 43, 44, 45, 46, 47, 48, 49, 50, 51, 52, 53, 54, 55, 56, 57, 58, 59, 60, 61, 62, 63, 64, 65, 66, 67, 68, 69, 70]"
  by code_simp

lemma encode_capacity: "(256 :: nat) ^ n \<le> 58 ^ (n * 138 div 100 + 1)"
proof -
  define q r where "q = n div 8" and "r = n mod 8"
  have n: "n = 8 * q + r" and r: "r < 8" by (simp_all add: q_def r_def)
  have "\<forall>r \<in> set [0..<8]. (256 :: nat) ^ r \<le> 58 ^ (r * 138 div 100 + 1)" unfolding upt_8 by simp
  then have "(256 :: nat) ^ r \<le> 58 ^ (r * 138 div 100 + 1)" using r by simp
  moreover have "(256 :: nat) ^ 8 \<le> 58 ^ 11" by simp
  then have "((256 :: nat) ^ 8) ^ q \<le> (58 ^ 11) ^ q" by (rule power_mono) simp
  ultimately have "((256 :: nat) ^ 8) ^ q * 256 ^ r \<le> (58 ^ 11) ^ q * 58 ^ (r * 138 div 100 + 1)" by (rule_tac mult_mono) simp_all
  then have "(256 :: nat) ^ n \<le> 58 ^ (11 * q + (r * 138 div 100 + 1))"
    by (simp only: n power_add power_mult)
  also have "(r * 138 + 11 * q * 100) div 100 \<le> n * 138 div 100" unfolding n by (rule div_le_mono) simp
  then have "11 * q + (r * 138 div 100 + 1) \<le> n * 138 div 100 + 1" by simp
  then have "(58 :: nat) ^ (11 * q + (r * 138 div 100 + 1)) \<le> 58 ^ (n * 138 div 100 + 1)" by (rule power_increasing) simp
  finally show ?thesis .
qed

lemma decode_capacity: "(58 :: nat) ^ n \<le> 256 ^ (n * 733 div 1000 + 1)"
proof -
  define q r where "q = n div 71" and "r = n mod 71"
  have n: "n = 71 * q + r" and r: "r < 71" by (simp_all add: q_def r_def)
  have "\<forall>r \<in> set [0..<71]. (58 :: nat) ^ r \<le> 256 ^ (r * 733 div 1000 + 1)" unfolding upt_71 by simp
  then have "(58 :: nat) ^ r \<le> 256 ^ (r * 733 div 1000 + 1)" using r by simp
  moreover have "(58 :: nat) ^ 71 \<le> 256 ^ 52" by simp
  then have "((58 :: nat) ^ 71) ^ q \<le> (256 ^ 52) ^ q" by (rule power_mono) simp
  ultimately have "((58 :: nat) ^ 71) ^ q * 58 ^ r \<le> (256 ^ 52) ^ q * 256 ^ (r * 733 div 1000 + 1)" by (rule_tac mult_mono) simp_all
  then have "(58 :: nat) ^ n \<le> 256 ^ (52 * q + (r * 733 div 1000 + 1))"
    by (simp only: n power_add power_mult)
  also have "(r * 733 + 52 * q * 1000) div 1000 \<le> n * 733 div 1000" unfolding n by (rule div_le_mono) simp
  then have "52 * q + (r * 733 div 1000 + 1) \<le> n * 733 div 1000 + 1" by simp
  then have "(256 :: nat) ^ (52 * q + (r * 733 div 1000 + 1)) \<le> 256 ^ (n * 733 div 1000 + 1)" by (rule power_increasing) simp
  finally show ?thesis .
qed

section \<open>Round trip\<close>

lemma pszBase58_codes:
  "pszBase58 =
    [49, 50, 51, 52, 53, 54, 55, 56, 57, 65, 66, 67, 68, 69, 70, 71, 72, 74, 75, 76,
     77, 78, 80, 81, 82, 83, 84, 85, 86, 87, 88, 89, 90, 97, 98, 99, 100, 101, 102, 103,
     104, 105, 106, 107, 109, 110, 111, 112, 113, 114, 115, 116, 117, 118, 119, 120, 121, 122]"
  by (simp add: pszBase58_def ascii_def)

lemma alphabet_distinct: "distinct pszBase58" "length pszBase58 = 58" "pszBase58 ! 0 = 49"
  by (simp_all add: pszBase58_codes)

lemma alphabet_plain: "list_all (\<lambda>c. \<not> is_space c \<and> c \<noteq> 0) pszBase58"
  unfolding pszBase58_codes is_space_def by simp

lemma strchr_index_nth: "distinct xs \<Longrightarrow> d < length xs \<Longrightarrow> strchr_index xs (xs ! d) = Some d"
  by (induction xs arbitrary: d) (auto simp: nth_Cons split: nat.splits)

lemma alphabet:
  assumes "d < 58"
  shows "strchr_index pszBase58 (pszBase58 ! d) = Some d" "\<not> is_space (pszBase58 ! d)" "pszBase58 ! d \<noteq> 0" "pszBase58 ! d = 49 \<longleftrightarrow> d = 0"
proof -
  have d: "d < length pszBase58" using assms alphabet_distinct(2) by simp
  show "strchr_index pszBase58 (pszBase58 ! d) = Some d" using strchr_index_nth alphabet_distinct(1) d by blast
  show "\<not> is_space (pszBase58 ! d)" "pszBase58 ! d \<noteq> 0" using alphabet_plain d by (simp_all add: list_all_length)
  show "pszBase58 ! d = 49 \<longleftrightarrow> d = 0"
    using nth_eq_iff_index_eq [OF alphabet_distinct(1) d, of 0] alphabet_distinct(2,3) by simp
qed

lemma strchr_index_bound: "strchr_index xs c = Some i \<Longrightarrow> i < length xs"
  by (induction xs arbitrary: i) (auto split: if_splits)

lemma decode_loop_digits:
  "digits 58 ds \<Longrightarrow> decode_loop (map ((!) pszBase58) ds) v = map_option (\<lambda>v. Inr (v, [])) (convert 58 256 ds v)"
  by (induction ds arbitrary: v) (auto simp: digits_def alphabet split: option.splits)

lemma decode_loop_defined:
  assumes "(val 256 v + 1) * 58 ^ length cs \<le> 256 ^ length v"
  shows "decode_loop cs v \<noteq> None"
  using assms
proof (induction cs arbitrary: v)
  case (Cons c cs)
  show ?case
  proof (cases "is_space c \<or> strchr_index pszBase58 c = None")
    case False
    then obtain i where i: "strchr_index pszBase58 c = Some i" by blast
    then have "i < 58" using strchr_index_bound by (fastforce simp: pszBase58_def ascii_def)
    then have "i + 58 * val 256 v + 1 \<le> (val 256 v + 1) * 58" by simp
    then have "(i + 58 * val 256 v + 1) * 58 ^ length cs \<le> (val 256 v + 1) * 58 * 58 ^ length cs" by (rule mult_right_mono) simp
    also have "\<dots> \<le> 256 ^ length v" using Cons.prems by (simp only: length_Cons power_Suc mult.assoc)
    finally have le: "(i + 58 * val 256 v + 1) * 58 ^ length cs \<le> 256 ^ length v" .
    have "(1 :: nat) \<le> 58 ^ length cs" by simp
    then have "i + 58 * val 256 v + 1 \<le> (i + 58 * val 256 v + 1) * 58 ^ length cs"
      using mult_le_mono2 [of 1 "58 ^ length cs" "i + 58 * val 256 v + 1"] by simp
    then obtain v1 where v1: "mul_add_vec 58 256 i v = Some v1" "val 256 v1 = i + 58 * val 256 v" "length v1 = length v"
      using mul_add_vec_val [of 256 i 58 v] le by fastforce
    then show ?thesis using Cons.IH [of v1] le False i by simp
  qed auto
qed simp

lemma takeWhile_stop: "list_all P xs \<Longrightarrow> (ys \<noteq> [] \<Longrightarrow> \<not> P (hd ys)) \<Longrightarrow> takeWhile P (xs @ ys) = xs"
  by (induction xs) (cases ys, auto)

lemma DecodeBase58_digits:
  assumes "digits 58 ds" and "canonical ds"
  shows "\<exists>v. DecodeBase58 (replicate z 49 @ map ((!) pszBase58) ds) = Some (Some (replicate z 0 @ map of_nat (dropWhile (\<lambda>d. d = 0) v))) \<and>
    val 256 v = val 58 ds \<and> digits 256 v"
proof -
  let ?s = "replicate z 49 @ map ((!) pszBase58) ds :: u8 list"
  have ds: "\<forall>d \<in> set ds. d < 58" using assms(1) by (simp add: digits_def list_all_iff)
  have one: "\<not> is_space (49 :: u8)" by code_simp
  have str: "takeWhile (\<lambda>c. c \<noteq> 0) ?s = ?s" "dropWhile is_space ?s = ?s"
    using ds alphabet(2,3) one by (auto simp: takeWhile_eq_all_conv dropWhile_eq_self_iff hd_append hd_map)
  have tw: "takeWhile (\<lambda>c. c = 49) ?s = replicate z 49"
  proof (rule takeWhile_stop)
    assume "map ((!) pszBase58) ds \<noteq> []"
    then show "hd (map ((!) pszBase58) ds) \<noteq> 49" using assms(2) ds alphabet(4) by (cases ds) (auto simp: canonical_def)
  qed (simp add: list_all_iff)
  have "val 58 ds < 58 ^ length ds" using val_less [of 58 ds] assms(1) by (simp add: digits_def)
  then have "val 58 ds < 256 ^ (length ds * 733 div 1000 + 1)" using decode_capacity [of "length ds"] by (rule less_le_trans)
  from convert_zeros [OF zero_less_numeral assms(1) this]
  obtain v where v: "convert 58 256 ds (replicate (length ds * 733 div 1000 + 1) 0) = Some v" "val 256 v = val 58 ds" "digits 256 v"
    by blast
  then have "DecodeBase58 ?s = Some (Some (replicate z 0 @ map of_nat (dropWhile (\<lambda>d. d = 0) v)))"
    unfolding DecodeBase58_def str tw Let_def using decode_loop_digits [OF assms(1)] by simp
  then show ?thesis using v by blast
qed

text \<open>C21: every byte string, leading zeros included, has an encoding that decodes to it; the buffers, sized by rational
  approximations of the logarithms, are never too small, so that no assertion fails in encoding any bytes or in decoding any
  string.\<close>

theorem base58_roundtrip:
  "(\<exists>str. EncodeBase58 bytes = Some str \<and> DecodeBase58 str = Some (Some bytes)) \<and> DecodeBase58 t \<noteq> None"
proof
  define z where "z = length (takeWhile (\<lambda>b. b = 0) bytes)"
  define rest where "rest = drop z bytes"
  let ?xs = "map unat rest" and ?w = "replicate (length rest * 138 div 100 + 1) 0"
  have rest: "rest = dropWhile (\<lambda>b. b = 0) bytes" by (simp add: rest_def z_def dropWhile_eq_drop)
  have xs: "digits 256 ?xs" using unsigned_less [where 'a = nat and 'b = 8] by (auto simp: digits_def list_all_iff)
  have can: "canonical ?xs"
    using hd_dropWhile [of "\<lambda>b. b = 0" bytes] unfolding canonical_def rest by (auto simp: hd_map unat_eq_0)
  have "val 256 ?xs < 256 ^ length rest" using val_less [of 256 ?xs] xs by (simp add: digits_def)
  then have "val 256 ?xs < 58 ^ (length rest * 138 div 100 + 1)" using encode_capacity [of "length rest"] by (rule less_le_trans)
  from convert_zeros [OF zero_less_numeral xs this]
  obtain v where v: "convert 256 58 ?xs ?w = Some v" "val 58 v = val 256 ?xs" "digits 58 v" by blast
  let ?ds = "dropWhile (\<lambda>d. d = 0) v"
  have ds: "digits 58 ?ds" "canonical ?ds" "val 58 ?ds = val 256 ?xs"
    using v canonical_dropWhile val_dropWhile by (auto simp: digits_def list_all_iff dest: set_dropWhileD)
  obtain u where u: "DecodeBase58 (replicate z 49 @ map ((!) pszBase58) ?ds) =
      Some (Some (replicate z 0 @ map of_nat (dropWhile (\<lambda>d. d = 0) u)))" "val 256 u = val 256 ?xs" "digits 256 u"
    using DecodeBase58_digits [OF ds(1,2)] ds(3) by metis
  have "dropWhile (\<lambda>d. d = 0) u = ?xs"
    using canonical_unique [of 256 "dropWhile (\<lambda>d. d = 0) u" ?xs] u(2,3) xs can canonical_dropWhile val_dropWhile
    by (auto simp: digits_def list_all_iff dest: set_dropWhileD)
  then have "replicate z 0 @ map of_nat (dropWhile (\<lambda>d. d = 0) u) = bytes"
    using takeWhile_replicate [of 0 bytes] by (simp add: comp_def rest z_def)
  moreover have "EncodeBase58 bytes = Some (replicate z 49 @ map ((!) pszBase58) ?ds)"
    unfolding EncodeBase58_def Let_def z_def [symmetric] rest_def [symmetric] v(1) by simp
  ultimately show "\<exists>str. EncodeBase58 bytes = Some str \<and> DecodeBase58 str = Some (Some bytes)" using u(1) by simp
  have "decode_loop cs (replicate (length cs * 733 div 1000 + 1) 0) \<noteq> None" for cs
  proof (rule decode_loop_defined)
    show "(val 256 (replicate (length cs * 733 div 1000 + 1) 0) + 1) * 58 ^ length cs \<le>
        256 ^ length (replicate (length cs * 733 div 1000 + 1) (0 :: nat))"
      unfolding val_zeros length_replicate using decode_capacity [of "length cs"] by simp
  qed
  then obtain y where y: "(let psz = dropWhile is_space (takeWhile (\<lambda>c. c \<noteq> 0) t); psz = drop (length (takeWhile (\<lambda>c. c = 49) psz)) psz
      in decode_loop psz (replicate (length psz * 733 div 1000 + 1) 0)) = Some y"
    unfolding Let_def by blast
  show "DecodeBase58 t \<noteq> None" unfolding DecodeBase58_def Let_def y [unfolded Let_def] by (cases y) (auto split: prod.splits)
qed

end
