(* ===== verification/Stratum_Server.thy ===== *)
theory Stratum_Server
  imports Share_Handler Difficulty_Hex Base58
begin

text \<open>
  The rest of the server: authorization and the broadcast of a new job, \<open>HandleAuthorize\<close>, \<open>HandleNewJob\<close>,
  \<open>HandleConnected\<close> and \<open>HandleTimeout\<close> of \<^verbatim>\<open>src/src/stratum/stratum_server.cpp\<close> with \<open>AddMiner\<close> and \<open>AddWorker\<close> of
  \<^verbatim>\<open>stats_manager.cpp\<close>, and the dispatch of \<^verbatim>\<open>stratum_server_zec.cpp\<close>. The answers of the daemon and of the databases are a
  record of functions; a request is what the JSON parser makes of it.
\<close>

section \<open>Aliases\<close>

text \<open>The table of \<^verbatim>\<open>daemon_manager_zano.hpp\<close> has the digits, the small letters, the minus sign and the dot.\<close>

definition alias_char :: "u8 \<Rightarrow> bool" where
  "alias_char c \<longleftrightarrow> c = 45 \<or> c = 46 \<or> 48 \<le> c \<and> c \<le> 57 \<or> 97 \<le> c \<and> c \<le> 122"

definition ValidateAliasEncoding :: "coin \<Rightarrow> u8 list \<Rightarrow> bool" where
  "ValidateAliasEncoding c alias =
    (case c of VRSC \<Rightarrow> False | ZANO \<Rightarrow> \<not> 255 < length alias \<and> list_all alias_char alias)"

section \<open>Miners and workers\<close>

text \<open>Identifiers are 64-bit integers; \<open>-1\<close> stands for none.\<close>

record db =
  db_alias_address :: "u8 list \<Rightarrow> u8 list option"
  db_miner_id :: "u8 list \<Rightarrow> u8 list \<Rightarrow> int \<times> u8 list"
  db_add_miner :: "u8 list \<Rightarrow> u8 list \<Rightarrow> int"
  db_update_alias :: "int \<Rightarrow> u8 list \<Rightarrow> bool"
  db_worker_id :: "u32 \<Rightarrow> u8 list \<Rightarrow> int"
  db_add_worker :: "u32 \<Rightarrow> u8 list \<Rightarrow> int"
  db_miner_stats :: "int \<Rightarrow> bool"
  db_worker_stats :: "full_id \<Rightarrow> bool"

text \<open>The identifier the reference parameter has afterwards, if the call succeeds.\<close>

definition AddMiner :: "db \<Rightarrow> int \<Rightarrow> u8 list \<Rightarrow> u8 list \<Rightarrow> int option" where
  "AddMiner DB mid addr alias =
    (let mid = (if mid = -1 then db_add_miner DB addr alias else mid)
     in if mid = -1 then None else if db_miner_stats DB mid then Some mid else None)"

definition AddWorker :: "db \<Rightarrow> int \<Rightarrow> int \<Rightarrow> u8 list \<Rightarrow> int option" where
  "AddWorker DB wid mid wname =
    (let wid = (if wid = -1 then db_add_worker DB (of_int mid) wname else wid)
     in if wid = -1 then None
        else if db_worker_stats DB \<lparr>miner_id = of_int mid, worker_id = of_int wid\<rparr> then Some wid else None)"

section \<open>\<open>HandleAuthorize\<close>\<close>

definition unauthorized :: "string \<Rightarrow> 'f rpc_result" where
  "unauthorized s = (UNAUTHORIZED_WORKER, Text (ascii s))"

text \<open>The address that is checked: an alias stands for the address the daemon has for it. \<open>Inl\<close> is the refusal.\<close>

definition resolve_address :: "coin \<Rightarrow> db \<Rightarrow> u8 list \<Rightarrow> 'f rpc_result + u8 list \<times> u8 list" where
  "resolve_address c DB addr =
    (if take 1 addr = [64]
     then let alias = drop 1 addr
          in if \<not> ValidateAliasEncoding c alias then Inl (unauthorized ''Invalid alias name!'')
             else (case db_alias_address DB alias of Some addr \<Rightarrow> Inr (addr, alias)
                   | None \<Rightarrow> Inl (unauthorized ''Alias does not exist!''))
     else case DecodeBase58 addr of
            Some (Some data) \<Rightarrow> Inr (addr, [])
          | _ \<Rightarrow> Inl (UNAUTHORIZED_WORKER, Text (ascii ''Invalid address '' @ addr @ ascii '' !'')))"

definition HandleAuthorize ::
  "'f float_ops \<Rightarrow> coin \<Rightarrow> db \<Rightarrow> u8 list \<Rightarrow> u8 list \<Rightarrow> 'f client \<times> ('k, 'd, 'f) server \<Rightarrow> 'f rpc_result \<times> 'f client \<times> ('k, 'd, 'f) server" where
  "HandleAuthorize F c DB addr wname = (\<lambda>(cli, srv).
    if 16 < length wname then (unauthorized ''Worker name too long! (max MAX_WORKER_NAME_LEN chars)'', cli, srv)
    else case resolve_address c DB addr of
      Inl err \<Rightarrow> (err, cli, srv)
    | Inr (address, alias) \<Rightarrow>
        (case AddMiner DB (fst (db_miner_id DB address alias)) address alias of
          None \<Rightarrow> (unauthorized ''Failed to add miner to database, please contact support!'', cli, srv)
        | Some mid \<Rightarrow>
            if take 1 addr = [64] \<and> snd (db_miner_id DB address alias) \<noteq> alias \<and> \<not> db_update_alias DB mid alias
            then (unauthorized ''Failed to update miner identity, please contact support!'', cli, srv)
            else
              (case AddWorker DB (db_worker_id DB (of_int mid) wname) mid wname of
                None \<Rightarrow> (unauthorized ''Failed to add worker to database, please contact support!'', cli, srv)
              | Some wid \<Rightarrow>
                  let fid = \<lparr>miner_id = of_int mid, worker_id = of_int wid\<rparr>;
                      (it, wm) = AddExistingWorker F fid (srv_workers srv)
                  in ((OK, Text (ascii ''true'')), AuthorizeWorker fid wname it cli, srv\<lparr>srv_workers := wm\<rparr>))))"

text \<open>The worker name is what follows the first dot.\<close>

definition HandleAuthorize_params ::
  "'f float_ops \<Rightarrow> coin \<Rightarrow> db \<Rightarrow> u8 list option list \<Rightarrow> 'f client \<times> ('k, 'd, 'f) server \<Rightarrow> 'f rpc_result \<times> 'f client \<times> ('k, 'd, 'f) server" where
  "HandleAuthorize_params F c DB params = (\<lambda>(cli, srv).
    case params of
      Some worker_full # _ \<Rightarrow>
        (let sep = length (takeWhile (\<lambda>c. c \<noteq> 46) worker_full)
         in if sep = length worker_full then (unauthorized ''Bad request, bad worker format!'', cli, srv)
            else HandleAuthorize F c DB (take sep worker_full) (drop (sep + 1) worker_full) (cli, srv))
    | _ \<Rightarrow> (unauthorized ''Bad request, no worker name!'', cli, srv))"

section \<open>New jobs\<close>

datatype message_out = Set_target "u8 list" | Notify "u8 list"

text \<open>\<open>UpdateDifficulty\<close> sends the difficulty that is in force, not the pending one.\<close>

definition UpdateDifficulty :: "'f float_ops \<Rightarrow> 'f \<Rightarrow> 'f client \<Rightarrow> message_out list option" where
  "UpdateDifficulty F D cli = map_option (\<lambda>hex. [Set_target hex]) (GetDifficultyHex F D (current_diff cli))"

definition broadcast_client ::
  "'f float_ops \<Rightarrow> 'f \<Rightarrow> (u8 list, 'f zec_data) job \<Rightarrow> 'f client \<Rightarrow> (message_out list \<times> 'f client) option" where
  "broadcast_client F D job cli =
    (if GetHasAuthorized cli
     then (case pending_diff cli of
             None \<Rightarrow> Some ([Notify (notify_msg job)], cli)
           | Some diff \<Rightarrow>
               (case (UpdateDifficulty F D cli, ActivatePendingDiff cli) of
                 (Some msgs, Some cli) \<Rightarrow> Some (msgs @ [Notify (notify_msg job)], cli)
               | _ \<Rightarrow> None))
     else Some ([], cli))"

text \<open>
  The loop that drops clients below the minimal difficulty and records the difficulties. \<open>DisconnectClient\<close> locks the mutex that the
  loop already holds; otherwise the iterator is moved before the difficulty is written, so that it is written to the next
  entry and, after the last client, behind the end of the map.
\<close>

fun kick_loop :: "'f float_ops \<Rightarrow> 'f \<Rightarrow> ('f client \<times> 'f) list \<Rightarrow> ('f client \<times> 'f) list option" where
  "kick_loop F minimum_diff [] = Some []"
| "kick_loop F minimum_diff ((cli, d) # clients) =
    (if f_lt F (current_diff cli) minimum_diff then None
     else case clients of [] \<Rightarrow> None
       | (next_cli, next_d) # rest \<Rightarrow>
           map_option (\<lambda>cs. (cli, d) # cs) (kick_loop F minimum_diff ((next_cli, current_diff cli) # rest)))"

fun broadcast_all ::
  "'f float_ops \<Rightarrow> 'f \<Rightarrow> (u8 list, 'f zec_data) job \<Rightarrow> ('f client \<times> 'f) list \<Rightarrow> (message_out list list \<times> ('f client \<times> 'f) list) option" where
  "broadcast_all F D job [] = Some ([], [])"
| "broadcast_all F D job ((cli, d) # clients) =
    (case broadcast_client F D job cli of None \<Rightarrow> None
     | Some (msgs, cli) \<Rightarrow> map_option (\<lambda>(ms, cs). (msgs # ms, (cli, d) # cs)) (broadcast_all F D job clients))"

text \<open>The messages of each client and the clients afterwards.\<close>

definition HandleNewJob ::
  "'f float_ops \<Rightarrow> 'f \<Rightarrow> 'f \<Rightarrow> (u8 list, 'f zec_data) job \<Rightarrow> ('f client \<times> 'f) list \<Rightarrow> (message_out list list \<times> ('f client \<times> 'f) list) option" where
  "HandleNewJob F D minimum_diff job clients =
    (case broadcast_all F D job clients of None \<Rightarrow> None
     | Some (msgs, clients) \<Rightarrow>
         map_option (\<lambda>clients. (msgs, if job_clean job then map (map_prod ResetShareSet id) clients else clients))
           (kick_loop F minimum_diff clients))"

section \<open>Connections\<close>

text \<open>A fresh client is registered unless there is no job to give it; \<open>False\<close> closes the connection.\<close>

definition HandleConnected ::
  "'f float_ops \<Rightarrow> 'f \<Rightarrow> 'f \<Rightarrow> u32 \<Rightarrow> u64 \<Rightarrow> u64 \<Rightarrow> u32 \<Rightarrow> 'f zec_server \<Rightarrow> ('f client \<times> 'f) list \<Rightarrow> bool \<times> ('f client \<times> 'f) list \<times> u32" where
  "HandleConnected F diff rate interval junk1 junk2 counter srv clients =
    (let (cli, counter) = StratumClient_new F diff rate interval junk1 junk2 counter
     in if GetLastJob (srv_jobs srv) = None then (False, clients, counter) else (True, clients @ [(cli, f_lit F 0)], counter))"

definition HandleTimeout :: "'f float_ops \<Rightarrow> u64 \<Rightarrow> u64 \<Rightarrow> 'f client \<Rightarrow> bool \<times> 'f client" where
  "HandleTimeout F now time cli = (if \<not> GetHasAuthorized cli then (False, cli) else (True, HandleAdjust F now time cli))"

section \<open>Requests\<close>

datatype request = Bad_request int | Request int "u8 list" "u8 list option list"

datatype 'f sent_msg = Reply int "'f rpc_result" | Send message_out

definition HandleSubscribe :: "'f client \<Rightarrow> 'f rpc_result" where
  "HandleSubscribe cli = (OK, Text (ascii ''[null,\"'' @ Hexlify32 (extra_nonce cli) @ ascii ''\"]''))"

text \<open>What is read from outside in handling one request.\<close>

record 'f env =
  env_hash :: "u8 list \<Rightarrow> u8 list"
  env_submit :: "nat \<Rightarrow> bool"
  env_db :: db
  env_time :: u64
  env_now :: u64
  env_junk :: u32

text \<open>\<open>D\<close> is the difficulty-one target of the coin. A null last job is \<open>None\<close>.\<close>

definition HandleReq ::
  "'f float_ops \<Rightarrow> 'f \<Rightarrow> 'f env \<Rightarrow> request \<Rightarrow> 'f client \<times> u8 list \<times> 'f zec_server \<Rightarrow>
    ('f sent_msg list \<times> 'f event list \<times> 'f client \<times> u8 list \<times> 'f zec_server) option" where
  "HandleReq F D E req = (\<lambda>(cli, header, srv).
    case req of
      Bad_request rid \<Rightarrow> Some ([Reply rid (UNKNOWN, Text (ascii ''Bad request''))], [], cli, header, srv)
    | Request rid meth params \<Rightarrow>
        if meth = ascii ''mining.submit''
        then map_option (\<lambda>(res, evs, st). ([Reply rid res], evs, st))
               (HandleSubmit F (env_hash E) (env_submit E) (env_time E) (env_now E) (env_junk E) params (cli, header, srv))
        else if meth = ascii ''mining.subscribe''
        then Some ([Reply rid (HandleSubscribe cli)], [], cli, header, srv)
        else if meth = ascii ''mining.authorize''
        then (case HandleAuthorize_params F VRSC (env_db E) params (cli, srv) of
                (res, cli, srv) \<Rightarrow>
                  if fst res = OK
                  then (case (UpdateDifficulty F D cli, GetLastJob (srv_jobs srv)) of
                          (Some msgs, Some job) \<Rightarrow> Some (Reply rid res # map Send (msgs @ [Notify (notify_msg job)]), [], cli, header, srv)
                        | _ \<Rightarrow> None)
                  else Some ([Reply rid res], [], cli, header, srv))
        else Some ([Reply rid (UNKNOWN, Text (ascii ''Unknown meth''))], [], cli, header, srv))"

section \<open>Authorization\<close>

lemma HandleAuthorize_cases:
  assumes "HandleAuthorize F c DB addr wname (cli, srv) = (res, cli', srv')"
  shows "fst res = UNAUTHORIZED_WORKER \<and> cli' = cli \<and> srv' = srv \<or>
    (\<exists>fid. fst res = OK \<and> length wname \<le> 16 \<and> cli' = AuthorizeWorker fid wname (length (srv_workers srv)) cli \<and>
      srv' = srv\<lparr>srv_workers := srv_workers srv @ [(fid, worker_stats_zero F)]\<rparr> \<and>
      (take 1 addr \<noteq> [64] \<longrightarrow> (\<exists>bytes. DecodeBase58 addr = Some (Some bytes))))"
  using assms
  by (auto simp: HandleAuthorize_def unauthorized_def resolve_address_def AddExistingWorker_def Let_def
      split: if_splits sum.splits prod.splits option.splits)


definition ex_db :: db where
  "ex_db = \<lparr>db_alias_address = (\<lambda>a. None), db_miner_id = (\<lambda>a b. (5, [])), db_add_miner = (\<lambda>a b. 5), db_update_alias = (\<lambda>m a. True),
     db_worker_id = (\<lambda>m w. 6), db_add_worker = (\<lambda>m w. 6), db_miner_stats = (\<lambda>m. True), db_worker_stats = (\<lambda>f. True)\<rparr>"


section \<open>Sessions\<close>

text \<open>A session is a sequence of requests with what each of them reads from outside.\<close>

fun run_session ::
  "'f float_ops \<Rightarrow> 'f \<Rightarrow> ('f env \<times> request) list \<Rightarrow> 'f client \<times> u8 list \<times> 'f zec_server \<Rightarrow>
    ('f sent_msg list \<times> 'f client \<times> u8 list \<times> 'f zec_server) option" where
  "run_session F D [] st = Some ([], st)"
| "run_session F D ((E, req) # reqs) st =
    (case HandleReq F D E req st of None \<Rightarrow> None
     | Some (msgs, evs, st) \<Rightarrow> map_option (\<lambda>(ms, st). (msgs @ ms, st)) (run_session F D reqs st))"

fun full_submit :: "request \<Rightarrow> bool" where
  "full_submit (Request rid meth params) \<longleftrightarrow> (meth = ascii ''mining.submit'' \<longrightarrow> 5 \<le> length params)"
| "full_submit (Bad_request rid) \<longleftrightarrow> True"

definition session_ok :: "'f float_ops \<Rightarrow> 'f \<Rightarrow> 'f client \<times> u8 list \<times> 'f zec_server \<Rightarrow> bool" where
  "session_ok F D = (\<lambda>(cli, header, srv). client_ok cli srv \<and> GetLastJob (srv_jobs srv) \<noteq> None \<and>
     GetDifficultyHex F D (current_diff cli) \<noteq> None)"

lemma HandleShare_session:
  assumes "HandleShare F (zec_protocol F hash) submit t now share (cli, header, srv) = Some (res, evs, cli', header', srv')"
    and "session_ok F D (cli, header, srv)"
  shows "session_ok F D (cli', header', srv')"
proof -
  obtain c m where res: "res = (c, m)" by fastforce
  show ?thesis
    using zec.HandleShare_keeps [OF assms(1) [unfolded res]] assms(2) by (auto simp: session_ok_def client_ok_def GetHasAuthorized_def)
qed

lemma HandleAuthorize_params_session:
  assumes "HandleAuthorize_params F c DB params (cli, srv) = (res, cli', srv')" and "session_ok F D (cli, header, srv)"
  shows "session_ok F D (cli', header, srv')"
proof -
  have step: "session_ok F D (cli', header, srv')" if "HandleAuthorize F c DB addr wname (cli, srv) = (res, cli', srv')" for addr wname
    using HandleAuthorize_cases [OF that] assms(2) by (auto simp: session_ok_def client_ok_def AuthorizeWorker_def)
  show ?thesis
    using assms step by (auto simp: HandleAuthorize_params_def Let_def split: list.splits option.splits if_splits)
qed

lemma HandleReq_session:
  assumes "session_ok F D (cli, header, srv)" and "full_submit req"
  shows "\<exists>msgs evs st. HandleReq F D E req (cli, header, srv) = Some (msgs, evs, st) \<and> session_ok F D st"
proof (cases req)
  case (Request rid meth params)
  consider (submit) "meth = ascii ''mining.submit''"
    | (authorize) "meth \<noteq> ascii ''mining.submit''" "meth \<noteq> ascii ''mining.subscribe''" "meth = ascii ''mining.authorize''"
    | (other) "meth \<noteq> ascii ''mining.submit''" "meth = ascii ''mining.subscribe'' \<or> meth \<noteq> ascii ''mining.authorize''"
    by blast
  then show ?thesis
  proof cases
    case submit
    obtain res evs cli' header' srv' where s: "HandleSubmit F (env_hash E) (env_submit E) (env_time E) (env_now E) (env_junk E) params
        (cli, header, srv) = Some (res, evs, cli', header', srv')"
      using HandleSubmit_defined [of cli srv params] assms Request submit
      by (metis (no_types, lifting) case_prod_conv full_submit.simps(1) not_None_eq prod_cases5 session_ok_def)
    then have "session_ok F D (cli', header', srv')"
      using assms(1) by (auto simp: HandleSubmit_def split: sum.splits dest: HandleShare_session)
    then show ?thesis using s Request submit by (simp add: HandleReq_def)
  next
    case authorize
    obtain res cli' srv' where a: "HandleAuthorize_params F VRSC (env_db E) params (cli, srv) = (res, cli', srv')" by (metis prod_cases3)
    note ok = HandleAuthorize_params_session [OF a assms(1)]
    then obtain hex job where "GetDifficultyHex F D (current_diff cli') = Some hex" "GetLastJob (srv_jobs srv') = Some job"
      by (auto simp: session_ok_def)
    then show ?thesis using a ok Request authorize by (simp add: HandleReq_def UpdateDifficulty_def)
  next
    case other
    then show ?thesis using assms(1) Request by (auto simp: HandleReq_def)
  qed
qed (use assms(1) in \<open>simp add: HandleReq_def\<close>)


definition ex_session_server :: "rat zec_server" where
  "ex_session_server = ex_server\<lparr>srv_jobs := (srv_jobs ex_server)\<lparr>last_job := Some (hd (jobs (srv_jobs ex_server)))\<rparr>\<rparr>"

definition ex_env :: "rat env" where
  "ex_env = \<lparr>env_hash = id, env_submit = (\<lambda>i. True), env_db = ex_db, env_time = 0, env_now = 0, env_junk = 0\<rparr>"

definition ex_requests :: "(rat env \<times> request) list" where
  "ex_requests = [(ex_env, Bad_request 1), (ex_env, Request 2 (ascii ''mining.authorize'') [Some [49, 46, 65]]),
     (ex_env, Request 3 (ascii ''mining.submit'') [Some [65], None, None, None, None])]"


section \<open>The broadcast of a job\<close>

lemma kick_loop_undefined: "clients \<noteq> [] \<Longrightarrow> kick_loop F m clients = None"
  by (induction clients rule: kick_loop.induct) (auto split: list.splits)

text \<open>C27: a client that has authorized is sent the notification of a new job; one with a pending difficulty is first sent a
  target, computed from the difficulty that was in force before, and only then does the pending difficulty become current, so that
  the target a miner works on and the difficulty its shares are credited with differ by one adjustment. The loop that follows has no
  defined result as soon as one client is connected: it locks a mutex it holds, or writes behind the end of the map.\<close>

theorem new_job_broadcast:
  assumes "GetHasAuthorized cli" and "pending_diff cli = Some d" and "GetDifficultyHex F D (current_diff cli) = Some hex"
  shows "broadcast_client F D job cli = Some ([Set_target hex, Notify (notify_msg job)], cli\<lparr>current_diff := d, pending_diff := None\<rparr>) \<and>
    (HandleNewJob F D minimum_diff job clients \<noteq> None \<longleftrightarrow> clients = [])"
proof -
  have some: "cs' \<noteq> []" if "broadcast_all F D job cs = Some (ms, cs')" "cs \<noteq> []" for cs ms cs'
    using that by (cases cs) (auto split: option.splits)
  have "HandleNewJob F D minimum_diff job clients = None" if "clients \<noteq> []"
    using that kick_loop_undefined [OF some] by (auto simp: HandleNewJob_def split: option.splits)
  moreover have "HandleNewJob F D minimum_diff job [] \<noteq> None" by (simp add: HandleNewJob_def)
  ultimately have "HandleNewJob F D minimum_diff job clients \<noteq> None \<longleftrightarrow> clients = []" by (cases "clients = []") simp_all
  then show ?thesis using assms by (auto simp: broadcast_client_def UpdateDifficulty_def ActivatePendingDiff_def)
qed

theorem new_job_broadcast_witness:
  "\<exists>hex. broadcast_client rat_ops (2 ^ 256 - 1) (hd (jobs (srv_jobs ex_server))) (ex_client\<lparr>pending_diff := Some 20\<rparr>) =
    Some ([Set_target hex, Notify (notify_msg (hd (jobs (srv_jobs ex_server))))],
      ex_client\<lparr>pending_diff := Some 20\<rparr>\<lparr>current_diff := 20, pending_diff := None\<rparr>)"
proof -
  obtain hex where "GetDifficultyHex rat_ops (2 ^ 256 - 1) (current_diff (ex_client\<lparr>pending_diff := Some 20\<rparr>)) = Some hex"
    using difficulty_hex_defined [of "2 ^ 256 - 1" 10] by (auto simp: ex_client_def AuthorizeWorker_def StratumClient_new_def)
  moreover have "GetHasAuthorized (ex_client\<lparr>pending_diff := Some 20\<rparr>)"
    by (simp add: GetHasAuthorized_def ex_client_def AuthorizeWorker_def StratumClient_new_def)
  ultimately show ?thesis
    using new_job_broadcast [of "ex_client\<lparr>pending_diff := Some 20\<rparr>" 20 rat_ops "2 ^ 256 - 1" _ "hd (jobs (srv_jobs ex_server))"] by auto
qed

end
