(* ===== verification/Stratum_Cn.thy ===== *)
theory Stratum_Cn
  imports Stratum_Server Keccak_Sponge
begin

text \<open>
  The ZANO side of the server: \<^verbatim>\<open>src/src/jobs/job_cryptonote.hpp\<close>, \<open>ShareProcessor::Process\<close> for CryptoNote shares and
  \<^verbatim>\<open>src/src/stratum/stratum_server_cn.cpp\<close>. The parser of the block format, the block id and ProgPoW are not modelled: they are the
  functions of the record \<open>cn_lib\<close>. A string view that is cut behind its end raises an exception that nothing catches; it has no
  result (\<open>None\<close>), like a write behind the end of a block.
\<close>

section \<open>Blocks and templates\<close>

record cn_block =
  hashing_blob :: "u8 list"
  miner_amount :: u64
  tx_hashes :: "u8 list list"

record cn_lib =
  lib_unserialize :: "u8 list \<Rightarrow> cn_block"
  lib_block_hash :: "cn_block \<Rightarrow> u8 list"
  lib_longhash :: "u64 \<Rightarrow> u8 list \<Rightarrow> u64 \<Rightarrow> u8 list"

record cn_template_res =
  res_blob :: "u8 list"
  res_difficulty :: u64
  res_cn_height :: u32
  res_seed :: "u8 list"

record 'f cn_data =
  block_bin :: "u8 list"
  seed :: "u8 list"
  cn_target_diff :: 'f
  cn_expected_hashes :: 'f
  cn_block_size :: u32
  cn_coinbase_value :: u64
  cn_tx_count :: u32
  template_hash :: "u8 list"

definition pow2d :: "'f float_ops \<Rightarrow> nat \<Rightarrow> 'f" where
  "pow2d F n = fold (\<lambda>i res. f_mul F res (f_lit F 2)) [0..<n] (f_lit F 1)"

definition GetHashMultiplier :: "'f float_ops \<Rightarrow> 'f" where
  "GetHashMultiplier F = f_div F (pow2d F 256) (DIFF1 F)"

definition GetTemplateHash :: "cn_block \<Rightarrow> u8 list" where
  "GetTemplateHash block = cn_fast_hash (hashing_blob block)"

text \<open>The first four bytes of every transaction hash, added up.\<close>

definition GetTxSum :: "cn_block \<Rightarrow> u64" where
  "GetTxSum block = foldl (\<lambda>sum h. sum + ucast (le_load (take 4 h) :: u32)) 0 (tx_hashes block)"

definition BlockTemplateCn :: "'f float_ops \<Rightarrow> cn_lib \<Rightarrow> cn_template_res \<Rightarrow> (u64, 'f cn_data) block_template" where
  "BlockTemplateCn F L res =
    (let bin = UnhexlifyS (res_blob res); block = lib_unserialize L bin; target = f_of_u64 F (res_difficulty res)
     in \<lparr>t_height = res_cn_height res, t_key = GetTxSum block, t_hash = GetTemplateHash block, t_data =
          \<lparr>block_bin = bin, seed = res_seed res, cn_target_diff = target, cn_expected_hashes = f_mul F (GetHashMultiplier F) target,
           cn_block_size = of_nat (length (res_blob res) div 2), cn_coinbase_value = miner_amount block,
           cn_tx_count = of_nat (length (tx_hashes block) + 1), template_hash = GetTemplateHash block\<rparr>\<rparr>)"

text \<open>
  \<open>std::copy(&nonce, &nonce + sizeof(nonce), pos)\<close> copies eight 64-bit words into characters: the low byte of the nonce and seven bytes
  from whatever lies behind it, here \<open>junk\<close>.
\<close>

definition put_nonce :: "u8 list \<Rightarrow> u64 \<Rightarrow> u8 list \<Rightarrow> u8 list option" where
  "put_nonce bin nonce junk =
    (if length bin < 9 then None else Some (take 1 bin @ (ucast nonce # take 7 junk) @ drop 9 bin))"

definition GetBlockHex_cn :: "'f cn_data \<Rightarrow> u64 \<Rightarrow> u8 list \<Rightarrow> u8 list option" where
  "GetBlockHex_cn d nonce junk = map_option HexlifyS (put_nonce (block_bin d) nonce junk)"

definition GetBlockHash :: "cn_lib \<Rightarrow> 'f cn_data \<Rightarrow> u64 \<Rightarrow> u8 list \<Rightarrow> u8 list option" where
  "GetBlockHash L d nonce junk = map_option (\<lambda>bin. lib_block_hash L (lib_unserialize L bin)) (put_nonce (block_bin d) nonce junk)"

text \<open>\<open>fmt\<close> prints an integer in decimal, and \<open>{:016x}\<close> in sixteen hexadecimal digits.\<close>

fun dec_nat :: "nat \<Rightarrow> u8 list" where
  "dec_nat n = (if n < 10 then [48 + of_nat n] else dec_nat (n div 10) @ [48 + of_nat (n mod 10)])"

declare dec_nat.simps [simp del]

definition dec_int :: "int \<Rightarrow> u8 list" where
  "dec_int i = (if i < 0 then 45 # dec_nat (nat (- i)) else dec_nat (nat i))"

definition GetWorkMessage :: "'f float_ops \<Rightarrow> (u64, 'f cn_data) job \<Rightarrow> 'f \<Rightarrow> int option \<Rightarrow> u8 list option" where
  "GetWorkMessage F job diff rid =
    map_option (\<lambda>target.
      ascii ''{\"jsonrpc\":\"2.0\",'' @ (case rid of None \<Rightarrow> [] | Some i \<Rightarrow> ascii ''\"id\":'' @ dec_int i @ ascii '','') @
      ascii ''\"result\":[\"0x'' @ job_id job @ ascii ''\",\"0x'' @ seed (job_data job) @ ascii ''\",\"0x'' @ target @
      ascii ''\",\"0x'' @ HexlifyS (be_store 8 (ucast (job_height job) :: u64)) @ ascii ''\"]}'' @ [10])
    (GetDifficultyHex F (DIFF1 F) diff)"

section \<open>Shares\<close>

record share_cn =
  cn_worker :: "u8 list"
  cn_job_id :: "u8 list"
  mix_digest :: "u8 list"
  nonce :: u64

definition cn_hash :: "cn_lib \<Rightarrow> (u64, 'f cn_data) job \<Rightarrow> share_cn \<Rightarrow> u8 list" where
  "cn_hash L job share = lib_longhash L (ucast (job_height job)) (template_hash (job_data job)) (nonce share)"

definition Process_cn ::
  "'f float_ops \<Rightarrow> cn_lib \<Rightarrow> u64 \<Rightarrow> 'f client \<Rightarrow> 'w \<Rightarrow> (u64, 'f cn_data) job \<Rightarrow> share_cn \<Rightarrow> u64 \<Rightarrow> ('f share_result \<times> 'f client \<times> 'w) option" where
  "Process_cn F L now cli wc job share curTime =
    (let (result, cli) = Process_hashed F now cli (cn_target_diff (job_data job)) (cn_hash L job share) curTime in Some (result, cli, wc))"

definition cn_protocol :: "'f float_ops \<Rightarrow> cn_lib \<Rightarrow> u8 list \<Rightarrow> (u64, 'f cn_data, share_cn, 'w, 'f) protocol" where
  "cn_protocol F L junk = \<lparr>p_worker = cn_worker, p_job_id = cn_job_id, p_process = Process_cn F L,
     p_block = (\<lambda>wc job share res. case (GetBlockHex_cn (job_data job) (nonce share) junk, GetBlockHash L (job_data job) (nonce share) junk) of
        (Some hex, Some hash) \<Rightarrow> Some (hex, hash) | _ \<Rightarrow> None),
     p_block_size = cn_block_size, p_coinbase_value = cn_coinbase_value, p_expected_hashes = cn_expected_hashes\<rparr>"

type_synonym 'f cn_server = "(u64, 'f cn_data, 'f) server"

definition cn_fields :: "(u8 list \<times> nat) list" where
  "cn_fields = [(ascii ''nonce'', 8 * 2 + 2), (ascii ''header pow'', 32 * 2 + 2), (ascii ''mix digest'', 32 * 2 + 2)]"

definition from_chars_hex64 :: "u8 list \<Rightarrow> u64 \<Rightarrow> u64" where
  "from_chars_hex64 s old = (let ds = takeWhile is_xdigit s in if ds = [] then old else HexToUint ds)"

definition bswap_64 :: "u64 \<Rightarrow> u64" where
  "bswap_64 w = be_load (le_store 8 w)"

definition substr2 :: "u8 list \<Rightarrow> u8 list option" where
  "substr2 s = (if length s < 2 then None else Some (drop 2 s))"

definition HandleSubmit_cn ::
  "'f float_ops \<Rightarrow> cn_lib \<Rightarrow> u8 list \<Rightarrow> (nat \<Rightarrow> bool) \<Rightarrow> u64 \<Rightarrow> u64 \<Rightarrow> u64 \<Rightarrow> u8 list \<Rightarrow> u8 list option list \<Rightarrow> 'f client \<times> 'w \<times> 'f cn_server \<Rightarrow>
    ('f rpc_result \<times> 'f event list \<times> 'f client \<times> 'w \<times> 'f cn_server) option" where
  "HandleSubmit_cn F L junk submit time now old wname params st =
    (case ParseShareParams cn_fields params of
      Inl err \<Rightarrow> Some ((UNKNOWN, Text (ascii ''Failed to parse share: '' @ err)), [], st)
    | Inr vs \<Rightarrow>
        (case (substr2 (vs ! 1), substr2 (vs ! 0)) of
          (Some jid, Some nonce_sv) \<Rightarrow>
            HandleShare F (cn_protocol F L junk) submit time now
              \<lparr>cn_worker = wname, cn_job_id = jid, mix_digest = vs ! 2, nonce = bswap_64 (from_chars_hex64 nonce_sv old)\<rparr> st
        | _ \<Rightarrow> None))"

section \<open>Requests\<close>

definition HandleAuthorize_cn ::
  "'f float_ops \<Rightarrow> db \<Rightarrow> u8 list option list \<Rightarrow> u8 list \<Rightarrow> 'f client \<times> 'f cn_server \<Rightarrow> 'f rpc_result \<times> 'f client \<times> 'f cn_server" where
  "HandleAuthorize_cn F DB params wname = (\<lambda>(cli, srv).
    case params of
      Some miner # _ \<Rightarrow> HandleAuthorize F ZANO DB miner wname (cli, srv)
    | _ \<Rightarrow> (unauthorized ''Bad request'', cli, srv))"

text \<open>The worker is read for submissions and logins only; a request without it is a bad one then.\<close>

datatype request_cn = Bad_request_cn int | Request_cn int "u8 list" "u8 list" "u8 list option list"

datatype 'f sent_cn = Reply_cn int "'f rpc_result" | Work "u8 list"

definition HandleReq_cn ::
  "'f float_ops \<Rightarrow> cn_lib \<Rightarrow> db \<Rightarrow> u8 list \<Rightarrow> (nat \<Rightarrow> bool) \<Rightarrow> u64 \<Rightarrow> u64 \<Rightarrow> u64 \<Rightarrow> request_cn \<Rightarrow> 'f client \<times> 'w \<times> 'f cn_server \<Rightarrow>
    ('f sent_cn list \<times> 'f event list \<times> 'f client \<times> 'w \<times> 'f cn_server) option" where
  "HandleReq_cn F L DB junk submit time now old req = (\<lambda>(cli, wc, srv).
    case req of
      Bad_request_cn rid \<Rightarrow> Some ([Reply_cn rid (UNKNOWN, Text (ascii ''Bad request''))], [], cli, wc, srv)
    | Request_cn rid meth wname params \<Rightarrow>
        if meth = ascii ''eth_submitWork''
        then map_option (\<lambda>(res, evs, st). ([Reply_cn rid res], evs, st))
               (HandleSubmit_cn F L junk submit time now old wname params (cli, wc, srv))
        else if meth = ascii ''eth_getWork''
        then (case GetLastJob (srv_jobs srv) of None \<Rightarrow> None
              | Some job \<Rightarrow> map_option (\<lambda>m. ([Work m, Reply_cn rid (UNKNOWN, Text (ascii ''true''))], [], cli, wc, srv))
                              (GetWorkMessage F job (current_diff cli) (Some rid)))
        else if meth = ascii ''eth_submitLogin''
        then (case HandleAuthorize_cn F DB params wname (cli, srv) of (res, cli, srv) \<Rightarrow> Some ([Reply_cn rid res], [], cli, wc, srv))
        else Some ([Reply_cn rid (UNKNOWN, Text (ascii ''Unknown method''))], [], cli, wc, srv))"

section \<open>What becomes of a ZANO share\<close>

definition cn_prefix :: "cn_lib \<Rightarrow> 'w \<Rightarrow> (u64, 'f cn_data) job \<Rightarrow> share_cn \<Rightarrow> u32" where
  "cn_prefix L wc job share = le_load (take 4 (cn_hash L job share))"

lemma Process_cn_props:
  assumes "Process_cn F L now cli wc job share t = Some (res, cli', wc')"
  shows "code res \<in> (if cn_prefix L wc' job share \<in> share_uset cli then {DUPLICATE_SHARE} else {VALID_BLOCK, VALID_SHARE})"
    "cli' = snd (SetLastShare F now (cn_prefix L wc' job share) t cli)"
  using assms Process_hashed_props(1,3) [OF prod.collapse [symmetric], of F now cli "cn_target_diff (job_data job)" "cn_hash L job share" t]
  by (auto simp: Process_cn_def cn_prefix_def case_prod_beta Let_def)

interpretation cn: share_protocol F "cn_protocol F L junk" "\<lambda>job share t. True" "cn_prefix L" for F L junk
  by unfold_locales (simp_all add: cn_protocol_def Process_cn_props)

lemma cn_protocol_simps [simp]:
  "p_worker (cn_protocol F L junk) = cn_worker" "p_job_id (cn_protocol F L junk) = cn_job_id"
  by (simp_all add: cn_protocol_def)

lemma HandleShare_cn_defined:
  assumes "client_ok cli srv" and "\<And>job. GetJob (srv_jobs srv) (cn_job_id share) = Some job \<Longrightarrow> 9 \<le> length (block_bin (job_data job))"
  shows "HandleShare F (cn_protocol F L junk) submit t now share (cli, wc, srv) \<noteq> None"
proof (rule cn.HandleShare_total [OF assms(1)])
  show "p_process (cn_protocol F L junk) now cli wc job share t \<noteq> None" for job
    by (simp add: cn_protocol_def Process_cn_def case_prod_beta)
  show "p_block (cn_protocol F L junk) wc job share res \<noteq> None"
    if "GetJob (srv_jobs srv) (p_job_id (cn_protocol F L junk) share) = Some job" for wc job res
    using that assms(2) [of job] by (simp add: cn_protocol_def GetBlockHex_cn_def GetBlockHash_def put_nonce_def)
qed

lemma from_chars_hex64_digits: "ds \<noteq> [] \<Longrightarrow> list_all is_xdigit ds \<Longrightarrow> from_chars_hex64 ds old = HexToUint ds"
  by (simp add: from_chars_hex64_def list_all_iff takeWhile_eq_all_conv [THEN iffD2])

text \<open>C16: a miner that answers the work message of a job the pool still has, with the header hash it was given, sixteen hexadecimal
  digits of a nonce and a mix digest, is never told that the job is stale or the request is malformed. The hash that decides is the one of
  the job's height, the Keccak digest of the template's hashing blob and the byte-swapped nonce; the share is accepted if and only if its
  worker is authorized and the first four bytes of that hash are new on this connection, whatever its difficulty and whatever the mix
  digest.\<close>

theorem cn_work_submit:
  assumes "client_ok cli srv" and "job = Job_CN (BlockTemplateCn F L res) clean" and "GetJob (srv_jobs srv) (job_id job) = Some job"
    and "18 \<le> length (res_blob res)" and "length nh = 16" and "list_all is_xdigit nh" and "length mix = 66"
  shows "\<exists>m evs cli' wc' srv'. HandleSubmit_cn F L junk submit t now old w [Some (ascii ''0x'' @ nh), Some (ascii ''0x'' @ job_id job), Some mix]
      (cli, wc, srv) = Some ((if GetAuthorizedId cli w = None then UNAUTHORIZED_WORKER
        else if le_load (take 4 (lib_longhash L (ucast (res_cn_height res))
            (cn_fast_hash (hashing_blob (lib_unserialize L (UnhexlifyS (res_blob res))))) (bswap_64 (HexToUint nh)))) \<in> share_uset cli
        then DUPLICATE_SHARE else OK, m), evs, cli', wc', srv')"
proof -
  let ?share = "\<lparr>cn_worker = w, cn_job_id = job_id job, mix_digest = mix, nonce = bswap_64 (HexToUint nh)\<rparr>"
  have len: "length (job_id job) = 64" by (simp add: assms(2) Job_CN_def BlockTemplateCn_def GetTemplateHash_def Let_def)
  have "9 \<le> length (block_bin (job_data job))" using assms(4) by (simp add: assms(2) Job_CN_def BlockTemplateCn_def Let_def)
  then have "HandleShare F (cn_protocol F L junk) submit t now ?share (cli, wc, srv) \<noteq> None"
    using assms(3) by (intro HandleShare_cn_defined [OF assms(1)]) simp
  then obtain c m evs cli' wc' srv' where h: "HandleShare F (cn_protocol F L junk) submit t now ?share (cli, wc, srv) =
      Some ((c, m), evs, cli', wc', srv')" by (metis not_None_eq prod_cases4 surj_pair)
  have "nh \<noteq> []" "length (ascii ''0x'') = 2" using assms(5) by (auto simp: ascii_def)
  then have "HandleSubmit_cn F L junk submit t now old w [Some (ascii ''0x'' @ nh), Some (ascii ''0x'' @ job_id job), Some mix] (cli, wc, srv) =
      Some ((c, m), evs, cli', wc', srv')"
    using h len assms(5-7) by (simp add: HandleSubmit_cn_def cn_fields_def substr2_def from_chars_hex64_digits)
  moreover have "c = answer (cn_protocol F L junk) (\<lambda>job share t. True) (cn_prefix L) t ?share cli wc' srv"
    using cn.HandleShare_outcome [OF h] by simp
  moreover have "cn_hash L job ?share = lib_longhash L (ucast (res_cn_height res))
      (cn_fast_hash (hashing_blob (lib_unserialize L (UnhexlifyS (res_blob res))))) (bswap_64 (HexToUint nh))"
    by (simp add: cn_hash_def assms(2) Job_CN_def BlockTemplateCn_def GetTemplateHash_def Let_def)
  ultimately show ?thesis using assms(3) by (auto simp: answer_def cn_prefix_def)
qed

text \<open>A pool with one ZANO job, and a worker that has seen no share yet.\<close>

definition ex_lib :: cn_lib where
  "ex_lib = \<lparr>lib_unserialize = (\<lambda>bin. \<lparr>hashing_blob = bin, miner_amount = 1, tx_hashes = []\<rparr>), lib_block_hash = hashing_blob,
     lib_longhash = (\<lambda>height header n. le_store 8 (height + n))\<rparr>"

definition ex_res :: cn_template_res where
  "ex_res = \<lparr>res_blob = replicate 20 48, res_difficulty = 1000, res_cn_height = 9, res_seed = []\<rparr>"

definition ex_cn_job :: "(u64, rat cn_data) job" where
  "ex_cn_job = Job_CN (BlockTemplateCn rat_ops ex_lib ex_res) True"

definition ex_cn_server :: "rat cn_server" where
  "ex_cn_server = \<lparr>srv_jobs = \<lparr>job_count = 1, last_job = None, jobs = [ex_cn_job]\<rparr>, srv_workers = srv_workers ex_server,
     srv_rounds = srv_rounds ex_server\<rparr>"

theorem cn_work_submit_witness:
  "\<exists>m evs cli' wc' srv'. HandleSubmit_cn rat_ops ex_lib (replicate 7 0) (\<lambda>i. True) 10000 10000 0 [65]
    [Some (ascii ''0x'' @ replicate 16 49), Some (ascii ''0x'' @ job_id ex_cn_job), Some (replicate 66 48)] (ex_client, (), ex_cn_server) =
    Some ((OK, m), evs, cli', wc', srv')"
proof -
  have "client_ok ex_client ex_cn_server" using ex_client_ok by (simp add: client_ok_def ex_cn_server_def)
  moreover have "GetJob (srv_jobs ex_cn_server) (job_id ex_cn_job) = Some ex_cn_job" by (simp add: ex_cn_server_def GetJob_def)
  moreover have "18 \<le> length (res_blob ex_res)" "list_all is_xdigit (replicate 16 49)" by (simp_all add: ex_res_def is_xdigit_def list_all_iff)
  moreover have "GetAuthorizedId ex_client [65] \<noteq> None" "share_uset ex_client = {}"
    by (simp_all add: ex_client_def AuthorizeWorker_def StratumClient_new_def GetAuthorizedId_def)
  ultimately show ?thesis
    using cn_work_submit [of ex_client ex_cn_server ex_cn_job rat_ops ex_lib ex_res True "replicate 16 49" "replicate 66 48" "replicate 7 0"
        "\<lambda>i. True" 10000 10000 0 "[65]" "()"] ex_cn_job_def by (auto split: if_splits)
qed

section \<open>The block that is submitted\<close>

text \<open>C17: the block built from a share has the nonce field of the block format at byte one, of which only the first byte
  comes from the nonce: the block is the intended one, with the eight bytes of the nonce in little-endian order, if and only if the
  memory behind the nonce happens to hold its other seven bytes, and two nonces that agree in their low byte give the same block.\<close>

theorem cn_block_nonce:
  assumes "9 \<le> length (block_bin d)" and "length junk = 7"
  shows "(GetBlockHex_cn d n junk = Some (HexlifyS (take 1 (block_bin d) @ le_store 8 n @ drop 9 (block_bin d))) \<longleftrightarrow> junk = tl (le_store 8 n)) \<and>
    (GetBlockHex_cn d n junk = GetBlockHex_cn d n' junk \<longleftrightarrow> hd (le_store 8 n) = hd (le_store 8 n'))"
proof -
  have inj: "HexlifyS x = HexlifyS y \<longleftrightarrow> x = y" for x y by (metis UnhexlifyS_HexlifyS)
  have hd: "le_store 8 m = ucast m # tl (le_store 8 m)" for m :: u64 by (simp add: eval_nat_numeral)
  have "GetBlockHex_cn d m junk = Some (HexlifyS (take 1 (block_bin d) @ (ucast m # junk) @ drop 9 (block_bin d)))" for m
    using assms by (simp add: GetBlockHex_cn_def put_nonce_def)
  then show ?thesis using assms(2) hd [of n] hd [of n'] by (auto simp: inj) (metis list.sel(1,3) append_eq_append_conv length_Cons)+
qed

theorem cn_block_nonce_witness:
  "GetBlockHex_cn (job_data ex_cn_job) 257 (replicate 7 0) = GetBlockHex_cn (job_data ex_cn_job) 1 (replicate 7 0) \<and>
   GetBlockHex_cn (job_data ex_cn_job) 257 (replicate 7 0) \<noteq>
     Some (HexlifyS (take 1 (block_bin (job_data ex_cn_job)) @ le_store 8 (257 :: u64) @ drop 9 (block_bin (job_data ex_cn_job))))"
proof -
  have "9 \<le> length (block_bin (job_data ex_cn_job))" by (simp add: ex_cn_job_def Job_CN_def BlockTemplateCn_def ex_res_def Let_def)
  moreover have "tl (le_store 8 (257 :: u64)) \<noteq> replicate 7 0" "hd (le_store 8 (257 :: u64)) = hd (le_store 8 (1 :: u64))" by code_simp+
  ultimately show ?thesis using cn_block_nonce [of "job_data ex_cn_job" "replicate 7 0" 257 1] by auto
qed

end
