(* ===== verification/Daemon_Rpc.thy ===== *)
theory Daemon_Rpc
  imports Stratum_Conn Stratum_Cn
begin

text \<open>
  The pool's HTTP client for the daemon, \<^verbatim>\<open>src/src/daemon/daemon_rpc.hpp\<close>: the strings of the parameters, the request with its two
  buffers of fixed size, and the loops that receive the header and the body of the reply. What the socket does is a list of events, as for
  the connections of miners. A request is \<open>None\<close> if it is read past the end of a buffer.
\<close>

section \<open>Parameters\<close>

text \<open>The values of the overloaded \<open>ToJsonStr\<close>: integers, strings, and text that is JSON already.\<close>

datatype json_arg = Json_int int | Json_string "u8 list" | Json_str "u8 list"

fun ToJsonStr :: "json_arg \<Rightarrow> u8 list" where
  "ToJsonStr (Json_int i) = dec_int i"
| "ToJsonStr (Json_string s) = [34] @ s @ [34]"
| "ToJsonStr (Json_str s) = s"

definition ToJsonPair :: "u8 list \<times> json_arg \<Rightarrow> u8 list" where
  "ToJsonPair = (\<lambda>(k, v). [34] @ k @ [34, 58] @ ToJsonStr v)"

text \<open>Every field is followed by a comma; the last character is overwritten.\<close>

definition ToJsonObj :: "(u8 list \<times> json_arg) list \<Rightarrow> u8 list" where
  "ToJsonObj fs = (let res = foldl (\<lambda>res x. res @ ToJsonPair x @ [44]) [123] fs in res[length res - 1 := 125])"

definition GetArrayStr :: "json_arg list \<Rightarrow> u8 list" where
  "GetArrayStr args =
    (let res = foldl (\<lambda>res s. res @ ToJsonStr s @ [44]) [91] args
     in if args \<noteq> [] then res[length res - 1 := 93] else res @ [93])"

section \<open>The request\<close>

text \<open>\<open>format_to_n\<close> gives the size the text would have; that many characters are read from the buffer.\<close>

definition rpc_body :: "int \<Rightarrow> u8 list \<Rightarrow> u8 list \<Rightarrow> u8 list option" where
  "rpc_body rid meth params =
    (let text = ascii ''{\"jsonrpc\":\"2.0\",\"id\":'' @ dec_int rid @ ascii '',\"method\":\"'' @ meth @ ascii ''\",\"params\":'' @ params @ ascii ''}''
     in if length text \<le> length params + 128 then Some text else None)"

definition crlf :: "u8 list" where
  "crlf = [13, 10]"

definition rpc_request :: "u8 list \<Rightarrow> u8 list \<Rightarrow> int \<Rightarrow> u8 list \<Rightarrow> u8 list \<Rightarrow> u8 list \<Rightarrow> u8 list option" where
  "rpc_request host auth rid meth params type =
    (case rpc_body rid meth params of None \<Rightarrow> None
     | Some body \<Rightarrow>
         let text = type @ ascii '' HTTP/1.1'' @ crlf @ ascii ''Host: '' @ host @ crlf @ ascii ''Authorization: Basic '' @ auth @ crlf @
               ascii ''Content-Type: application/json'' @ crlf @ ascii ''Content-Length: '' @ dec_nat (length body) @ crlf @ crlf @
               body @ crlf @ crlf
         in if length text \<le> length body + 256 then Some text else None)"

section \<open>The reply\<close>

definition HTTP_HEADER_SIZE :: nat where
  "HTTP_HEADER_SIZE = 1024 * 16"

text \<open>\<open>strstr\<close> on what stands before the first zero, and \<open>atoi\<close>; an integer out of range has no value.\<close>

fun strstr :: "u8 list \<Rightarrow> u8 list \<Rightarrow> nat option" where
  "strstr [] pat = (if pat = [] then Some 0 else None)"
| "strstr (c # s) pat = (if take (length pat) (c # s) = pat then Some 0 else map_option Suc (strstr s pat))"

definition is_digit :: "u8 \<Rightarrow> bool" where
  "is_digit c \<longleftrightarrow> 48 \<le> c \<and> c \<le> 57"

definition digits_value :: "u8 list \<Rightarrow> int" where
  "digits_value ds = foldl (\<lambda>v c. 10 * v + (uint c - 48)) 0 ds"

definition atoi :: "u8 list \<Rightarrow> int option" where
  "atoi s =
    (let s = dropWhile is_space s;
         neg = (take 1 s = [45]);
         s = (if take 1 s = [45] \<or> take 1 s = [43] then drop 1 s else s);
         v = digits_value (takeWhile is_digit s);
         v = (if neg then - v else v)
     in if - (2 ^ 31) \<le> v \<and> v < 2 ^ 31 then Some v else None)"

text \<open>
  How a request ends: it still waits, returns \<open>errno\<close>, is undefined, throws, or returns the status with the text.
\<close>

datatype reply = Waiting | Errno | Undefined | Throws | Replied int "u8 list"

text \<open>The loop for the header: what was received, the end of the header, and the events that are left.\<close>

function recv_header :: "recv_event list \<Rightarrow> u8 list \<Rightarrow> reply + u8 list \<times> nat \<times> recv_event list" where
  "recv_header [] buf = Inl Waiting"
| "recv_header (Data bs # es) buf =
    (let bs1 = take (HTTP_HEADER_SIZE - length buf) bs; bs2 = drop (HTTP_HEADER_SIZE - length buf) bs; buf = buf @ bs1
     in if bs1 = [] then Inl Errno
        else if length buf = HTTP_HEADER_SIZE then Inl Undefined
        else case strstr (takeWhile (\<lambda>c. c \<noteq> 0) buf) (crlf @ crlf) of
               None \<Rightarrow> recv_header (if bs2 = [] then es else Data bs2 # es) buf
             | Some p \<Rightarrow> Inr (buf, p + 4, if bs2 = [] then es else Data bs2 # es))"
| "recv_header (Eof # es) buf = Inl Errno"
| "recv_header (Again b # es) buf = Inl Errno"
| "recv_header (Error # es) buf = Inl Errno"
  by pat_completeness auto
termination
  by (relation "measure (\<lambda>(es, buf). length es + sum_list (map (\<lambda>e. case e of Data bs \<Rightarrow> length bs | _ \<Rightarrow> 0) es))") auto

text \<open>The loop for the body. The result of \<open>recv\<close> is kept unsigned, so that an error is not noticed and counts as minus one byte.\<close>

function recv_body :: "recv_event list \<Rightarrow> int \<Rightarrow> u64 \<Rightarrow> u64 \<Rightarrow> u8 list \<Rightarrow> reply" where
  "recv_body es res_code received content_length result =
    (if received < content_length
     then case es of
            [] \<Rightarrow> Waiting
          | Data bs # es \<Rightarrow>
              (let room = unat (content_length - received); bs1 = take room bs; bs2 = drop room bs
               in if bs1 = [] then Replied res_code result
                  else recv_body (if bs2 = [] then es else Data bs2 # es) res_code (received + of_nat (length bs1)) content_length
                         (copy_at result (unat received) bs1))
          | Eof # es \<Rightarrow> Replied res_code result
          | _ # es \<Rightarrow> recv_body es res_code (received - 1) content_length result
     else Replied res_code result)"
  by pat_completeness auto
termination
  by (relation "measure (\<lambda>(es, c, r, l, t). length es + sum_list (map (\<lambda>e. case e of Data bs \<Rightarrow> length bs | _ \<Rightarrow> 0) es))") auto

declare recv_body.simps [simp del]

definition receive_reply :: "recv_event list \<Rightarrow> reply" where
  "receive_reply es =
    (case recv_header es [] of
      Inl r \<Rightarrow> r
    | Inr (buf, end_of_header, es) \<Rightarrow>
        let text = takeWhile (\<lambda>c. c \<noteq> 0) buf
        in (case (atoi (drop 9 text), strstr text (ascii ''Content-Length: '')) of
              (Some res_code, Some p) \<Rightarrow>
                (case atoi (drop (p + 16) text) of
                  None \<Rightarrow> Undefined
                | Some n \<Rightarrow>
                    if res_code \<noteq> 200 then Replied res_code buf
                    else if n < 0 then Throws
                    else let received = min (length buf - end_of_header) (nat n)
                         in recv_body es res_code (of_nat received) (of_int n)
                              (copy_at (replicate (nat n) 0) 0 (take received (drop end_of_header buf))))
            | _ \<Rightarrow> Undefined))"

section \<open>Strings\<close>

text \<open>The values, separated by commas: what an array and an object are meant to be.\<close>

fun commas :: "u8 list list \<Rightarrow> u8 list" where
  "commas [] = []"
| "commas [x] = x"
| "commas (x # xs) = x @ [44] @ commas xs"

lemma append_commas: "xs \<noteq> [] \<Longrightarrow> foldl (\<lambda>res x. res @ f x @ [44]) acc xs = acc @ commas (map f xs) @ [44]"
  by (induction xs arbitrary: acc rule: list_nonempty_induct) (auto simp: neq_Nil_conv)

lemma GetArrayStr_eq: "GetArrayStr args = [91] @ commas (map ToJsonStr args) @ [93]"
  by (simp add: GetArrayStr_def append_commas list_update_append Let_def)

lemma ToJsonObj_eq: "fs \<noteq> [] \<Longrightarrow> ToJsonObj fs = [123] @ commas (map ToJsonPair fs) @ [125]"
  by (simp add: ToJsonObj_def append_commas list_update_append Let_def)

lemma length_dec_nat_mono: "a \<le> b \<Longrightarrow> length (dec_nat a) \<le> length (dec_nat b)"
proof (induction b arbitrary: a rule: less_induct)
  case (less b)
  show ?case
  proof (cases "b < 10 \<or> a < 10")
    case True
    then show ?thesis using less.prems by (subst (1 2) dec_nat.simps) auto
  next
    case False
    then have "length (dec_nat (a div 10)) \<le> length (dec_nat (b div 10))" using less.prems by (intro less.IH div_le_mono) simp_all
    then show ?thesis using False by (subst (1 2) dec_nat.simps) simp
  qed
qed

text \<open>The two buffers are large enough for methods of up to seventy characters and the usual hosts and credentials.\<close>

lemma rpc_request_fits:
  assumes "length (dec_int rid) + length meth \<le> 83" and "length type + length host + length auth + length (dec_nat (length params + 128)) \<le> 140"
  shows "\<exists>text. rpc_request host auth rid meth params type = Some text"
proof -
  have "\<exists>body. rpc_body rid meth params = Some body \<and> length body \<le> length params + 128"
    using assms(1) by (simp add: rpc_body_def Let_def ascii_def)
  then obtain body where b: "rpc_body rid meth params = Some body" "length body \<le> length params + 128" by blast
  have "length (dec_nat (length body)) \<le> length (dec_nat (length params + 128))" using length_dec_nat_mono [OF b(2)] .
  then show ?thesis using assms(2) by (simp add: rpc_request_def b(1) Let_def ascii_def crlf_def)
qed

lemma strstr_length: "strstr s pat = Some p \<Longrightarrow> p + length pat \<le> length s"
proof (induction s arbitrary: p)
  case (Cons c s)
  show ?case
  proof (cases "take (length pat) (c # s) = pat")
    case True
    then have "length pat \<le> length (c # s)" by (metis length_take min.cobounded1)
    then show ?thesis using Cons.prems True by simp
  qed (use Cons in \<open>auto split: if_splits\<close>)
qed (auto split: if_splits)

lemma strstr_append: "strstr s pat = Some p \<Longrightarrow> strstr (s @ x) pat = Some p"
proof (induction s arbitrary: p)
  case (Cons c s)
  have len: "length pat \<le> length (c # s)" using strstr_length [OF Cons.prems] by simp
  then have "take (length pat) ((c # s) @ x) = take (length pat) (c # s)" by (simp only: take_append diff_is_0_eq' take_0 append_Nil2)
  then show ?case using Cons by (auto split: if_splits)
qed (cases x; auto split: if_splits)

lemma strstr_take: "strstr s pat = Some p \<Longrightarrow> n < p + length pat \<Longrightarrow> strstr (take n s) pat = None"
proof (induction s arbitrary: p n)
  case (Cons c s)
  show ?case
  proof (cases n)
    case 0
    then show ?thesis using Cons.prems by (auto split: if_splits)
  next
    case (Suc m)
    show ?thesis
    proof (cases "take (length pat) (c # s) = pat")
      case True
      then have "p = 0" using Cons.prems(1) by simp
      then have "length (take (length pat) (take n (c # s))) < length pat" using Cons.prems(2) by simp
      moreover have "strstr t pat = None" if "length t < length pat" for t
        using strstr_length [of t pat] that by (cases "strstr t pat") fastforce+
      ultimately show ?thesis using \<open>p = 0\<close> Cons.prems(2) by simp
    next
      case False
      then obtain q where q: "strstr s pat = Some q" "p = Suc q" using Cons.prems(1) by (auto split: if_splits)
      have "take (length pat) (take n (c # s)) \<noteq> pat"
      proof
        assume eq: "take (length pat) (take n (c # s)) = pat"
        then have "length pat \<le> n" by (metis length_take min.bounded_iff nle_le)
        then show False using eq False by (simp add: min_def)
      qed
      then show ?thesis using Cons.IH [OF q(1), of m] Cons.prems(2) q(2) Suc by simp
    qed
  qed
qed (auto split: if_splits)

lemma takeWhile_zero_append: "0 \<notin> set s \<Longrightarrow> takeWhile (\<lambda>c. c \<noteq> 0) (s @ x) = s @ takeWhile (\<lambda>c. c \<noteq> (0 :: u8)) x"
  by (subst takeWhile_append2) auto

lemma atoi_append:
  assumes "s \<noteq> []" and "is_digit (hd s)" and "\<not> is_digit (last s)"
  shows "atoi (s @ x) = atoi s"
proof -
  have "takeWhile is_digit (s @ x) = takeWhile is_digit s"
    using assms(1,3) by (intro takeWhile_append1 [of "last s"]) simp_all
  moreover obtain c t where "s = c # t" "is_digit c" using assms(1,2) by (cases s) auto
  moreover have "\<not> is_space c" "c \<noteq> 45" "c \<noteq> 43" if "is_digit c" for c
    using that by (auto simp: is_digit_def is_space_def word_le_nat_alt)
  ultimately show ?thesis by (simp add: atoi_def Let_def)
qed

section \<open>Replies\<close>

lemma recv_header_found:
  assumes "0 \<notin> set H" and "strstr H (crlf @ crlf) = Some p" and "p + 4 = length H"
    and "[] \<notin> set cs" and "\<forall>c \<in> set cs. length H + length c \<le> HTTP_HEADER_SIZE" and "buf @ concat cs = H @ rest" and "length buf < length H"
  shows "\<exists>cs1 cs2. cs = cs1 @ cs2 \<and> length H \<le> length (buf @ concat cs1) \<and>
    recv_header (map Data cs) buf = Inr (buf @ concat cs1, length H, map Data cs2)"
  using assms(4-7)
proof (induction cs arbitrary: buf)
  case (Cons c cs)
  let ?buf = "buf @ c"
  have pre: "?buf = take (length ?buf) (H @ rest)" using Cons.prems(3) by (metis append_assoc append_eq_conv_conj concat.simps(2))
  have fits: "length c \<le> HTTP_HEADER_SIZE - length buf" "length ?buf < HTTP_HEADER_SIZE" "c \<noteq> []" using Cons.prems by auto
  show ?case
  proof (cases "length ?buf < length H")
    case True
    then have b: "?buf = take (length ?buf) H" using pre by (metis less_imp_le_nat take_append diff_is_0_eq' take_0 append_Nil2)
    then have "0 \<notin> set ?buf" using assms(1) by (metis in_set_takeD)
    then have "takeWhile (\<lambda>c. c \<noteq> 0) ?buf = ?buf" by (subst takeWhile_eq_all_conv) auto
    moreover have "strstr ?buf (crlf @ crlf) = None"
      using strstr_take [OF assms(2), of "length ?buf"] True assms(3) b by (simp add: crlf_def)
    ultimately have "strstr (takeWhile (\<lambda>c. c \<noteq> 0) ?buf) (crlf @ crlf) = None" by (simp only:)
    then have "recv_header (map Data (c # cs)) buf = recv_header (map Data cs) ?buf"
      using fits by (simp add: Let_def del: takeWhile_append1 takeWhile_append2)
    moreover obtain cs1 cs2 where "cs = cs1 @ cs2" "length H \<le> length (?buf @ concat cs1)"
        "recv_header (map Data cs) ?buf = Inr (?buf @ concat cs1, length H, map Data cs2)"
      using Cons.IH [of ?buf] Cons.prems True by auto
    ultimately show ?thesis by (intro exI [of _ "c # cs1"] exI [of _ cs2]) simp
  next
    case False
    then obtain x where x: "?buf = H @ x" using pre by (metis append_eq_conv_conj linorder_not_less take_append take_all)
    have "strstr (takeWhile (\<lambda>c. c \<noteq> 0) ?buf) (crlf @ crlf) = Some p"
      unfolding x takeWhile_zero_append [OF assms(1)] by (rule strstr_append [OF assms(2)])
    then have "recv_header (map Data (c # cs)) buf = Inr (?buf, length H, map Data cs)"
      using fits assms(3) by (simp add: Let_def del: takeWhile_append1 takeWhile_append2)
    then show ?thesis using False by (intro exI [of _ "[c]"] exI [of _ cs]) simp
  qed
qed simp

lemma recv_body_found:
  assumes "length body < 2 ^ 31" and "k \<le> length body" and "[] \<notin> set cs" and "take k body @ concat cs = body @ junk"
  shows "recv_body (map Data cs) res_code (of_nat k) (of_nat (length body)) (take k body @ replicate (length body - k) 0) = Replied res_code body"
  using assms(2-4)
proof (induction cs arbitrary: k)
  case Nil
  then have "length (take k body) = length (body @ junk)" by simp
  then have "k = length body" using Nil by simp
  then show ?case by (simp add: recv_body.simps)
next
  case (Cons c cs)
  let ?n = "length body"
  have small: "unat (of_nat k :: u64) = k" "unat (of_nat ?n :: u64) = ?n"
    using assms(1) Cons.prems(1) by (auto intro!: of_nat_inverse [OF refl])
  show ?case
  proof (cases "k = ?n")
    case False
    then have lt: "k < ?n" using Cons.prems(1) by simp
    then have less: "(of_nat k :: u64) < of_nat ?n" using small by (simp add: word_less_nat_alt)
    have room: "unat (of_nat ?n - of_nat k :: u64) = ?n - k" using small lt by (simp add: unat_sub word_le_nat_alt)
    let ?b = "take (?n - k) c"
    have tail: "c @ concat cs = drop k body @ junk"
      using Cons.prems(1,3) by (metis append_take_drop_id append_assoc same_append_eq concat.simps(2))
    have b: "?b = take (length ?b) (drop k body)"
    proof -
      have "take (length ?b) (c @ concat cs) = ?b" by (cases "length c \<le> ?n - k") simp_all
      then show ?thesis unfolding tail by (simp add: min_def split: if_splits)
    qed
    have k': "take k body @ ?b = take (k + length ?b) body" by (subst b) (simp only: take_add)
    have res: "copy_at (take k body @ replicate (?n - k) 0) k ?b = take (k + length ?b) body @ replicate (?n - (k + length ?b)) 0"
      unfolding copy_at_def k' [symmetric] using lt by simp
    have step: "recv_body (map Data (c # cs)) res_code (of_nat k) (of_nat ?n) (take k body @ replicate (?n - k) 0) =
      recv_body (if drop (?n - k) c = [] then map Data cs else Data (drop (?n - k) c) # map Data cs) res_code (of_nat (k + length ?b)) (of_nat ?n)
        (take (k + length ?b) body @ replicate (?n - (k + length ?b)) 0)"
      by (subst recv_body.simps) (use less room res small lt Cons.prems(2) in \<open>auto simp: Let_def\<close>)
    show ?thesis
    proof (cases "length c \<le> ?n - k")
      case True
      then have "take k body @ c = take (k + length c) body" using k' by simp
      then have "take (k + length c) body @ concat cs = body @ junk" using Cons.prems(3) by (metis append_assoc concat.simps(2))
      then show ?thesis unfolding step using Cons.IH [of "k + length c"] Cons.prems(2) True lt by simp
    next
      case False
      then have "k + length ?b = ?n" using lt by simp
      then show ?thesis unfolding step by (simp add: recv_body.simps)
    qed
  qed (simp add: recv_body.simps)
qed

text \<open>A header that ends the first time two line ends meet, with the status 200 and a length of \<open>n\<close>.\<close>

definition http_ok :: "u8 list \<Rightarrow> nat \<Rightarrow> bool" where
  "http_ok H n \<longleftrightarrow> 0 \<notin> set H \<and> strstr H (crlf @ crlf) = Some (length H - 4) \<and> 9 < length H \<and> is_digit (H ! 9) \<and> atoi (drop 9 H) = Some 200 \<and>
     (case strstr H (ascii ''Content-Length: '') of None \<Rightarrow> False
      | Some p \<Rightarrow> p + 16 < length H \<and> is_digit (H ! (p + 16)) \<and> atoi (drop (p + 16) H) = Some (int n))"

lemma http_ok_last: "http_ok H n \<Longrightarrow> \<not> is_digit (last H)"
proof -
  assume h: "http_ok H n"
  have hit: "take (length pat) (drop p s) = pat" if "strstr s pat = Some p" for s pat p
    using that by (induction s arbitrary: p) (auto split: if_splits)
  have "4 \<le> length H" "take 4 (drop (length H - 4) H) = crlf @ crlf"
    using h hit [of H "crlf @ crlf"] by (auto simp: http_ok_def crlf_def)
  then have "last (drop (length H - 4) H) = 10" by (simp add: crlf_def)
  then have "last H = 10" using \<open>4 \<le> length H\<close> by (cases "H = []") (auto simp: last_drop)
  then show ?thesis by (simp add: is_digit_def)
qed


definition ex_header :: "u8 list" where
  "ex_header = ascii ''HTTP/1.1 200 OK'' @ crlf @ ascii ''Content-Length: 2'' @ crlf @ crlf"


end
