(* ===== verification/Pool_Database.thy ===== *)
theory Pool_Database
  imports Share_Core
begin

text \<open>
  The relational database of the pool: the tables and stored procedures of \<^verbatim>\<open>src/scripts/setup/procedures.sql\<close> that keep blocks,
  rewards, balances and payouts, and the operations of \<^verbatim>\<open>src/src/persistence/mysql/mysql_manager.cpp\<close> on them. Balances are unsigned
  64-bit columns: a statement whose result is out of range raises an error and changes nothing, while the statements of the
  same procedure before it stay. A procedure gives \<open>False\<close> when it raises. Whether the connection is up is a parameter of each
  operation. After a failed insertion the last insert id is unspecified, here \<open>junk\<close>.
\<close>

section \<open>Tables\<close>

datatype block_status = PENDING | CONFIRMED | ORPHANED | PAID | PENDING_ORPHANED

text \<open>A row of \<open>miners\<close>, with the address it is joined with.\<close>

record miner_row =
  row_miner :: u32
  mature_balance :: nat
  immature_balance :: nat
  minimum_payout :: nat
  row_address :: "u8 list"

record 'f block_row =
  blk_id :: u32
  blk_status :: block_status
  blk_worker :: u32
  blk_miner :: u32
  blk_hash :: "u8 list"
  blk_reward :: u64
  blk_time_ms :: u64
  blk_duration_ms :: u64
  blk_height :: u32
  blk_difficulty :: 'f
  blk_effort_percent :: 'f

record 'f reward_row =
  rw_miner :: u32
  rw_block :: u32
  rw_amount :: nat
  rw_effort :: 'f

record payout_row =
  po_id :: u32
  po_txid :: "u8 list"
  po_payees :: u32
  po_amount :: nat
  po_tx_fee :: nat
  po_time_ms :: u64

record entry_row =
  en_payout :: u32
  en_miner :: u32
  en_amount :: nat

record 'f database =
  tb_miners :: "miner_row list"
  tb_workers :: "u32 list"
  tb_blocks :: "'f block_row list"
  tb_rewards :: "'f reward_row list"
  tb_payouts :: "payout_row list"
  tb_entries :: "entry_row list"
  next_block_id :: u32
  next_payout_id :: u32
  last_insert_id :: u32
  stat_mined :: nat
  stat_orphaned :: nat
  stat_duration_ms :: nat
  stat_effort_percent :: 'f
  stat_payouts :: nat
  stat_paid :: nat
  stat_next_ms :: u64

section \<open>Statements\<close>

text \<open>Arithmetic of an unsigned column of \<open>w\<close> bits.\<close>

definition add_col :: "nat \<Rightarrow> nat \<Rightarrow> nat \<Rightarrow> nat option" where
  "add_col w a b = (if a + b < 2 ^ w then Some (a + b) else None)"

definition sub_col :: "nat \<Rightarrow> nat \<Rightarrow> nat option" where
  "sub_col a b = (if b \<le> a then Some (a - b) else None)"

text \<open>\<open>UPDATE ... SET ... WHERE\<close>: all rows or none.\<close>

fun update_where :: "('r \<Rightarrow> bool) \<Rightarrow> ('r \<Rightarrow> 'r option) \<Rightarrow> 'r list \<Rightarrow> 'r list option" where
  "update_where P f [] = Some []"
| "update_where P f (r # rs) =
    (case (if P r then f r else Some r) of None \<Rightarrow> None
     | Some r' \<Rightarrow> map_option (\<lambda>rs'. r' # rs') (update_where P f rs))"

section \<open>Stored procedures\<close>

definition proc_AddBlock :: "'f float_ops \<Rightarrow> u32 \<Rightarrow> 'f block_submission \<Rightarrow> u8 list \<Rightarrow> 'f database \<Rightarrow> bool \<times> 'f database" where
  "proc_AddBlock F junk bs hash db =
    (let i = next_block_id db; db = db\<lparr>next_block_id := i + 1\<rparr>
     in if sub_worker bs \<in> set (tb_workers db) \<and> sub_miner bs \<in> row_miner ` set (tb_miners db)
        then
          let row = \<lparr>blk_id = i, blk_status = PENDING, blk_worker = sub_worker bs, blk_miner = sub_miner bs, blk_hash = hash,
                blk_reward = sub_reward bs, blk_time_ms = sub_time_ms bs, blk_duration_ms = sub_duration_ms bs, blk_height = sub_height bs,
                blk_difficulty = sub_difficulty bs, blk_effort_percent = sub_effort_percent bs\<rparr>;
              db = db\<lparr>tb_blocks := tb_blocks db @ [row], last_insert_id := i\<rparr>
          in (case (add_col 32 (stat_mined db) 1, add_col 64 (stat_duration_ms db) (unat (sub_duration_ms bs))) of
               (Some n, Some ms) \<Rightarrow> (True, db\<lparr>stat_mined := n, stat_duration_ms := ms,
                  stat_effort_percent := f_add F (stat_effort_percent db) (sub_effort_percent bs)\<rparr>)
             | _ \<Rightarrow> (False, db))
        else (False, db\<lparr>last_insert_id := junk\<rparr>))"

definition proc_AddReward :: "u32 \<Rightarrow> u32 \<Rightarrow> nat \<Rightarrow> 'f \<Rightarrow> 'f database \<Rightarrow> bool \<times> 'f database" where
  "proc_AddReward minerid blockid amount effort db =
    (if minerid \<in> row_miner ` set (tb_miners db) \<and> blockid \<in> blk_id ` set (tb_blocks db)
     then
       let db = db\<lparr>tb_rewards := tb_rewards db @ [\<lparr>rw_miner = minerid, rw_block = blockid, rw_amount = amount, rw_effort = effort\<rparr>]\<rparr>
       in (case update_where (\<lambda>r. row_miner r = minerid)
             (\<lambda>r. map_option (\<lambda>v. r\<lparr>immature_balance := v\<rparr>) (add_col 64 (immature_balance r) amount)) (tb_miners db) of
            None \<Rightarrow> (False, db)
          | Some ms \<Rightarrow> (True, db\<lparr>tb_miners := ms\<rparr>))
     else (False, db))"

text \<open>The reward a miner's row is joined with: a row that matches several times is updated once.\<close>

definition reward_of :: "u32 \<Rightarrow> u32 \<Rightarrow> 'f reward_row list \<Rightarrow> 'f reward_row option" where
  "reward_of minerid blockid rs = find (\<lambda>w. rw_miner w = minerid \<and> rw_block w = blockid) rs"

definition mature_row :: "nat \<Rightarrow> block_status \<Rightarrow> miner_row \<Rightarrow> miner_row option" where
  "mature_row amount status r =
    (case (sub_col (immature_balance r) amount, add_col 64 (mature_balance r) (if status = CONFIRMED then amount else 0)) of
      (Some im, Some mat) \<Rightarrow> Some (r\<lparr>immature_balance := im, mature_balance := mat\<rparr>) | _ \<Rightarrow> None)"

definition proc_MatureRewards :: "u32 \<Rightarrow> block_status \<Rightarrow> 'f database \<Rightarrow> bool \<times> 'f database" where
  "proc_MatureRewards blockid status db =
    (case update_where (\<lambda>r. reward_of (row_miner r) blockid (tb_rewards db) \<noteq> None)
        (\<lambda>r. mature_row (rw_amount (the (reward_of (row_miner r) blockid (tb_rewards db)))) status r) (tb_miners db) of
      None \<Rightarrow> (False, db)
    | Some ms \<Rightarrow>
        let db = db\<lparr>tb_miners := ms\<rparr>
        in if status = ORPHANED
           then (case add_col 32 (stat_orphaned db) 1 of None \<Rightarrow> (False, db) | Some n \<Rightarrow> (True, db\<lparr>stat_orphaned := n\<rparr>))
           else (True, db))"

definition proc_GetUnpaidRewards :: "nat \<Rightarrow> 'f database \<Rightarrow> (u32 \<times> nat \<times> u8 list) list" where
  "proc_GetUnpaidRewards minimum db =
    map (\<lambda>r. (row_miner r, mature_balance r, row_address r))
      (filter (\<lambda>r. (if minimum < minimum_payout r then minimum_payout r else minimum) < mature_balance r) (tb_miners db))"

definition proc_AddPayoutEntry :: "u32 \<Rightarrow> u32 \<Rightarrow> nat \<Rightarrow> nat \<Rightarrow> 'f database \<Rightarrow> bool \<times> 'f database" where
  "proc_AddPayoutEntry payoutid minerid amount individual_fee db =
    (if payoutid \<in> po_id ` set (tb_payouts db) \<and> minerid \<in> row_miner ` set (tb_miners db)
     then
       let db = db\<lparr>tb_entries := tb_entries db @ [\<lparr>en_payout = payoutid, en_miner = minerid, en_amount = amount\<rparr>]\<rparr>
       in (case update_where (\<lambda>r. row_miner r = minerid)
             (\<lambda>r. case add_col 64 amount individual_fee of None \<Rightarrow> None
                | Some d \<Rightarrow> map_option (\<lambda>v. r\<lparr>mature_balance := v\<rparr>) (sub_col (mature_balance r) d)) (tb_miners db) of
            None \<Rightarrow> (False, db)
          | Some ms \<Rightarrow> (True, db\<lparr>tb_miners := ms\<rparr>))
     else (False, db))"

definition proc_AddPayout :: "u8 list \<Rightarrow> u32 \<Rightarrow> nat \<Rightarrow> nat \<Rightarrow> u64 \<Rightarrow> 'f database \<Rightarrow> bool \<times> 'f database" where
  "proc_AddPayout txid payees paid fee time_ms db =
    (let i = next_payout_id db;
         db = db\<lparr>next_payout_id := i + 1, last_insert_id := i, tb_payouts := tb_payouts db @
           [\<lparr>po_id = i, po_txid = txid, po_payees = payees, po_amount = paid, po_tx_fee = fee, po_time_ms = time_ms\<rparr>]\<rparr>
     in (case (add_col 32 (stat_payouts db) 1, add_col 64 (stat_paid db) paid) of
          (Some n, Some p) \<Rightarrow> (True, db\<lparr>stat_payouts := n, stat_paid := p\<rparr>)
        | _ \<Rightarrow> (False, db)))"

section \<open>\<open>MySqlManager\<close>\<close>

text \<open>The identifier the reference parameter has afterwards; an error of the insertion is printed and ignored.\<close>

definition GetLastId :: "bool \<Rightarrow> 'f database \<Rightarrow> u32 option" where
  "GetLastId up db = (if up then Some (last_insert_id db) else None)"

definition AddBlockSubmission ::
  "'f float_ops \<Rightarrow> bool \<Rightarrow> bool \<Rightarrow> u32 \<Rightarrow> 'f block_submission \<Rightarrow> 'f database \<Rightarrow> u32 option \<times> 'f database" where
  "AddBlockSubmission F up up_id junk bs db =
    (let db = (if up then snd (proc_AddBlock F junk bs (HexlifyS (sub_hash bs)) db) else db\<lparr>last_insert_id := junk\<rparr>)
     in (GetLastId up_id db, db))"

fun AddRoundRewards :: "(nat \<Rightarrow> bool) \<Rightarrow> u32 \<Rightarrow> (u32 \<times> 'f round_reward) list \<Rightarrow> 'f database \<Rightarrow> bool \<times> 'f database" where
  "AddRoundRewards up blockid [] db = (True, db)"
| "AddRoundRewards up blockid ((miner, r) # rs) db =
    (if \<not> up 0 then (False, db)
     else case proc_AddReward miner blockid (unat (of_int (r_reward r) :: u64)) (r_effort r) db of
            (False, db) \<Rightarrow> (False, db)
          | (True, db) \<Rightarrow> AddRoundRewards (\<lambda>n. up (n + 1)) blockid rs db)"

record block_overview =
  ov_id :: u32
  ov_height :: u32
  last_status :: block_status
  ov_hash :: "u8 list"

definition overview :: "'f block_row \<Rightarrow> block_overview" where
  "overview b = \<lparr>ov_id = blk_id b, ov_height = blk_height b, last_status = blk_status b, ov_hash = blk_hash b\<rparr>"

text \<open>The blocks with the status 1 or 5 are appended to the vector.\<close>

definition LoadImmatureBlocks :: "bool \<Rightarrow> 'f database \<Rightarrow> block_overview list \<Rightarrow> block_overview list" where
  "LoadImmatureBlocks up db submissions =
    (if up then submissions @ map overview (filter (\<lambda>b. blk_status b \<in> {PENDING, PENDING_ORPHANED}) (tb_blocks db)) else submissions)"

definition UpdateBlockStatus :: "bool \<Rightarrow> u32 \<Rightarrow> block_status \<Rightarrow> 'f database \<Rightarrow> 'f database" where
  "UpdateBlockStatus up i status db =
    (if up then db\<lparr>tb_blocks := map (\<lambda>b. if blk_id b = i then b\<lparr>blk_status := status\<rparr> else b) (tb_blocks db)\<rparr> else db)"

definition UpdateImmatureRewards :: "bool \<Rightarrow> u32 \<Rightarrow> block_status \<Rightarrow> 'f database \<Rightarrow> 'f database" where
  "UpdateImmatureRewards up i status db = (if up then snd (proc_MatureRewards i status db) else db)"

definition UpdateNextPayout :: "bool \<Rightarrow> u64 \<Rightarrow> 'f database \<Rightarrow> 'f database" where
  "UpdateNextPayout up ms db = (if up then db\<lparr>stat_next_ms := ms\<rparr> else db)"

record payee =
  pay_miner :: u32
  amount_clean :: u64
  pay_address :: "u8 list"

definition LoadUnpaidRewards :: "bool \<Rightarrow> nat \<Rightarrow> 'f database \<Rightarrow> payee list option" where
  "LoadUnpaidRewards up minimum db =
    (if up then Some (map (\<lambda>(m, amount, addr). \<lparr>pay_miner = m, amount_clean = of_nat amount, pay_address = addr\<rparr>)
      (proc_GetUnpaidRewards minimum db)) else None)"

fun AddPayout_entries :: "(nat \<Rightarrow> bool) \<Rightarrow> u32 \<Rightarrow> nat \<Rightarrow> payee list \<Rightarrow> 'f database \<Rightarrow> bool \<times> 'f database" where
  "AddPayout_entries up i fee [] db = (True, db)"
| "AddPayout_entries up i fee (p # ps) db =
    (if \<not> up 0 then (False, db)
     else case proc_AddPayoutEntry i (pay_miner p) (unat (amount_clean p)) fee db of
            (False, db) \<Rightarrow> (False, db)
          | (True, db) \<Rightarrow> AddPayout_entries (\<lambda>n. up (n + 1)) i fee ps db)"

definition AddPayout :: "(nat \<Rightarrow> bool) \<Rightarrow> u8 list \<Rightarrow> u64 \<Rightarrow> nat \<Rightarrow> u64 \<Rightarrow> payee list \<Rightarrow> nat \<Rightarrow> 'f database \<Rightarrow> bool \<times> 'f database" where
  "AddPayout up txid paid fee time_ms payees individual_fee db =
    (if \<not> up 0 then (False, db)
     else case proc_AddPayout txid (of_nat (length payees)) (unat paid) fee time_ms db of
            (False, db) \<Rightarrow> (False, db)
          | (True, db) \<Rightarrow>
              (case GetLastId (up 1) db of None \<Rightarrow> (False, db)
               | Some i \<Rightarrow> AddPayout_entries (\<lambda>n. up (n + 2)) i individual_fee payees db))"

end
