(* ===== verification/Block_Watcher.thy ===== *)
theory Block_Watcher
  imports Pool_Database
begin

text \<open>
  What happens to a block and its rewards after it was found: \<open>SetClosedRound\<close> of \<^verbatim>\<open>src/src/round/redis_round.cpp\<close>, the block
  watcher of \<^verbatim>\<open>src/src/blocks/block_watcher.cpp\<close> and the payout loop of \<^verbatim>\<open>src/src/payouts/main.cpp\<close>, on the database of
  \<^verbatim>\<open>Pool_Database\<close>. The daemon's answers, the height in the key-value store and the state of the connection are parameters.
\<close>

section \<open>\<open>SetClosedRound\<close>\<close>

datatype round_close_res = ROUND_OK | BAD_SHARES_SUM | BAD_ADD_BLOCK | BAD_ADD_REWARDS | BAD_UPDATE_ROUND

definition SetClosedRound ::
  "'f float_ops \<Rightarrow> (nat \<Rightarrow> bool) \<Rightarrow> u32 \<Rightarrow> 'f block_submission \<Rightarrow> (u32 \<times> 'f round_reward) list \<Rightarrow> 'f database \<Rightarrow> round_close_res \<times> 'f database" where
  "SetClosedRound F up junk bs round_shares db =
    (case AddBlockSubmission F (up 0) (up 1) junk bs db of
      (None, db) \<Rightarrow> (BAD_ADD_BLOCK, db)
    | (Some block_id, db) \<Rightarrow>
        (case AddRoundRewards (\<lambda>n. up (n + 2)) block_id round_shares db of
          (False, db) \<Rightarrow> (BAD_ADD_REWARDS, db)
        | (True, db) \<Rightarrow> (ROUND_OK, db)))"

section \<open>\<open>BlockWatcher\<close>\<close>

definition COINBASE_MATURITY :: u32 where
  "COINBASE_MATURITY = 10"

text \<open>
  The body of the loop over the submissions, and whether the submission stays in the vector. \<open>ans\<close> is what the daemon has at the
  height of the block, its hash and depth; \<open>up k\<close> tells whether the statement number \<open>k\<close> reaches the database.
\<close>

definition check_one ::
  "(nat \<Rightarrow> bool) \<Rightarrow> (u8 list \<times> u32) option \<Rightarrow> u32 \<Rightarrow> block_overview \<Rightarrow> 'f database \<Rightarrow> bool \<times> 'f database" where
  "check_one up ans current_height submission db =
    (case ans of
      None \<Rightarrow> (True, db)
    | Some (hash, depth) \<Rightarrow>
        let confirmations = (if ov_hash submission = hash then sint depth else -1);
            db = (if ov_hash submission \<noteq> hash \<and> last_status submission \<noteq> PENDING_ORPHANED
                  then UpdateBlockStatus (up 0) (ov_id submission) PENDING_ORPHANED db else db)
        in if ov_height submission + COINBASE_MATURITY < current_height
           then let status = (if sint COINBASE_MATURITY < confirmations then CONFIRMED else ORPHANED);
                    db = UpdateImmatureRewards (up 1) (ov_id submission) status db;
                    db = UpdateBlockStatus (up 2) (ov_id submission) status db
                in (False, db)
           else (True, db))"

text \<open>The loop; \<open>header n h\<close> is the daemon's answer to the query number \<open>n\<close>, for the height \<open>h\<close>.\<close>

fun check_loop ::
  "(nat \<Rightarrow> nat \<Rightarrow> bool) \<Rightarrow> (nat \<Rightarrow> u32 \<Rightarrow> (u8 list \<times> u32) option) \<Rightarrow> u32 \<Rightarrow> nat \<Rightarrow> block_overview list \<Rightarrow> 'f database \<Rightarrow>
    block_overview list \<times> 'f database" where
  "check_loop up header current_height n [] db = ([], db)"
| "check_loop up header current_height n (submission # rest) db =
    (let (keep, db) = check_one (up n) (header n (ov_height submission)) current_height submission db;
         (kept, db) = check_loop up header current_height (n + 1) rest db
     in (if keep then submission # kept else kept, db))"

text \<open>The vector is a member of the watcher: what a check keeps is still there when the next one loads the blocks again.\<close>

definition CheckImmatureSubmissions ::
  "bool \<Rightarrow> (nat \<Rightarrow> nat \<Rightarrow> bool) \<Rightarrow> (nat \<Rightarrow> u32 \<Rightarrow> (u8 list \<times> u32) option) \<Rightarrow> u32 \<Rightarrow> block_overview list \<times> 'f database \<Rightarrow>
    block_overview list \<times> 'f database" where
  "CheckImmatureSubmissions up_load up header current_height = (\<lambda>(submissions, db).
    check_loop up header current_height 0 (LoadImmatureBlocks up_load db submissions) db)"

section \<open>Payouts\<close>

definition PAYOUT_TX_FEE :: nat where
  "PAYOUT_TX_FEE = 100000000"

text \<open>
  One payment: the result of the payout process is left with \<open>None\<close>. \<open>junk\<close> is the value of the uninitialised member
  \<open>total\<close>; \<open>transfer\<close> is the wallet's answer, a transaction id if the payees have been paid.
\<close>

definition payout_round ::
  "(nat \<Rightarrow> bool) \<Rightarrow> (payee list \<Rightarrow> nat \<Rightarrow> u8 list option) \<Rightarrow> u64 \<Rightarrow> u64 \<Rightarrow> u64 \<times> 'f database \<Rightarrow> (payee list \<times> u64 \<times> 'f database) option" where
  "payout_round up transfer junk interval = (\<lambda>(next_payment, db).
    case LoadUnpaidRewards (up 0) PAYOUT_TX_FEE db of
      None \<Rightarrow> None
    | Some payees \<Rightarrow>
        let time_ms = next_payment * 1000;
            next_payment = next_payment + interval;
            db = UpdateNextPayout (up 1) (next_payment * 1000) db
        in if payees = [] then Some ([], next_payment, db)
           else
             let individual_fee = of_nat PAYOUT_TX_FEE div of_nat (length payees) :: u64;
                 payees = map (\<lambda>p. p\<lparr>amount_clean := amount_clean p - individual_fee\<rparr>) payees;
                 total_paid = foldl (\<lambda>t p. t + amount_clean p) junk payees
             in (case transfer payees PAYOUT_TX_FEE of
                  None \<Rightarrow> Some ([], next_payment, db)
                | Some txid \<Rightarrow>
                    Some (payees, next_payment,
                      snd (AddPayout (\<lambda>n. up (n + 2)) txid total_paid PAYOUT_TX_FEE time_ms payees (unat individual_fee) db))))"

end
