(* ===== verification/Pool_Ledger.thy ===== *)
theory Pool_Ledger
  imports Block_Watcher
begin

text \<open>
  The ledger the database is meant to be: what a miner is owed follows from the reward rows and the status of their blocks, and the
  two balances of a miner agree with it.
\<close>

section \<open>Statements on tables\<close>

lemma update_where_map:
  assumes "\<And>r. r \<in> set rs \<Longrightarrow> P r \<Longrightarrow> f r \<noteq> None"
  shows "update_where P f rs = Some (map (\<lambda>r. if P r then the (f r) else r) rs)"
  using assms by (induction rs) (fastforce split: option.splits)+

lemma update_where_SomeD:
  "update_where P f rs = Some rs' \<Longrightarrow> (\<forall>r \<in> set rs. P r \<longrightarrow> f r \<noteq> None) \<and> rs' = map (\<lambda>r. if P r then the (f r) else r) rs"
  by (induction rs arbitrary: rs') (auto split: option.splits if_splits)

definition status_map :: "'f database \<Rightarrow> u32 \<Rightarrow> block_status option" where
  "status_map db = map_of (map (\<lambda>b. (blk_id b, blk_status b)) (tb_blocks db))"

lemma status_map_dom: "dom (status_map db) = blk_id ` set (tb_blocks db)"
  by (force simp: status_map_def dom_map_of_conv_image_fst)

lemma status_map_update:
  "status_map (UpdateBlockStatus True i s db) = (\<lambda>j. if j = i \<and> status_map db j \<noteq> None then Some s else status_map db j)"
proof -
  have "map_of (map (\<lambda>b. (blk_id b, blk_status b)) (map (\<lambda>b. if blk_id b = i then b\<lparr>blk_status := s\<rparr> else b) bs)) j =
      (if j = i \<and> map_of (map (\<lambda>b. (blk_id b, blk_status b)) bs) j \<noteq> None then Some s else map_of (map (\<lambda>b. (blk_id b, blk_status b)) bs) j)"
    for bs :: "'a block_row list" and j
    by (induction bs) auto
  then show ?thesis by (intro ext) (auto simp: status_map_def UpdateBlockStatus_def)
qed

lemma UpdateBlockStatus_keeps [simp]:
  "tb_miners (UpdateBlockStatus up i s db) = tb_miners db" "tb_rewards (UpdateBlockStatus up i s db) = tb_rewards db"
  "tb_payouts (UpdateBlockStatus up i s db) = tb_payouts db" "tb_entries (UpdateBlockStatus up i s db) = tb_entries db"
  "next_block_id (UpdateBlockStatus up i s db) = next_block_id db" "next_payout_id (UpdateBlockStatus up i s db) = next_payout_id db"
  "map blk_id (tb_blocks (UpdateBlockStatus up i s db)) = map blk_id (tb_blocks db)"
  by (auto simp: UpdateBlockStatus_def)

section \<open>What is owed\<close>

definition owed :: "'f database \<Rightarrow> (block_status option \<Rightarrow> bool) \<Rightarrow> u32 \<Rightarrow> nat" where
  "owed db S m = sum_list (map (\<lambda>w. if rw_miner w = m \<and> S (status_map db (rw_block w)) then rw_amount w else 0) (tb_rewards db))"

definition immature :: "block_status option \<Rightarrow> bool" where
  "immature s \<longleftrightarrow> s = Some PENDING \<or> s = Some PENDING_ORPHANED"

definition confirmed :: "block_status option \<Rightarrow> bool" where
  "confirmed s \<longleftrightarrow> s = Some CONFIRMED"

definition fee_share :: "'f database \<Rightarrow> u32 \<Rightarrow> nat" where
  "fee_share db i = (case find (\<lambda>p. po_id p = i) (tb_payouts db) of None \<Rightarrow> 0 | Some p \<Rightarrow> po_tx_fee p div unat (po_payees p))"

text \<open>What a miner has been paid, with its share of the fees.\<close>

definition debited :: "'f database \<Rightarrow> u32 \<Rightarrow> nat" where
  "debited db m = sum_list (map (\<lambda>e. if en_miner e = m then en_amount e + fee_share db (en_payout e) else 0) (tb_entries db))"

definition records_ok :: "'f database \<Rightarrow> bool" where
  "records_ok db \<longleftrightarrow> distinct (map row_miner (tb_miners db)) \<and> 0 \<notin> row_miner ` set (tb_miners db) \<and>
     distinct (map blk_id (tb_blocks db)) \<and> (\<forall>i \<in> blk_id ` set (tb_blocks db). i < next_block_id db) \<and>
     (\<forall>w \<in> set (tb_rewards db). rw_block w \<in> blk_id ` set (tb_blocks db) \<and> rw_miner w \<in> row_miner ` set (tb_miners db)) \<and>
     distinct (map (\<lambda>w. (rw_miner w, rw_block w)) (tb_rewards db)) \<and> (\<forall>i \<in> po_id ` set (tb_payouts db). i < next_payout_id db) \<and>
     (\<forall>e \<in> set (tb_entries db). en_payout e \<in> po_id ` set (tb_payouts db) \<and> en_miner e \<in> row_miner ` set (tb_miners db))"

definition ledger_wf :: "'f database \<Rightarrow> bool" where
  "ledger_wf db \<longleftrightarrow> records_ok db \<and> (\<forall>m. owed db (\<lambda>s. True) m < 2 ^ 64)"

definition balanced :: "'f database \<Rightarrow> bool" where
  "balanced db \<longleftrightarrow> (\<forall>r \<in> set (tb_miners db). immature_balance r = owed db immature (row_miner r) \<and>
     mature_balance r + debited db (row_miner r) = owed db confirmed (row_miner r))"

lemma reward_sum:
  assumes "distinct (map (\<lambda>w. (rw_miner w, rw_block w)) ws)"
  shows "sum_list (map (\<lambda>w. if rw_miner w = m \<and> rw_block w = i then rw_amount w else 0) ws) =
    (case reward_of m i ws of None \<Rightarrow> 0 | Some w \<Rightarrow> rw_amount w)"
  using assms
proof (induction ws)
  case (Cons w ws)
  show ?case
  proof (cases "rw_miner w = m \<and> rw_block w = i")
    case True
    then have "\<forall>v \<in> set ws. \<not> (rw_miner v = m \<and> rw_block v = i)" using Cons.prems by (force simp: image_iff)
    then have "sum_list (map (\<lambda>v. if rw_miner v = m \<and> rw_block v = i then rw_amount v else 0) ws) = 0" by auto
    then show ?thesis using True by (simp add: reward_of_def)
  next
    case False
    then have "\<not> (rw_miner w = m \<and> rw_block w = i)" by simp
    then show ?thesis using Cons by (auto simp: reward_of_def)
  qed
qed (simp add: reward_of_def)

text \<open>The part of what is owed that does not depend on one block, and the part that does.\<close>

definition owed_except :: "'f database \<Rightarrow> u32 \<Rightarrow> (block_status option \<Rightarrow> bool) \<Rightarrow> u32 \<Rightarrow> nat" where
  "owed_except db i S m =
    sum_list (map (\<lambda>w. if rw_miner w = m \<and> rw_block w \<noteq> i \<and> S (status_map db (rw_block w)) then rw_amount w else 0) (tb_rewards db))"

definition reward_amount :: "'f database \<Rightarrow> u32 \<Rightarrow> u32 \<Rightarrow> nat" where
  "reward_amount db m i = (case reward_of m i (tb_rewards db) of None \<Rightarrow> 0 | Some w \<Rightarrow> rw_amount w)"

lemma owed_split:
  assumes "distinct (map (\<lambda>w. (rw_miner w, rw_block w)) (tb_rewards db))"
  shows "owed db S m = owed_except db i S m + (if S (status_map db i) then reward_amount db m i else 0)"
proof -
  have "(\<Sum>w\<leftarrow>ws. if rw_miner w = m \<and> S (st (rw_block w)) then rw_amount w else 0) =
    (\<Sum>w\<leftarrow>ws. if rw_miner w = m \<and> rw_block w \<noteq> i \<and> S (st (rw_block w)) then rw_amount w else 0) +
    (if S (st i) then \<Sum>w\<leftarrow>ws. if rw_miner w = m \<and> rw_block w = i then rw_amount w else 0 else 0)"
    for ws :: "'a reward_row list" and st by (induction ws) auto
  then show ?thesis unfolding owed_def owed_except_def reward_amount_def using reward_sum [OF assms] by simp
qed

section \<open>The watcher keeps the ledger\<close>

text \<open>What a database says about rewards and payouts, apart from the balances and the status of blocks.\<close>

definition same_records :: "'f database \<Rightarrow> 'f database \<Rightarrow> bool" where
  "same_records db db' \<longleftrightarrow> map row_miner (tb_miners db') = map row_miner (tb_miners db) \<and> map blk_id (tb_blocks db') = map blk_id (tb_blocks db) \<and>
     tb_rewards db' = tb_rewards db \<and> tb_payouts db' = tb_payouts db \<and> tb_entries db' = tb_entries db \<and>
     next_block_id db' = next_block_id db \<and> next_payout_id db' = next_payout_id db"

lemma same_records_wf:
  assumes "same_records db db'" and "ledger_wf db"
  shows "ledger_wf db'"
proof -
  have "row_miner ` set (tb_miners db') = row_miner ` set (tb_miners db)" "blk_id ` set (tb_blocks db') = blk_id ` set (tb_blocks db)"
    using assms(1) by (metis same_records_def list.set_map)+
  then show ?thesis using assms by (simp add: ledger_wf_def records_ok_def same_records_def owed_def)
qed

lemma same_records_status [simp]: "same_records db (UpdateBlockStatus up i s db)"
  by (simp add: same_records_def)

lemma same_records_trans: "same_records a b \<Longrightarrow> same_records b c \<Longrightarrow> same_records a c"
  by (simp add: same_records_def)

lemma fee_share_same: "tb_payouts db' = tb_payouts db \<Longrightarrow> fee_share db' = fee_share db"
  by (simp add: fee_share_def fun_eq_iff)

lemma debited_same:
  assumes "same_records db db'"
  shows "debited db' m = debited db m"
proof -
  have "fee_share db' = fee_share db" using assms by (intro fee_share_same) (simp add: same_records_def)
  then show ?thesis using assms by (simp add: debited_def same_records_def cong: if_cong)
qed

lemma owed_except_status: "tb_rewards db' = tb_rewards db \<Longrightarrow> (\<And>j. j \<noteq> i \<Longrightarrow> status_map db' j = status_map db j) \<Longrightarrow>
    owed_except db' i S m = owed_except db i S m"
  unfolding owed_except_def by (auto intro!: arg_cong [of _ _ sum_list] map_cong)

lemma wf_distinct: "ledger_wf db \<Longrightarrow> distinct (map (\<lambda>w. (rw_miner w, rw_block w)) (tb_rewards db))"
  by (simp add: ledger_wf_def records_ok_def)

lemma owed_le: "owed db S m \<le> owed db (\<lambda>s. True) m"
  unfolding owed_def by (auto intro: sum_list_mono)

lemma orphan_pending:
  assumes "ledger_wf db" and "balanced db" and "immature (status_map db i)"
  shows "balanced (UpdateBlockStatus True i PENDING_ORPHANED db)"
proof -
  have "owed (UpdateBlockStatus True i PENDING_ORPHANED db) S m = owed db S m" if "S \<in> {immature, confirmed}" for S m
    using that assms(3) unfolding owed_def by (auto simp: status_map_update immature_def confirmed_def intro!: arg_cong [of _ _ sum_list] map_cong)
  then show ?thesis
    using assms(2) by (auto simp: balanced_def debited_same [OF same_records_status])
qed

lemma decide_block:
  assumes wf: "ledger_wf db" and bal: "balanced db" and im: "immature (status_map db i)" and s: "s \<in> {CONFIRMED, ORPHANED}"
  defines "db' \<equiv> UpdateBlockStatus True i s (UpdateImmatureRewards True i s db)"
  shows "same_records db db'" "balanced db'" "status_map db' = (status_map db)(i \<mapsto> s)"
    "tb_miners db' = map (\<lambda>r. r\<lparr>immature_balance := immature_balance r - reward_amount db (row_miner r) i,
      mature_balance := mature_balance r + (if s = CONFIRMED then reward_amount db (row_miner r) i else 0)\<rparr>) (tb_miners db)"
proof -
  note split = owed_split [OF wf_distinct [OF wf], where i = i]
  let ?a = "\<lambda>r. reward_amount db (row_miner r) i"
  have owed: "immature_balance r = owed_except db i immature (row_miner r) + ?a r"
      "mature_balance r + debited db (row_miner r) = owed_except db i confirmed (row_miner r)" if "r \<in> set (tb_miners db)" for r
    using bal that im split [of immature "row_miner r"] split [of confirmed "row_miner r"]
    by (auto simp: balanced_def immature_def confirmed_def)
  have range: "mature_balance r + ?a r < 2 ^ 64" if "r \<in> set (tb_miners db)" for r
  proof -
    have "owed_except db i confirmed (row_miner r) \<le> owed_except db i (\<lambda>s. True) (row_miner r)"
      unfolding owed_except_def by (auto intro: sum_list_mono)
    then have "mature_balance r + ?a r \<le> owed db (\<lambda>s. True) (row_miner r)"
      using owed(2) [OF that] split [of "\<lambda>s. True" "row_miner r"] by simp
    then show ?thesis using wf by (metis ledger_wf_def le_less_trans)
  qed
  have "update_where (\<lambda>r. reward_of (row_miner r) i (tb_rewards db) \<noteq> None)
      (\<lambda>r. mature_row (rw_amount (the (reward_of (row_miner r) i (tb_rewards db)))) s r) (tb_miners db) =
    Some (map (\<lambda>r. r\<lparr>immature_balance := immature_balance r - ?a r,
      mature_balance := mature_balance r + (if s = CONFIRMED then ?a r else 0)\<rparr>) (tb_miners db))"
    using owed range
    by (subst update_where_map) (fastforce simp: mature_row_def sub_col_def add_col_def reward_amount_def split: option.splits)+
  then have m: "tb_miners (UpdateImmatureRewards True i s db) = map (\<lambda>r. r\<lparr>immature_balance := immature_balance r - ?a r,
        mature_balance := mature_balance r + (if s = CONFIRMED then ?a r else 0)\<rparr>) (tb_miners db)"
    and same: "same_records db (UpdateImmatureRewards True i s db)" "tb_blocks (UpdateImmatureRewards True i s db) = tb_blocks db"
    using s by (auto simp: UpdateImmatureRewards_def proc_MatureRewards_def Let_def same_records_def split: option.splits)
  show same': "same_records db db'" unfolding db'_def by (rule same_records_trans [OF same(1) same_records_status])
  show m': "tb_miners db' = map (\<lambda>r. r\<lparr>immature_balance := immature_balance r - ?a r,
        mature_balance := mature_balance r + (if s = CONFIRMED then ?a r else 0)\<rparr>) (tb_miners db)"
    by (simp add: db'_def m)
  show st: "status_map db' = (status_map db)(i \<mapsto> s)"
    using im same(2) unfolding db'_def status_map_update by (auto simp: status_map_def immature_def)
  have rw: "tb_rewards db' = tb_rewards db" using same' by (simp add: same_records_def)
  have "owed db' S m = owed_except db i S m + (if S (Some s) then reward_amount db m i else 0)" for S m
    using owed_split [of db' S m i] wf_distinct [OF wf] owed_except_status [of db' db i S m] rw by (simp add: st reward_amount_def)
  then show "balanced db'"
    using owed s by (auto simp: balanced_def m' debited_same [OF same'] immature_def confirmed_def)
qed

text \<open>The status a check gives to a block it has just loaded, and whether the block stays undecided.\<close>

definition verdict :: "(u8 list \<times> u32) option \<Rightarrow> u32 \<Rightarrow> block_overview \<Rightarrow> block_status" where
  "verdict ans current_height s =
    (case ans of None \<Rightarrow> last_status s
     | Some (hash, depth) \<Rightarrow>
         if ov_height s + COINBASE_MATURITY < current_height
         then if ov_hash s = hash \<and> 10 < sint depth then CONFIRMED else ORPHANED
         else if ov_hash s = hash then last_status s else PENDING_ORPHANED)"

lemma check_one_ledger:
  assumes "ledger_wf db" and "balanced db" and "status_map db (ov_id s) = Some (last_status s)" and "immature (Some (last_status s))"
    and "check_one (\<lambda>k. True) ans current_height s db = (keep, db')"
  shows "same_records db db' \<and> balanced db' \<and> status_map db' = (status_map db)(ov_id s \<mapsto> verdict ans current_height s) \<and>
    (keep \<longleftrightarrow> immature (Some (verdict ans current_height s)))"
proof (cases ans)
  case None
  then show ?thesis using assms by (auto simp: check_one_def verdict_def same_records_def)
next
  case (Some a)
  obtain hash depth where a: "ans = Some (hash, depth)" using Some by (cases a) simp
  let ?i = "ov_id s" and ?differs = "ov_hash s \<noteq> hash \<and> last_status s \<noteq> PENDING_ORPHANED"
  let ?db1 = "if ?differs then UpdateBlockStatus True ?i PENDING_ORPHANED db else db"
  let ?v = "if ov_hash s = hash \<and> 10 < sint depth then CONFIRMED else ORPHANED"
  have im: "immature (status_map db ?i)" using assms(3,4) by simp
  have same: "same_records db ?db1" and bal: "balanced ?db1"
    using orphan_pending [OF assms(1,2) im] assms(2) by (auto simp: same_records_def)
  have st: "status_map ?db1 = (status_map db)(?i \<mapsto> if ov_hash s = hash then last_status s else PENDING_ORPHANED)"
    using assms(3,4) by (auto simp: status_map_update fun_eq_iff)
  have im1: "immature (status_map ?db1 ?i)" using assms(4) by (auto simp: st immature_def)
  note d = decide_block [OF same_records_wf [OF same assms(1)] bal im1, of ?v]
  show ?thesis
  proof (cases "ov_height s + COINBASE_MATURITY < current_height")
    case True
    then have "keep = False" "db' = UpdateBlockStatus True ?i ?v (UpdateImmatureRewards True ?i ?v ?db1)"
      using assms(5) by (auto simp: check_one_def a Let_def COINBASE_MATURITY_def split: if_splits)
    then show ?thesis
      using d(1-3) same_records_trans [OF same d(1)] True by (auto simp: verdict_def a st immature_def)
  next
    case False
    then have "keep = True" "db' = ?db1" using assms(5) by (auto simp: check_one_def a Let_def)
    then show ?thesis using same bal st False assms(4) by (auto simp: verdict_def a immature_def)
  qed
qed

lemma check_loop_ledger:
  assumes "ledger_wf db" and "balanced db" and "distinct (map ov_id subs)"
    and "\<And>s. s \<in> set subs \<Longrightarrow> status_map db (ov_id s) = Some (last_status s) \<and> immature (Some (last_status s))"
  shows "same_records db (snd (check_loop (\<lambda>n k. True) header h n subs db)) \<and>
    balanced (snd (check_loop (\<lambda>n k. True) header h n subs db)) \<and>
    status_map (snd (check_loop (\<lambda>n k. True) header h n subs db)) =
      status_map db ++ map_of (map (\<lambda>(k, s). (ov_id s, verdict (header k (ov_height s)) h s)) (enumerate n subs))"
  using assms
proof (induction subs arbitrary: n db)
  case (Cons s subs)
  obtain keep db1 where c: "check_one (\<lambda>k. True) (header n (ov_height s)) h s db = (keep, db1)" by fastforce
  have s: "status_map db (ov_id s) = Some (last_status s)" "immature (Some (last_status s))" using Cons.prems(4) by simp_all
  note one = check_one_ledger [OF Cons.prems(1,2) s c]
  have "status_map db1 (ov_id t) = Some (last_status t) \<and> immature (Some (last_status t))" if "t \<in> set subs" for t
    using one Cons.prems(3,4) that by (auto simp: rev_image_eqI)
  then have ih: "same_records db1 (snd (check_loop (\<lambda>n k. True) header h (n + 1) subs db1)) \<and>
      balanced (snd (check_loop (\<lambda>n k. True) header h (n + 1) subs db1)) \<and>
      status_map (snd (check_loop (\<lambda>n k. True) header h (n + 1) subs db1)) =
        status_map db1 ++ map_of (map (\<lambda>(k, s). (ov_id s, verdict (header k (ov_height s)) h s)) (enumerate (n + 1) subs))"
    using Cons.prems(3) one same_records_wf [OF _ Cons.prems(1)] by (intro Cons.IH) auto
  have "ov_id s \<notin> dom (map_of (map (\<lambda>(k, s). (ov_id s, verdict (header k (ov_height s)) h s)) (enumerate (Suc n) subs)))"
  proof -
    have "map ov_id (map snd (enumerate (Suc n) subs)) = map ov_id subs" by (simp only: map_snd_enumerate)
    then have "ov_id ` snd ` set (enumerate (Suc n) subs) = ov_id ` set subs" by (metis list.set_map)
    then show ?thesis using Cons.prems(3) by (auto simp: dom_map_of_conv_image_fst image_image case_prod_beta)
  qed
  note upd = map_add_upd_left [OF this]
  have "snd (check_loop (\<lambda>n k. True) header h n (s # subs) db) = snd (check_loop (\<lambda>n k. True) header h (n + 1) subs db1)"
    by (simp add: c case_prod_beta Let_def)
  moreover have "map_of (map (\<lambda>(k, s). (ov_id s, verdict (header k (ov_height s)) h s)) (enumerate n (s # subs))) =
      (map_of (map (\<lambda>(k, s). (ov_id s, verdict (header k (ov_height s)) h s)) (enumerate (Suc n) subs)))
        (ov_id s \<mapsto> verdict (header n (ov_height s)) h s)" by simp
  ultimately show ?case
    using ih one same_records_trans [of db db1] by (simp only: upd map_add_upd) (simp add: upd)
qed (simp add: same_records_def)

section \<open>Payouts keep the ledger\<close>

text \<open>The number of statements that reach the database before the first one that does not.\<close>

fun leading :: "(nat \<Rightarrow> bool) \<Rightarrow> nat \<Rightarrow> nat" where
  "leading up 0 = 0"
| "leading up (Suc n) = (if up 0 then Suc (leading (\<lambda>k. up (k + 1)) n) else 0)"

lemma leading_le: "leading up n \<le> n"
  by (induction n arbitrary: up) auto

lemma leading_all: "leading (\<lambda>k. True) n = n"
  by (induction n) simp_all

definition debit :: "payee list \<Rightarrow> miner_row \<Rightarrow> miner_row" where
  "debit ps r = (if row_miner r \<in> pay_miner ` set ps then r\<lparr>mature_balance := 0\<rparr> else r)"

definition entry_of :: "u32 \<Rightarrow> payee \<Rightarrow> entry_row" where
  "entry_of i p = \<lparr>en_payout = i, en_miner = pay_miner p, en_amount = unat (amount_clean p)\<rparr>"

lemma debit_miner [simp]: "row_miner (debit ps r) = row_miner r" "immature_balance (debit ps r) = immature_balance r"
  by (simp_all add: debit_def)

lemma debit_one: "debit [p] r = (if row_miner r = pay_miner p then r\<lparr>mature_balance := 0\<rparr> else r)"
  by (simp add: debit_def)

text \<open>A payee is asked for exactly what its row has.\<close>

definition payees_fit :: "nat \<Rightarrow> payee list \<Rightarrow> miner_row list \<Rightarrow> bool" where
  "payees_fit fee ps ms \<longleftrightarrow> distinct (map pay_miner ps) \<and> (\<forall>p \<in> set ps. pay_miner p \<in> row_miner ` set ms \<and>
     (\<forall>r \<in> set ms. row_miner r = pay_miner p \<longrightarrow> mature_balance r = unat (amount_clean p) + fee \<and> mature_balance r < 2 ^ 64))"

lemma payees_fit_Cons:
  assumes "payees_fit fee (p # ps) ms"
  shows "payees_fit fee ps (map (debit [p]) ms)"
proof -
  have "pay_miner p \<notin> pay_miner ` set ps" using assms by (simp add: payees_fit_def)
  then have other: "debit [p] r = r" if "row_miner r = pay_miner q" "q \<in> set ps" for q r
    using that by (metis debit_one image_eqI)
  have rows: "row_miner ` set (map (debit [p]) ms) = row_miner ` set ms" by (simp add: image_image)
  have fit: "mature_balance r = unat (amount_clean q) + fee \<and> mature_balance r < 2 ^ 64"
    if h: "q \<in> set ps" "r \<in> set (map (debit [p]) ms)" "row_miner r = pay_miner q" for q r
  proof -
    obtain r0 where "r = debit [p] r0" "r0 \<in> set ms" using h(2) by auto
    then have "r \<in> set ms" using other h by (metis debit_miner(1))
    then show ?thesis using assms h unfolding payees_fit_def by (meson list.set_intros(2))
  qed
  show ?thesis using assms fit unfolding payees_fit_def rows by (metis distinct.simps(2) list.set_intros(2) list.simps(9))
qed

lemma AddPayout_entry:
  assumes "payees_fit fee (p # ps) (tb_miners db)" and "i \<in> po_id ` set (tb_payouts db)"
  shows "proc_AddPayoutEntry i (pay_miner p) (unat (amount_clean p)) fee db =
    (True, db\<lparr>tb_miners := map (debit [p]) (tb_miners db), tb_entries := tb_entries db @ [entry_of i p]\<rparr>)"
proof -
  have "update_where (\<lambda>r. row_miner r = pay_miner p) (\<lambda>r. case add_col 64 (unat (amount_clean p)) fee of None \<Rightarrow> None
      | Some d \<Rightarrow> map_option (\<lambda>v. r\<lparr>mature_balance := v\<rparr>) (sub_col (mature_balance r) d)) (tb_miners db) =
    Some (map (debit [p]) (tb_miners db))"
    using assms(1) by (subst update_where_map) (auto simp: payees_fit_def add_col_def sub_col_def debit_def)
  then show ?thesis
    using assms by (simp add: proc_AddPayoutEntry_def payees_fit_def entry_of_def)
qed

lemma debit_debit: "debit ps (debit [p] r) = debit (p # ps) r"
  by (simp add: debit_def)

lemma AddPayout_entries_rows:
  assumes "payees_fit fee ps (tb_miners db)" and "i \<in> po_id ` set (tb_payouts db)"
  shows "snd (AddPayout_entries up i fee ps db) = db\<lparr>tb_miners := map (debit (take (leading up (length ps)) ps)) (tb_miners db),
    tb_entries := tb_entries db @ map (entry_of i) (take (leading up (length ps)) ps)\<rparr>"
  using assms
proof (induction ps arbitrary: up db)
  case Nil
  have "debit [] = (\<lambda>r. r)" by (simp add: debit_def fun_eq_iff)
  then show ?case by simp
next
  case (Cons p ps)
  have "debit [] = (\<lambda>r. r)" by (simp add: debit_def fun_eq_iff)
  then show ?case
    using Cons.prems Cons.IH [of "db\<lparr>tb_miners := map (debit [p]) (tb_miners db), tb_entries := tb_entries db @ [entry_of i p]\<rparr>"]
      payees_fit_Cons [OF Cons.prems(1)]
    by (simp add: AddPayout_entry debit_debit comp_def)
qed

lemma payees_sum:
  assumes "payees_fit fee ps ms" and "r \<in> set ms"
  shows "(\<Sum>p\<leftarrow>ps. if pay_miner p = row_miner r then unat (amount_clean p) + fee else 0) =
    (if row_miner r \<in> pay_miner ` set ps then mature_balance r else 0)"
proof -
  have fit: "unat (amount_clean p) + fee = mature_balance r" if "p \<in> set ps" "pay_miner p = row_miner r" for p
    using assms that unfolding payees_fit_def by metis
  have "distinct (map pay_miner ps)" using assms(1) by (simp add: payees_fit_def)
  then have "(\<Sum>p\<leftarrow>ps. if pay_miner p = row_miner r then mature_balance r else 0) =
      (if row_miner r \<in> pay_miner ` set ps then mature_balance r else 0)"
    by (induction ps) (auto simp: image_iff)
  moreover have "map (\<lambda>p. if pay_miner p = row_miner r then unat (amount_clean p) + fee else 0) ps =
      map (\<lambda>p. if pay_miner p = row_miner r then mature_balance r else 0) ps"
    using fit by (intro map_cong) simp_all
  ultimately show ?thesis by (simp only:)
qed

lemma payees_fit_take: "payees_fit fee ps ms \<Longrightarrow> payees_fit fee (take k ps) ms"
  unfolding payees_fit_def by (metis distinct_take in_set_takeD take_map)

lemma owed_miners [simp]:
  "owed (db\<lparr>tb_miners := ms\<rparr>) S m = owed db S m" "owed (db\<lparr>tb_entries := es\<rparr>) S m = owed db S m"
  by (simp_all add: owed_def status_map_def cong: if_cong)

lemma entries_balanced:
  assumes "balanced db" and "payees_fit (fee_share db i) ps (tb_miners db)"
  shows "balanced (db\<lparr>tb_miners := map (debit ps) (tb_miners db), tb_entries := tb_entries db @ map (entry_of i) ps\<rparr>)"
    (is "balanced ?db")
proof -
  have fee: "fee_share ?db = fee_share db" by (rule fee_share_same) simp
  have deb: "debited ?db m = debited db m + (\<Sum>p\<leftarrow>ps. if pay_miner p = m then unat (amount_clean p) + fee_share db i else 0)" for m
    unfolding debited_def fee by (simp add: entry_of_def comp_def cong: if_cong)
  have "mature_balance (debit ps r) + debited ?db (row_miner r) = mature_balance r + debited db (row_miner r)"
    if "r \<in> set (tb_miners db)" for r
    unfolding deb payees_sum [OF assms(2) that] by (simp add: debit_def)
  then show ?thesis using assms(1) by (simp add: balanced_def)
qed

lemma AddPayout_row_balanced:
  assumes "records_ok db" and "balanced db" and "proc_AddPayout txid n paid fee t db = (ok, db')"
  shows "balanced db'" "tb_miners db' = tb_miners db" "tb_entries db' = tb_entries db" "tb_rewards db' = tb_rewards db"
    "tb_blocks db' = tb_blocks db" "next_block_id db' = next_block_id db" "next_payout_id db' = next_payout_id db + 1"
    "po_id ` set (tb_payouts db') = insert (next_payout_id db) (po_id ` set (tb_payouts db))"
    "last_insert_id db' = next_payout_id db" "fee_share db' (next_payout_id db) = fee div unat n"
proof -
  let ?row = "\<lparr>po_id = next_payout_id db, po_txid = txid, po_payees = n, po_amount = paid, po_tx_fee = fee, po_time_ms = t\<rparr>"
  show keeps: "tb_miners db' = tb_miners db" "tb_entries db' = tb_entries db" "tb_rewards db' = tb_rewards db"
    "tb_blocks db' = tb_blocks db" "next_block_id db' = next_block_id db" "next_payout_id db' = next_payout_id db + 1"
    "last_insert_id db' = next_payout_id db" "po_id ` set (tb_payouts db') = insert (next_payout_id db) (po_id ` set (tb_payouts db))"
    using assms(3) by (auto simp: proc_AddPayout_def Let_def split: option.splits)
  have p: "tb_payouts db' = tb_payouts db @ [?row]"
    using assms(3) by (auto simp: proc_AddPayout_def Let_def split: option.splits)
  have fresh: "next_payout_id db \<notin> po_id ` set (tb_payouts db)" using assms(1) by (auto simp: records_ok_def)
  then have "find (\<lambda>p. po_id p = next_payout_id db) (tb_payouts db) = None" by (auto simp: find_None_iff image_iff)
  moreover have find_app: "find Q (xs @ ys) = (case find Q xs of None \<Rightarrow> find Q ys | Some x \<Rightarrow> Some x)" for Q :: "payout_row \<Rightarrow> bool" and xs ys
    by (induction xs) auto
  ultimately show "fee_share db' (next_payout_id db) = fee div unat n" by (simp add: fee_share_def p)
  have "fee_share db' (en_payout e) = fee_share db (en_payout e)" if "e \<in> set (tb_entries db)" for e
  proof -
    have "en_payout e \<in> po_id ` set (tb_payouts db)" using assms(1) that by (simp add: records_ok_def)
    then have "find (\<lambda>p. po_id p = en_payout e) (tb_payouts db) \<noteq> None" by (auto simp: find_None_iff image_iff)
    then show ?thesis by (auto simp: fee_share_def p find_app)
  qed
  then have "debited db' m = debited db m" for m
    unfolding debited_def keeps by (intro arg_cong [of _ _ sum_list] map_cong) simp_all
  moreover have "owed db' S m = owed db S m" for S m using keeps by (simp add: owed_def status_map_def cong: if_cong)
  ultimately show "balanced db'" using assms(2) keeps by (simp add: balanced_def)
qed

definition payable :: "miner_row \<Rightarrow> bool" where
  "payable r \<longleftrightarrow> PAYOUT_TX_FEE < mature_balance r \<and> minimum_payout r < mature_balance r"

definition payees_of :: "'f database \<Rightarrow> payee list" where
  "payees_of db = (let rs = filter payable (tb_miners db); fee = PAYOUT_TX_FEE div length rs
     in map (\<lambda>r. \<lparr>pay_miner = row_miner r, amount_clean = of_nat (mature_balance r - fee), pay_address = row_address r\<rparr>) rs)"

lemma length_payees_of: "length (payees_of db) = length (filter payable (tb_miners db))"
  by (simp add: payees_of_def Let_def)

lemma mature_range: "ledger_wf db \<Longrightarrow> balanced db \<Longrightarrow> r \<in> set (tb_miners db) \<Longrightarrow> mature_balance r < 2 ^ 64"
  by (metis balanced_def ledger_wf_def le_add1 le_less_trans order_trans owed_le)

lemma payees_of_fit:
  assumes "ledger_wf db" and "balanced db"
  shows "payees_fit (PAYOUT_TX_FEE div length (payees_of db)) (payees_of db) (tb_miners db)"
proof -
  let ?fee = "PAYOUT_TX_FEE div length (payees_of db)"
  have d: "distinct (map row_miner (tb_miners db))" using assms(1) by (simp add: ledger_wf_def records_ok_def)
  have "mature_balance r = unat (of_nat (mature_balance r - ?fee) :: u64) + ?fee" if "r \<in> set (tb_miners db)" "payable r" for r
  proof -
    have "?fee \<le> PAYOUT_TX_FEE" by simp
    then have "?fee \<le> mature_balance r" using that(2) unfolding payable_def by linarith
    moreover have "mature_balance r < 2 ^ 64" using mature_range [OF assms that(1)] .
    moreover from this have "unat (of_nat (mature_balance r - ?fee) :: u64) = mature_balance r - ?fee"
      by (intro of_nat_inverse [OF refl]) simp
    ultimately show ?thesis by (simp only: le_add_diff_inverse2)
  qed
  moreover have "r = r'" if "r \<in> set (tb_miners db)" "r' \<in> set (tb_miners db)" "row_miner r = row_miner r'" for r r'
    using d that by (simp add: distinct_map inj_on_def)
  moreover have "distinct (map pay_miner (payees_of db))"
    using d by (simp add: payees_of_def Let_def comp_def distinct_map inj_on_def)
  ultimately show ?thesis
    using mature_range [OF assms] unfolding payees_fit_def length_payees_of by (fastforce simp: payees_of_def Let_def)
qed

lemma miners_lt:
  assumes "records_ok db"
  shows "length (tb_miners db) < 2 ^ 32"
proof -
  have "row_miner ` set (tb_miners db) \<subseteq> UNIV - {0}" "distinct (map row_miner (tb_miners db))"
    using assms by (auto simp: records_ok_def)
  then have "card (row_miner ` set (tb_miners db)) \<le> card (UNIV - {0 :: u32})" by (intro card_mono) simp_all
  then show ?thesis using \<open>distinct (map row_miner (tb_miners db))\<close> distinct_card [of "map row_miner (tb_miners db)"]
    by (simp add: card_Diff_singleton card_word)
qed

text \<open>How many of the payees a payment debits: the payout itself has to be recorded first.\<close>

definition debited_count :: "(nat \<Rightarrow> bool) \<Rightarrow> u64 \<Rightarrow> 'f database \<Rightarrow> nat" where
  "debited_count up paid db =
    (if up 0 \<and> stat_payouts db + 1 < 2 ^ 32 \<and> stat_paid db + unat paid < 2 ^ 64 \<and> up 1
     then leading (\<lambda>k. up (k + 2)) (length (payees_of db)) else 0)"

lemma AddPayout_rows:
  fixes db :: "'f database" and up :: "nat \<Rightarrow> bool" and txid :: "u8 list" and paid t :: u64
  assumes "ledger_wf db" and "balanced db" and "0 < length (payees_of db)"
  defines "db' \<equiv> snd (AddPayout up txid paid PAYOUT_TX_FEE t (payees_of db) (PAYOUT_TX_FEE div length (payees_of db)) db)"
    and "ps \<equiv> take (debited_count up paid db) (payees_of db)"
  shows "balanced db'" "tb_miners db' = map (debit ps) (tb_miners db)" "tb_rewards db' = tb_rewards db" "tb_blocks db' = tb_blocks db"
    "tb_entries db' = tb_entries db @ map (entry_of (next_payout_id db)) ps" "next_block_id db' = next_block_id db"
    "ps \<noteq> [] \<Longrightarrow> next_payout_id db \<in> po_id ` set (tb_payouts db')"
    "tb_payouts db' = tb_payouts db \<and> next_payout_id db' = next_payout_id db \<or>
      po_id ` set (tb_payouts db') = insert (next_payout_id db) (po_id ` set (tb_payouts db)) \<and> next_payout_id db' = next_payout_id db + 1"
proof -
  let ?n = "length (payees_of db)"
  obtain ok db1 where a: "proc_AddPayout txid (of_nat ?n) (unat paid) PAYOUT_TX_FEE t db = (ok, db1)" by fastforce
  have ro: "records_ok db" using assms(1) by (simp add: ledger_wf_def)
  note row = AddPayout_row_balanced [OF ro assms(2) a]
  have ok: "ok \<longleftrightarrow> stat_payouts db + 1 < 2 ^ 32 \<and> stat_paid db + unat paid < 2 ^ 64"
    using a by (auto simp: proc_AddPayout_def Let_def add_col_def split: if_splits)
  have n: "unat (of_nat ?n :: u32) = ?n"
    using miners_lt [OF ro] le_less_trans [OF length_filter_le] by (intro of_nat_inverse [OF refl]) (simp add: length_payees_of)
  have fit: "payees_fit (fee_share db1 (next_payout_id db)) (payees_of db) (tb_miners db1)"
    using payees_of_fit [OF assms(1,2)] row(2,10) n by simp
  let ?k = "leading (\<lambda>k. up (k + 2)) ?n"
  have e: "snd (AddPayout_entries (\<lambda>k. up (k + 2)) (next_payout_id db) (PAYOUT_TX_FEE div ?n) (payees_of db) db1) =
      db1\<lparr>tb_miners := map (debit (take ?k (payees_of db))) (tb_miners db1),
        tb_entries := tb_entries db1 @ map (entry_of (next_payout_id db)) (take ?k (payees_of db))\<rparr>"
    using fit row(8,10) n by (intro AddPayout_entries_rows) simp_all
  have nil: "debit [] = (\<lambda>r. r)" by (simp add: debit_def fun_eq_iff)
  consider (down) "\<not> up 0" | (failed) "up 0" "\<not> ok \<or> \<not> up 1" | (all_up) "up 0" "ok" "up 1" by blast
  then have "db' = (if up 0 then if ok \<and> up 1 then db1\<lparr>tb_miners := map (debit ps) (tb_miners db1),
      tb_entries := tb_entries db1 @ map (entry_of (next_payout_id db)) ps\<rparr> else db1 else db) \<and> (ps \<noteq> [] \<longrightarrow> up 0 \<and> ok \<and> up 1)"
    using e ok row(9) by cases (auto simp: db'_def ps_def debited_count_def AddPayout_def a GetLastId_def nil split: if_splits bool.splits)
  moreover have "balanced (db1\<lparr>tb_miners := map (debit ps) (tb_miners db1), tb_entries := tb_entries db1 @ map (entry_of (next_payout_id db)) ps\<rparr>)"
    unfolding ps_def by (rule entries_balanced [OF row(1) payees_fit_take [OF fit]])
  ultimately show "balanced db'" "tb_miners db' = map (debit ps) (tb_miners db)" "tb_rewards db' = tb_rewards db" "tb_blocks db' = tb_blocks db"
    "tb_entries db' = tb_entries db @ map (entry_of (next_payout_id db)) ps" "next_block_id db' = next_block_id db"
    "ps \<noteq> [] \<Longrightarrow> next_payout_id db \<in> po_id ` set (tb_payouts db')"
    "tb_payouts db' = tb_payouts db \<and> next_payout_id db' = next_payout_id db \<or>
      po_id ` set (tb_payouts db') = insert (next_payout_id db) (po_id ` set (tb_payouts db)) \<and> next_payout_id db' = next_payout_id db + 1"
    using row assms(2) nil by (auto split: if_splits)
qed

lemma UpdateNextPayout_keeps [simp]:
  "tb_miners (UpdateNextPayout up ms db) = tb_miners db" "tb_rewards (UpdateNextPayout up ms db) = tb_rewards db"
  "tb_blocks (UpdateNextPayout up ms db) = tb_blocks db" "tb_payouts (UpdateNextPayout up ms db) = tb_payouts db"
  "tb_entries (UpdateNextPayout up ms db) = tb_entries db" "next_block_id (UpdateNextPayout up ms db) = next_block_id db"
  "next_payout_id (UpdateNextPayout up ms db) = next_payout_id db" "stat_paid (UpdateNextPayout up ms db) = stat_paid db"
  "stat_payouts (UpdateNextPayout up ms db) = stat_payouts db" "tb_workers (UpdateNextPayout up ms db) = tb_workers db"
  by (simp_all add: UpdateNextPayout_def)

lemma UpdateNextPayout_ledger [simp]:
  "ledger_wf (UpdateNextPayout up ms db) = ledger_wf db" "balanced (UpdateNextPayout up ms db) = balanced db"
  "payees_of (UpdateNextPayout up ms db) = payees_of db" "debited_count u paid (UpdateNextPayout up ms db) = debited_count u paid db"
proof -
  have same: "same_records db (UpdateNextPayout up ms db)" "same_records (UpdateNextPayout up ms db) db" by (simp_all add: same_records_def)
  show "ledger_wf (UpdateNextPayout up ms db) = ledger_wf db" using same same_records_wf by blast
  have "owed (UpdateNextPayout up ms db) S m = owed db S m" for S m by (simp add: owed_def status_map_def cong: if_cong)
  then show "balanced (UpdateNextPayout up ms db) = balanced db" by (simp add: balanced_def debited_same [OF same(1)])
  show p: "payees_of (UpdateNextPayout up ms db) = payees_of db" by (simp add: payees_of_def)
  show "debited_count u paid (UpdateNextPayout up ms db) = debited_count u paid db" by (simp add: debited_count_def p)
qed

lemma individual_fee:
  assumes "n < 2 ^ 32"
  shows "(of_nat PAYOUT_TX_FEE div of_nat n :: u64) = of_nat (PAYOUT_TX_FEE div n)" "unat (of_nat (PAYOUT_TX_FEE div n) :: u64) = PAYOUT_TX_FEE div n"
proof -
  have n: "unat (of_nat n :: u64) = n" using assms by (intro of_nat_inverse [OF refl]) simp
  have f: "unat (of_nat PAYOUT_TX_FEE :: u64) = PAYOUT_TX_FEE" by (intro of_nat_inverse [OF refl]) (simp add: PAYOUT_TX_FEE_def)
  show "(of_nat PAYOUT_TX_FEE div of_nat n :: u64) = of_nat (PAYOUT_TX_FEE div n)" by (simp add: word_arith_nat_div n f)
  have "PAYOUT_TX_FEE div n \<le> PAYOUT_TX_FEE" by simp
  also have "PAYOUT_TX_FEE < 2 ^ 64" by (simp add: PAYOUT_TX_FEE_def)
  finally show "unat (of_nat (PAYOUT_TX_FEE div n) :: u64) = PAYOUT_TX_FEE div n" by (intro of_nat_inverse [OF refl]) simp
qed

definition total_paid :: "u64 \<Rightarrow> payee list \<Rightarrow> u64" where
  "total_paid junk ps = foldl (\<lambda>t p. t + amount_clean p) junk ps"

lemma payout_round_eq:
  assumes "ledger_wf db"
  shows "payout_round up transfer junk interval (np, db) =
    (if \<not> up 0 then None
     else let db1 = UpdateNextPayout (up 1) ((np + interval) * 1000) db
       in case (if payees_of db = [] then None else transfer (payees_of db) PAYOUT_TX_FEE) of
            None \<Rightarrow> Some ([], np + interval, db1)
          | Some txid \<Rightarrow> Some (payees_of db, np + interval, snd (AddPayout (\<lambda>n. up (n + 2)) txid (total_paid junk (payees_of db)) PAYOUT_TX_FEE
              (np * 1000) (payees_of db) (PAYOUT_TX_FEE div length (payees_of db)) db1)))"
proof -
  let ?rs = "filter payable (tb_miners db)"
  let ?raw = "map (\<lambda>r. \<lparr>pay_miner = row_miner r, amount_clean = of_nat (mature_balance r), pay_address = row_address r\<rparr>) ?rs"
  have "filter (\<lambda>r. (if PAYOUT_TX_FEE < minimum_payout r then minimum_payout r else PAYOUT_TX_FEE) < mature_balance r) (tb_miners db) = ?rs"
    by (rule filter_cong [OF refl]) (auto simp: payable_def)
  then have load: "LoadUnpaidRewards True PAYOUT_TX_FEE db = Some ?raw"
    by (simp add: LoadUnpaidRewards_def proc_GetUnpaidRewards_def comp_def)
  have n: "length ?rs < 2 ^ 32"
    using miners_lt [of db] assms le_less_trans [OF length_filter_le] by (auto simp: ledger_wf_def)
  have "(of_nat (mature_balance r) - of_nat (PAYOUT_TX_FEE div length ?rs) :: u64) = of_nat (mature_balance r - PAYOUT_TX_FEE div length ?rs)"
    if "payable r" for r
  proof -
    have "PAYOUT_TX_FEE div length ?rs \<le> PAYOUT_TX_FEE" by simp
    then have "PAYOUT_TX_FEE div length ?rs \<le> mature_balance r" using that unfolding payable_def by linarith
    then show ?thesis by (simp only: of_nat_diff)
  qed
  then have "map (\<lambda>p. p\<lparr>amount_clean := amount_clean p - (of_nat PAYOUT_TX_FEE div of_nat (length ?raw))\<rparr>) ?raw = payees_of db"
    unfolding length_map individual_fee(1) [OF n] by (simp add: payees_of_def Let_def)
  moreover have "?raw = [] \<longleftrightarrow> payees_of db = []" by (simp add: payees_of_def Let_def)
  moreover have "unat (of_nat PAYOUT_TX_FEE div of_nat (length ?raw) :: u64) = PAYOUT_TX_FEE div length (payees_of db)"
    unfolding length_map length_payees_of individual_fee [OF n] ..
  ultimately show ?thesis
    unfolding payout_round_def prod.case total_paid_def
    by (cases "up 0") (simp_all add: load LoadUnpaidRewards_def [of False] Let_def split: option.splits del: length_map)
qed

section \<open>Closed rounds keep the ledger\<close>

lemma AddReward_ledger:
  assumes "records_ok db" and "balanced db" and "immature (status_map db i)"
    and "\<forall>w \<in> set (tb_rewards db). (rw_miner w, rw_block w) \<noteq> (m, i)" and "proc_AddReward m i a e db = (True, db')"
  shows "records_ok db'" "balanced db'" "tb_blocks db' = tb_blocks db" "tb_payouts db' = tb_payouts db" "next_payout_id db' = next_payout_id db"
    "next_block_id db' = next_block_id db"
    "tb_rewards db' = tb_rewards db @ [\<lparr>rw_miner = m, rw_block = i, rw_amount = a, rw_effort = e\<rparr>]"
proof -
  let ?f = "\<lambda>r. if row_miner r = m then r\<lparr>immature_balance := immature_balance r + a\<rparr> else r"
  obtain ms where fk: "m \<in> row_miner ` set (tb_miners db)" "i \<in> blk_id ` set (tb_blocks db)"
    and u: "update_where (\<lambda>r. row_miner r = m) (\<lambda>r. map_option (\<lambda>v. r\<lparr>immature_balance := v\<rparr>) (add_col 64 (immature_balance r) a))
        (tb_miners db) = Some ms"
    and db': "db' = db\<lparr>tb_rewards := tb_rewards db @ [\<lparr>rw_miner = m, rw_block = i, rw_amount = a, rw_effort = e\<rparr>], tb_miners := ms\<rparr>"
    using assms(5) by (auto simp: proc_AddReward_def Let_def split: if_splits option.splits)
  have ms: "ms = map ?f (tb_miners db)"
    using update_where_SomeD [OF u] by (auto simp: add_col_def split: if_splits)
  show "tb_blocks db' = tb_blocks db" "tb_payouts db' = tb_payouts db" "next_payout_id db' = next_payout_id db"
    "next_block_id db' = next_block_id db"
    "tb_rewards db' = tb_rewards db @ [\<lparr>rw_miner = m, rw_block = i, rw_amount = a, rw_effort = e\<rparr>]" by (simp_all add: db')
  have ids: "map row_miner ms = map row_miner (tb_miners db)" by (simp add: ms)
  then have "row_miner ` set ms = row_miner ` set (tb_miners db)" by (metis list.set_map)
  then show "records_ok db'" using assms(1,4) fk ids by (auto simp: records_ok_def db')
  have "owed db' S m' = owed db S m' + (if m' = m \<and> S (status_map db i) then a else 0)" for S m'
    by (auto simp: owed_def db' status_map_def cong: if_cong)
  moreover have "debited db' m' = debited db m'" for m'
    using fee_share_same [of db' db] by (simp add: debited_def db' cong: if_cong)
  ultimately show "balanced db'" using assms(2,3) by (auto simp: balanced_def db' ms immature_def confirmed_def)
qed

lemma AddRoundRewards_ledger:
  assumes "records_ok db" and "balanced db" and "immature (status_map db i)" and "distinct (map fst rs)"
    and "\<forall>w \<in> set (tb_rewards db). rw_block w = i \<longrightarrow> rw_miner w \<notin> fst ` set rs" and "AddRoundRewards up i rs db = (True, db')"
  shows "records_ok db' \<and> balanced db'"
  using assms
proof (induction rs arbitrary: up db)
  case (Cons p rs)
  obtain m r where p: "p = (m, r)" by fastforce
  obtain db1 where a: "proc_AddReward m i (unat (of_int (r_reward r) :: u64)) (r_effort r) db = (True, db1)"
    and rest: "AddRoundRewards (\<lambda>n. up (n + 1)) i rs db1 = (True, db')"
    using Cons.prems(6) by (auto simp: p split: if_splits prod.splits bool.splits)
  have "\<forall>w \<in> set (tb_rewards db). (rw_miner w, rw_block w) \<noteq> (m, i)" using Cons.prems(5) by (auto simp: p)
  note one = AddReward_ledger [OF Cons.prems(1-3) this a]
  have "status_map db1 = status_map db" by (simp add: status_map_def one(3))
  then show ?case
    using one Cons.prems(3-5) by (intro Cons.IH [OF _ _ _ _ _ rest]) (auto simp: p)
qed simp

lemma id_less:
  fixes w :: u32
  assumes "w \<noteq> - 1"
  shows "w < w + 1"
proof -
  have "w + 1 \<noteq> 0" using assms by (simp add: eq_neg_iff_add_eq_0)
  then have "unat (w + 1) = Suc (unat w)" by (metis unatSuc add.commute)
  then show ?thesis by (simp add: word_less_nat_alt)
qed

lemma AddBlock_ledger:
  assumes "records_ok db" and "balanced db" and "next_block_id db \<noteq> - 1"
    and "sub_worker bs \<in> set (tb_workers db)" and "sub_miner bs \<in> row_miner ` set (tb_miners db)"
    and "AddBlockSubmission F True True junk bs db = (bid, db')"
  shows "bid = Some (next_block_id db)" "records_ok db'" "balanced db'" "status_map db' (next_block_id db) = Some PENDING"
    "tb_rewards db' = tb_rewards db" "\<exists>b. tb_blocks db' = tb_blocks db @ [b] \<and> blk_id b = next_block_id db \<and> blk_status b = PENDING \<and>
      blk_hash b = HexlifyS (sub_hash bs) \<and> blk_height b = sub_height bs \<and> blk_reward b = sub_reward bs"
proof -
  let ?i = "next_block_id db"
  define b where "b = \<lparr>blk_id = ?i, blk_status = PENDING, blk_worker = sub_worker bs, blk_miner = sub_miner bs, blk_hash = HexlifyS (sub_hash bs),
    blk_reward = sub_reward bs, blk_time_ms = sub_time_ms bs, blk_duration_ms = sub_duration_ms bs, blk_height = sub_height bs,
    blk_difficulty = sub_difficulty bs, blk_effort_percent = sub_effort_percent bs\<rparr>"
  have keeps: "bid = Some ?i" "tb_miners db' = tb_miners db" "tb_rewards db' = tb_rewards db" "tb_payouts db' = tb_payouts db"
      "tb_entries db' = tb_entries db" "next_block_id db' = ?i + 1" "next_payout_id db' = next_payout_id db" "tb_blocks db' = tb_blocks db @ [b]"
    using assms(4-6) by (auto simp: AddBlockSubmission_def proc_AddBlock_def GetLastId_def Let_def b_def split: option.splits)
  have b: "blk_id b = ?i" "blk_status b = PENDING" "blk_hash b = HexlifyS (sub_hash bs)" "blk_height b = sub_height bs"
      "blk_reward b = sub_reward bs" "tb_blocks db' = tb_blocks db @ [b]" using keeps(8) by (simp_all add: b_def)
  show "bid = Some ?i" "tb_rewards db' = tb_rewards db" by fact+
  show "\<exists>b. tb_blocks db' = tb_blocks db @ [b] \<and> blk_id b = ?i \<and> blk_status b = PENDING \<and>
      blk_hash b = HexlifyS (sub_hash bs) \<and> blk_height b = sub_height bs \<and> blk_reward b = sub_reward bs" using b by blast
  have fresh: "?i \<notin> blk_id ` set (tb_blocks db)" using assms(1) by (auto simp: records_ok_def)
  have inc: "j < ?i \<Longrightarrow> j < ?i + 1" "?i < ?i + 1" for j using id_less [OF assms(3)] by (auto intro: order.strict_trans)
  show "records_ok db'"
    using assms(1) fresh inc by (auto simp: records_ok_def keeps b)
  have st: "status_map db' j = (if j = ?i then Some PENDING else status_map db j)" for j
  proof (cases "j = ?i")
    case True
    then have "status_map db j = None" using fresh status_map_dom [of db] by (metis domIff)
    then show ?thesis using True b by (auto simp: status_map_def map_add_def split: option.splits)
  qed (simp add: status_map_def b map_add_def split: option.splits)
  then show "status_map db' ?i = Some PENDING" by simp
  have "rw_block w \<noteq> ?i" if "w \<in> set (tb_rewards db)" for w using assms(1) fresh that by (metis records_ok_def)
  then have "owed db' S m = owed db S m" for S m
    unfolding owed_def keeps by (intro arg_cong [of _ _ sum_list] map_cong) (simp_all add: st)
  moreover have "debited db' m = debited db m" for m
    using fee_share_same [of db' db] by (simp add: debited_def keeps cong: if_cong)
  ultimately show "balanced db'" using assms(2) by (simp add: balanced_def keeps)
qed

section \<open>The states of the ledger\<close>

text \<open>
  What the programs of the pool do to the database, in any order: new miners and workers, rounds that are closed with rewards, checks of a
  watcher that has just been started, and payments, whatever the daemon and the wallet answer and whichever statements of a payment
  fail. The sum of all rewards of a miner is assumed to fit a balance.
\<close>

inductive ledger :: "'f float_ops \<Rightarrow> 'f database \<Rightarrow> bool" for F where
  Empty: "tb_miners db = [] \<Longrightarrow> tb_blocks db = [] \<Longrightarrow> tb_rewards db = [] \<Longrightarrow> tb_payouts db = [] \<Longrightarrow> tb_entries db = [] \<Longrightarrow> ledger F db"
| Miner: "ledger F db \<Longrightarrow> row_miner r \<notin> row_miner ` set (tb_miners db) \<Longrightarrow> row_miner r \<noteq> 0 \<Longrightarrow> mature_balance r = 0 \<Longrightarrow> immature_balance r = 0 \<Longrightarrow>
    ledger F (db\<lparr>tb_miners := tb_miners db @ [r]\<rparr>)"
| Worker: "ledger F db \<Longrightarrow> ledger F (db\<lparr>tb_workers := ws\<rparr>)"
| Closed: "ledger F db \<Longrightarrow> SetClosedRound F (\<lambda>k. True) junk bs rs db = (ROUND_OK, db') \<Longrightarrow> distinct (map fst rs) \<Longrightarrow>
    sub_worker bs \<in> set (tb_workers db) \<Longrightarrow> sub_miner bs \<in> row_miner ` set (tb_miners db) \<Longrightarrow> next_block_id db \<noteq> - 1 \<Longrightarrow>
    (\<forall>m. owed db' (\<lambda>s. True) m < 2 ^ 64) \<Longrightarrow> ledger F db'"
| Checked: "ledger F db \<Longrightarrow> ledger F (snd (CheckImmatureSubmissions up (\<lambda>n k. True) header h ([], db)))"
| Paid: "ledger F db \<Longrightarrow> payout_round up transfer junk interval (np, db) = Some (ps, np', db') \<Longrightarrow> next_payout_id db \<noteq> - 1 \<Longrightarrow> ledger F db'"

lemma miner_ledger:
  assumes "ledger_wf db" and "balanced db" and "row_miner r \<notin> row_miner ` set (tb_miners db)" and "row_miner r \<noteq> 0"
    and "mature_balance r = 0" and "immature_balance r = 0"
  shows "ledger_wf (db\<lparr>tb_miners := tb_miners db @ [r]\<rparr>) \<and> balanced (db\<lparr>tb_miners := tb_miners db @ [r]\<rparr>)"
proof -
  let ?db = "db\<lparr>tb_miners := tb_miners db @ [r]\<rparr>"
  have ro: "records_ok db" using assms(1) by (simp add: ledger_wf_def)
  have deb: "debited ?db m = debited db m" for m
    using fee_share_same [of ?db db] by (simp add: debited_def cong: if_cong)
  have "\<forall>w \<in> set (tb_rewards db). rw_miner w \<noteq> row_miner r" "\<forall>e \<in> set (tb_entries db). en_miner e \<noteq> row_miner r"
    using ro assms(3) by (metis records_ok_def)+
  then have "owed db S (row_miner r) = 0" "debited db (row_miner r) = 0" for S
    unfolding owed_def debited_def by (auto simp: sum_list_eq_0_iff)
  then show ?thesis
    using assms ro deb by (auto simp: ledger_wf_def records_ok_def balanced_def)
qed

lemma check_ledger:
  assumes "ledger_wf db" and "balanced db"
  shows "same_records db (snd (CheckImmatureSubmissions up (\<lambda>n k. True) header h ([], db))) \<and>
    balanced (snd (CheckImmatureSubmissions up (\<lambda>n k. True) header h ([], db)))"
proof -
  have d: "distinct (map blk_id (tb_blocks db))" using assms(1) by (simp add: ledger_wf_def records_ok_def)
  then have "status_map db (blk_id b) = Some (blk_status b)" if "b \<in> set (tb_blocks db)" for b
    unfolding status_map_def using that by (intro map_of_is_SomeI) (auto simp: comp_def)
  moreover have dist: "distinct (map ov_id (LoadImmatureBlocks up db []))"
    using d by (simp add: LoadImmatureBlocks_def overview_def comp_def distinct_map_filter)
  moreover have "s \<in> set (LoadImmatureBlocks up db []) \<Longrightarrow> \<exists>b \<in> set (tb_blocks db). s = overview b \<and> immature (Some (blk_status b))" for s
    by (auto simp: LoadImmatureBlocks_def immature_def split: if_splits)
  ultimately have "status_map db (ov_id s) = Some (last_status s) \<and> immature (Some (last_status s))" if "s \<in> set (LoadImmatureBlocks up db [])" for s
    using that by (fastforce simp: overview_def)
  then show ?thesis
    using check_loop_ledger [OF assms dist, of header h 0] by (simp add: CheckImmatureSubmissions_def)
qed

lemma payout_ledger:
  assumes "ledger_wf db" and "balanced db" and "payout_round up transfer junk interval (np, db) = Some (ps, np', db')" and "next_payout_id db \<noteq> - 1"
  shows "ledger_wf db' \<and> balanced db'"
proof (cases "ps = []")
  case True
  then have "db' = UpdateNextPayout (up 1) ((np + interval) * 1000) db"
    using assms(3) unfolding payout_round_eq [OF assms(1)] by (auto simp: Let_def split: option.splits if_splits)
  then show ?thesis using assms(1,2) by simp
next
  case False
  let ?db1 = "UpdateNextPayout (up 1) ((np + interval) * 1000) db"
  obtain txid where db': "db' = snd (AddPayout (\<lambda>n. up (n + 2)) txid (total_paid junk (payees_of ?db1)) PAYOUT_TX_FEE (np * 1000) (payees_of ?db1)
      (PAYOUT_TX_FEE div length (payees_of ?db1)) ?db1)" and ne: "payees_of ?db1 \<noteq> []"
    using assms(3) False unfolding payout_round_eq [OF assms(1)] by (auto simp: Let_def split: option.splits if_splits)
  have wf1: "ledger_wf ?db1" "balanced ?db1" using assms(1,2) by simp_all
  let ?ps = "take (debited_count (\<lambda>n. up (n + 2)) (total_paid junk (payees_of ?db1)) ?db1) (payees_of ?db1)"
  note rows = AddPayout_rows [OF wf1, where up = "\<lambda>n. up (n + 2)" and txid = txid and paid = "total_paid junk (payees_of ?db1)" and t = "np * 1000", folded db']
  have ids: "map row_miner (tb_miners db') = map row_miner (tb_miners db)" using rows(2) ne by simp
  then have idset: "row_miner ` set (tb_miners db') = row_miner ` set (tb_miners db)" by (metis list.set_map)
  have members: "pay_miner p \<in> row_miner ` set (tb_miners db)" if "p \<in> set ?ps" for p
    using that payees_of_fit [OF assms(1,2)] by (auto simp: payees_fit_def dest!: in_set_takeD)
  have ro: "records_ok db" using assms(1) by (simp add: ledger_wf_def)
  have old: "\<forall>i \<in> po_id ` set (tb_payouts db). i < next_payout_id db" using ro unfolding records_ok_def by blast
  have "tb_payouts db' = tb_payouts db \<and> next_payout_id db' = next_payout_id db \<or>
      po_id ` set (tb_payouts db') = insert (next_payout_id db) (po_id ` set (tb_payouts db)) \<and> next_payout_id db' = next_payout_id db + 1"
    using rows(8) ne by simp
  then have payouts: "\<forall>i \<in> po_id ` set (tb_payouts db'). i < next_payout_id db'" "po_id ` set (tb_payouts db) \<subseteq> po_id ` set (tb_payouts db')"
    using old id_less [OF assms(4)] by (metis insert_iff order.strict_trans, metis subset_insertI order_refl)
  have entries: "\<forall>e \<in> set (tb_entries db'). en_payout e \<in> po_id ` set (tb_payouts db') \<and> en_miner e \<in> row_miner ` set (tb_miners db)"
  proof
    fix e assume "e \<in> set (tb_entries db')"
    then consider "e \<in> set (tb_entries db)" | p where "p \<in> set ?ps" "e = entry_of (next_payout_id ?db1) p" using rows(5) ne by auto
    then show "en_payout e \<in> po_id ` set (tb_payouts db') \<and> en_miner e \<in> row_miner ` set (tb_miners db)"
    proof cases
      case 1
      then have "en_payout e \<in> po_id ` set (tb_payouts db)" "en_miner e \<in> row_miner ` set (tb_miners db)"
        using ro by (simp_all add: records_ok_def)
      then show ?thesis using payouts(2) by (simp only: subset_iff simp_thms)
    next
      case 2
      then have "?ps \<noteq> []" by (metis empty_iff empty_set)
      then show ?thesis using 2 members rows(7) ne by (simp add: entry_of_def)
    qed
  qed
  have "owed db' S m = owed db S m" for S m using rows(3,4) ne by (simp add: owed_def status_map_def cong: if_cong)
  then show ?thesis
    using rows(1,3,4,6) ne ro assms(1) ids idset payouts(1) entries by (simp add: ledger_wf_def records_ok_def)
qed

lemma ledger_inv: "ledger F db \<Longrightarrow> ledger_wf db \<and> balanced db"
proof (induction rule: ledger.induct)
  case (Empty db)
  then show ?case by (simp add: ledger_wf_def records_ok_def balanced_def owed_def)
next
  case (Miner db r)
  then show ?case using miner_ledger by blast
next
  case (Worker db ws)
  have "same_records db (db\<lparr>tb_workers := ws\<rparr>)" by (simp add: same_records_def)
  moreover have "owed (db\<lparr>tb_workers := ws\<rparr>) S m = owed db S m" for S m by (simp add: owed_def status_map_def cong: if_cong)
  ultimately show ?case using Worker same_records_wf by (auto simp: balanced_def debited_same)
next
  case (Closed db junk bs rs db')
  have ro: "records_ok db" and bal: "balanced db" using Closed.IH by (simp_all add: ledger_wf_def)
  obtain bid db1 where a: "AddBlockSubmission F True True junk bs db = (bid, db1)" by fastforce
  note blk = AddBlock_ledger [OF ro bal Closed(6,4,5) a]
  have r: "AddRoundRewards (\<lambda>n. True) (next_block_id db) rs db1 = (True, db')"
    using Closed(2) a blk(1) by (auto simp: SetClosedRound_def split: prod.splits bool.splits)
  have "\<forall>w \<in> set (tb_rewards db1). rw_block w \<noteq> next_block_id db" using ro blk(5) by (force simp: records_ok_def)
  then have "records_ok db' \<and> balanced db'"
    using blk Closed(3) by (intro AddRoundRewards_ledger [OF _ _ _ _ _ r]) (auto simp: immature_def)
  then show ?case using Closed(7) by (simp add: ledger_wf_def)
next
  case (Checked db up header h)
  then show ?case using check_ledger same_records_wf by blast
next
  case (Paid db up transfer junk interval np ps np' db')
  then show ?case using payout_ledger by blast
qed


definition ex_db :: "rat database" where
  "ex_db = \<lparr>tb_miners = [], tb_workers = [7], tb_blocks = [], tb_rewards = [], tb_payouts = [], tb_entries = [], next_block_id = 1,
     next_payout_id = 1, last_insert_id = 0, stat_mined = 0, stat_orphaned = 0, stat_duration_ms = 0, stat_effort_percent = 0,
     stat_payouts = 0, stat_paid = 0, stat_next_ms = 0\<rparr>"

definition ex_row :: miner_row where
  "ex_row = \<lparr>row_miner = 3, mature_balance = 0, immature_balance = 0, minimum_payout = 5, row_address = [65]\<rparr>"

definition ex_block :: "rat block_submission" where
  "ex_block = \<lparr>sub_miner = 3, sub_worker = 7, sub_reward = 500, sub_time_ms = 9, sub_duration_ms = 2, sub_height = 40, sub_difficulty = 1,
     sub_effort_percent = 1, sub_hash = []\<rparr>"

definition ex_closed :: "rat database" where
  "ex_closed = snd (SetClosedRound rat_ops (\<lambda>k. True) 0 ex_block [(3, \<lparr>r_effort = 1, r_share = 1, r_reward = 400000000\<rparr>)]
     (ex_db\<lparr>tb_miners := [ex_row]\<rparr>))"

lemmas ex_ledger_defs = ex_db_def ex_row_def ex_block_def ex_closed_def SetClosedRound_def AddBlockSubmission_def proc_AddBlock_def GetLastId_def
  proc_AddReward_def add_col_def HexlifyS_map

lemma ex_closed_eq:
  "tb_miners ex_closed = [ex_row\<lparr>immature_balance := 400000000\<rparr>]" "map overview (tb_blocks ex_closed) =
    [\<lparr>ov_id = 1, ov_height = 40, last_status = PENDING, ov_hash = []\<rparr>]"
  "tb_rewards ex_closed = [\<lparr>rw_miner = 3, rw_block = 1, rw_amount = 400000000, rw_effort = 1\<rparr>]"
  "fst (SetClosedRound rat_ops (\<lambda>k. True) 0 ex_block [(3, \<lparr>r_effort = 1, r_share = 1, r_reward = 400000000\<rparr>)] (ex_db\<lparr>tb_miners := [ex_row]\<rparr>)) = ROUND_OK"
  "tb_entries ex_closed = []"
  by (simp_all add: ex_ledger_defs overview_def Let_def rat_ops_def)

lemma ex_closed_ledger: "ledger rat_ops ex_closed"
proof (rule ledger.Closed)
  have "ledger rat_ops ex_db" by (rule ledger.Empty) (simp_all add: ex_db_def)
  from ledger.Miner [OF this, of ex_row] show "ledger rat_ops (ex_db\<lparr>tb_miners := [ex_row]\<rparr>)" by (simp add: ex_db_def ex_row_def)
  show "SetClosedRound rat_ops (\<lambda>k. True) 0 ex_block [(3, \<lparr>r_effort = 1, r_share = 1, r_reward = 400000000\<rparr>)] (ex_db\<lparr>tb_miners := [ex_row]\<rparr>) =
      (ROUND_OK, ex_closed)" using ex_closed_eq(4) by (metis ex_closed_def prod.collapse)
  show "\<forall>m. owed ex_closed (\<lambda>s. True) m < 2 ^ 64" by (simp add: owed_def ex_closed_eq)
qed (simp_all add: ex_db_def ex_row_def ex_block_def)


section \<open>A watcher that is not restarted\<close>

text \<open>The miners after a block's rewards have been moved \<open>k\<close> times.\<close>

definition move :: "'f database \<Rightarrow> u32 \<Rightarrow> nat \<Rightarrow> miner_row \<Rightarrow> miner_row" where
  "move db i k r = r\<lparr>immature_balance := immature_balance r - k * reward_amount db (row_miner r) i,
     mature_balance := mature_balance r + k * reward_amount db (row_miner r) i\<rparr>"

definition can_move :: "'f database \<Rightarrow> u32 \<Rightarrow> nat \<Rightarrow> bool" where
  "can_move db i k \<longleftrightarrow> (\<forall>r \<in> set (tb_miners db). k * reward_amount db (row_miner r) i \<le> immature_balance r \<and>
     mature_balance r + k * reward_amount db (row_miner r) i < 2 ^ 64)"

lemma move_once:
  assumes "can_move db i 1"
  shows "tb_miners (UpdateImmatureRewards True i CONFIRMED db) = map (move db i 1) (tb_miners db) \<and>
    tb_rewards (UpdateImmatureRewards True i CONFIRMED db) = tb_rewards db"
proof -
  have "update_where (\<lambda>r. reward_of (row_miner r) i (tb_rewards db) \<noteq> None)
      (\<lambda>r. mature_row (rw_amount (the (reward_of (row_miner r) i (tb_rewards db)))) CONFIRMED r) (tb_miners db) =
    Some (map (move db i 1) (tb_miners db))"
    using assms by (subst update_where_map)
      (fastforce simp: mature_row_def sub_col_def add_col_def reward_amount_def can_move_def move_def split: option.splits)+
  then show ?thesis by (simp add: UpdateImmatureRewards_def proc_MatureRewards_def)
qed

lemma check_copies:
  assumes "can_move db (ov_id s) k" and "ov_height s + COINBASE_MATURITY < h" and "\<And>n. header n (ov_height s) = Some (ov_hash s, depth)"
    and "10 < sint depth"
  shows "\<exists>db'. check_loop (\<lambda>n k. True) header h n (replicate k s) db = ([], db') \<and>
    tb_miners db' = map (move db (ov_id s) k) (tb_miners db)"
  using assms(1)
proof (induction k arbitrary: n db)
  case 0
  have "move db (ov_id s) 0 = (\<lambda>r. r)" by (simp add: move_def fun_eq_iff)
  then show ?case by simp
next
  case (Suc k)
  let ?i = "ov_id s"
  define db1 where "db1 = UpdateBlockStatus True ?i CONFIRMED (UpdateImmatureRewards True ?i CONFIRMED db)"
  have "can_move db ?i 1" using Suc.prems by (fastforce simp: can_move_def)
  then have one: "tb_miners db1 = map (move db ?i 1) (tb_miners db)" "tb_rewards db1 = tb_rewards db"
    using move_once [of db ?i] by (simp_all add: db1_def)
  then have "reward_amount db1 = reward_amount db" by (simp add: reward_amount_def fun_eq_iff)
  then have move: "move db1 ?i k (move db ?i 1 r) = move db ?i (Suc k) r" "can_move db1 ?i k" for r
    using Suc.prems one(1) by (fastforce simp: move_def can_move_def)+
  have "check_one (\<lambda>k. True) (Some (ov_hash s, depth)) h s db = (False, db1)"
    using assms(2,4) by (simp add: check_one_def Let_def COINBASE_MATURITY_def db1_def)
  then show ?case using Suc.IH [OF move(2), of "n + 1"] assms(3) by (auto simp: one(1) move(1) [unfolded One_nat_def])
qed

text \<open>A run of checks by one watcher, at the given heights.\<close>

definition watch :: "(nat \<Rightarrow> u32 \<Rightarrow> (u8 list \<times> u32) option) \<Rightarrow> u32 list \<Rightarrow> block_overview list \<times> 'f database \<Rightarrow> block_overview list \<times> 'f database" where
  "watch header hs = fold (CheckImmatureSubmissions True (\<lambda>n k. True) header) hs"

lemma watch_waiting:
  assumes "filter (\<lambda>b. blk_status b \<in> {PENDING, PENDING_ORPHANED}) (tb_blocks db) = [b]"
    and "\<And>n. header n (blk_height b) = Some (blk_hash b, depth)" and "\<not> blk_height b + COINBASE_MATURITY < h"
  shows "watch header (replicate k h) (replicate j (overview b), db) = (replicate (j + k) (overview b), db)"
proof -
  have "check_loop (\<lambda>n k. True) header h n (replicate m (overview b)) db = (replicate m (overview b), db)" for m n
    using assms(2,3) by (induction m arbitrary: n) (simp_all add: check_one_def overview_def)
  moreover have "LoadImmatureBlocks True db (replicate m (overview b)) = replicate (Suc m) (overview b)" for m
    using assms(1) by (simp add: LoadImmatureBlocks_def replicate_append_same)
  ultimately have "CheckImmatureSubmissions True (\<lambda>n k. True) header h (replicate m (overview b), db) = (replicate (Suc m) (overview b), db)" for m
    by (simp only: CheckImmatureSubmissions_def prod.case)
  then show ?thesis unfolding watch_def by (induction k arbitrary: j) (simp_all del: replicate_Suc)
qed



section \<open>Payments\<close>


definition ex_matured :: "rat database" where
  "ex_matured = snd (CheckImmatureSubmissions True (\<lambda>n k. True) (\<lambda>n i. Some ([], 11)) 51 ([], ex_closed))"

lemma ex_matured_miners: "tb_miners ex_matured = [ex_row\<lparr>mature_balance := 400000000\<rparr>]"
proof -
  obtain b where b: "tb_blocks ex_closed = [b]" "overview b = \<lparr>ov_id = 1, ov_height = 40, last_status = PENDING, ov_hash = []\<rparr>"
    using ex_closed_eq(2) by auto
  then have "blk_status b = PENDING" by (simp add: overview_def)
  then have "LoadImmatureBlocks True ex_closed [] = [\<lparr>ov_id = 1, ov_height = 40, last_status = PENDING, ov_hash = []\<rparr>]"
    using b by (simp add: LoadImmatureBlocks_def)
  then show ?thesis
    by (simp add: ex_matured_def CheckImmatureSubmissions_def check_one_def Let_def COINBASE_MATURITY_def UpdateImmatureRewards_def
        proc_MatureRewards_def ex_closed_eq reward_of_def mature_row_def sub_col_def add_col_def ex_row_def)
qed


section \<open>Blocks the server finds\<close>

text \<open>
  \<open>CloseRound\<close> hands an empty map of rewards to \<open>SetClosedRound\<close>: a block that is found is recorded with its hash, height and
  reward, and no miner is owed anything for it.
\<close>

lemma closed_round_no_rewards:
  assumes "ledger F db" and "next_block_id db \<noteq> - 1" and "sub_worker bs \<in> set (tb_workers db)" and "sub_miner bs \<in> row_miner ` set (tb_miners db)"
    and "SetClosedRound F (\<lambda>k. True) junk bs [] db = (res, db')"
  shows "res = ROUND_OK \<and> tb_rewards db' = tb_rewards db \<and> (\<exists>b. tb_blocks db' = tb_blocks db @ [b] \<and> blk_id b = next_block_id db \<and>
    blk_status b = PENDING \<and> blk_hash b = HexlifyS (sub_hash bs) \<and> blk_height b = sub_height bs \<and> blk_reward b = sub_reward bs)"
proof -
  obtain bid db1 where a: "AddBlockSubmission F True True junk bs db = (bid, db1)" by fastforce
  have "records_ok db" "balanced db" using ledger_inv [OF assms(1)] by (simp_all add: ledger_wf_def)
  note blk = AddBlock_ledger [OF this assms(2-4) a]
  have "res = ROUND_OK" "db' = db1" using assms(5) blk(1) by (simp_all add: SetClosedRound_def a)
  then show ?thesis using blk(5,6) by blast
qed

end
