(* ===== verification/Server_Events.thy ===== *)
theory Server_Events
  imports Prelude
begin

text \<open>
  The life of a connection in \<^verbatim>\<open>src/src/stratum/server.cpp\<close>: \<open>Service\<close> waits for socket events and then for timer events, handles each,
  and erases the connection if that fails. Sockets and timers are registered for one event at a time (\<open>EPOLLONESHOT\<close>) and armed again after
  it. Every worker thread runs \<open>Service\<close> in a loop; a step of a thread is what it does between two points at which another can
  interfere. An event carries a pointer into the connection: to follow it after the connection has been erased is a crash.
  A connection is a number that is not used again.
\<close>

section \<open>The code\<close>

text \<open>
  Where a thread is in \<open>Service\<close>: between two calls, with socket events left, after a socket has been armed again and before
  its timer is reset, or with timer events left.
\<close>

datatype phase = Idle | Socks "nat list" | Served nat "nat list" | Timers "nat list"

record pool_server =
  connections :: "nat list"
  sock_armed :: "nat set"
  timer_armed :: "nat set"
  phases :: "nat \<Rightarrow> phase"
  crashed :: bool

definition server_new :: pool_server where
  "server_new = \<lparr>connections = [], sock_armed = {}, timer_armed = {}, phases = (\<lambda>t. Idle), crashed = False\<rparr>"

definition set_phase :: "nat \<Rightarrow> phase \<Rightarrow> pool_server \<Rightarrow> pool_server" where
  "set_phase t p s = s\<lparr>phases := (phases s)(t := p)\<rparr>"

definition HandleNewConnection :: "bool \<Rightarrow> nat \<Rightarrow> pool_server \<Rightarrow> pool_server" where
  "HandleNewConnection ok c s =
    (if ok then s\<lparr>connections := connections s @ [c], sock_armed := insert c (sock_armed s), timer_armed := insert c (timer_armed s)\<rparr> else s)"

definition EraseClient :: "nat \<Rightarrow> pool_server \<Rightarrow> pool_server" where
  "EraseClient c s = s\<lparr>connections := filter (\<lambda>d. d \<noteq> c) (connections s), sock_armed := sock_armed s - {c}, timer_armed := timer_armed s - {c}\<rparr>"

text \<open>\<open>epoll_wait\<close> on the sockets: the events are delivered once.\<close>

definition wait_socks :: "nat \<Rightarrow> nat list \<Rightarrow> pool_server \<Rightarrow> pool_server" where
  "wait_socks t es s = set_phase t (Socks es) (s\<lparr>sock_armed := sock_armed s - set es\<rparr>)"

definition wait_timers :: "nat \<Rightarrow> nat list \<Rightarrow> pool_server \<Rightarrow> pool_server" where
  "wait_timers t es s = set_phase t (Timers es) (s\<lparr>timer_armed := timer_armed s - set es\<rparr>)"

text \<open>\<open>HandleEvent\<close>; if it succeeds it has armed the socket again.\<close>

definition serve_sock :: "nat \<Rightarrow> bool \<Rightarrow> nat \<Rightarrow> nat list \<Rightarrow> pool_server \<Rightarrow> pool_server" where
  "serve_sock t ok c es s =
    (if c \<notin> set (connections s) then s\<lparr>crashed := True\<rparr>
     else if ok then set_phase t (Served c es) (s\<lparr>sock_armed := insert c (sock_armed s)\<rparr>)
     else set_phase t (Socks es) (EraseClient c s))"

text \<open>The expiration count and the timer are reset through the pointer of the event.\<close>

definition reset_timer :: "nat \<Rightarrow> nat \<Rightarrow> nat list \<Rightarrow> pool_server \<Rightarrow> pool_server" where
  "reset_timer t c es s = (if c \<notin> set (connections s) then s\<lparr>crashed := True\<rparr> else set_phase t (Socks es) s)"

text \<open>\<open>read\<close>, \<open>HandleTimeout\<close> and \<open>RearmFd\<close>; what follows uses a copy of the shared pointer.\<close>

definition serve_timer :: "nat \<Rightarrow> bool \<Rightarrow> nat \<Rightarrow> nat list \<Rightarrow> pool_server \<Rightarrow> pool_server" where
  "serve_timer t ok c es s =
    (if c \<notin> set (connections s) then s\<lparr>crashed := True\<rparr>
     else if ok then set_phase t (Timers es) (s\<lparr>timer_armed := insert c (timer_armed s)\<rparr>)
     else set_phase t (Timers es) (EraseClient c s))"

section \<open>Threads\<close>

text \<open>The steps of \<open>n\<close> worker threads; \<open>used\<close> are the numbers of all connections there have been.\<close>

inductive serves :: "nat \<Rightarrow> nat set \<Rightarrow> pool_server \<Rightarrow> bool" for n where
  Start: "serves n {} server_new"
| Accept: "serves n used s \<Longrightarrow> c \<notin> used \<Longrightarrow> serves n (insert c used) (HandleNewConnection ok c s)"
| Wait_socks: "serves n used s \<Longrightarrow> t < n \<Longrightarrow> phases s t = Idle \<Longrightarrow> distinct es \<Longrightarrow> set es \<subseteq> sock_armed s \<Longrightarrow> serves n used (wait_socks t es s)"
| Serve_sock: "serves n used s \<Longrightarrow> t < n \<Longrightarrow> phases s t = Socks (c # es) \<Longrightarrow> serves n used (serve_sock t ok c es s)"
| Reset_timer: "serves n used s \<Longrightarrow> t < n \<Longrightarrow> phases s t = Served c es \<Longrightarrow> serves n used (reset_timer t c es s)"
| Wait_timers: "serves n used s \<Longrightarrow> t < n \<Longrightarrow> phases s t = Socks [] \<Longrightarrow> distinct es \<Longrightarrow> set es \<subseteq> timer_armed s \<Longrightarrow> serves n used (wait_timers t es s)"
| Serve_timer: "serves n used s \<Longrightarrow> t < n \<Longrightarrow> phases s t = Timers (c # es) \<Longrightarrow> serves n used (serve_timer t ok c es s)"
| Finish: "serves n used s \<Longrightarrow> t < n \<Longrightarrow> phases s t = Timers [] \<Longrightarrow> serves n used (set_phase t Idle s)"

lemmas server_defs = server_new_def set_phase_def HandleNewConnection_def EraseClient_def wait_socks_def wait_timers_def serve_sock_def
  reset_timer_def serve_timer_def

text \<open>What a thread still holds.\<close>

fun held :: "phase \<Rightarrow> nat list" where
  "held Idle = []"
| "held (Socks es) = es"
| "held (Served c es) = c # es"
| "held (Timers es) = es"

definition served_ok :: "nat set \<Rightarrow> pool_server \<Rightarrow> bool" where
  "served_ok used s \<longleftrightarrow> \<not> crashed s \<and> set (connections s) \<subseteq> used \<and> sock_armed s \<subseteq> set (connections s) \<and>
     timer_armed s \<subseteq> set (connections s) \<and> set (held (phases s 0)) \<subseteq> set (connections s) \<and> distinct (held (phases s 0))"

lemma serves_one: "serves 1 used s \<Longrightarrow> served_ok used s"
proof (induction rule: serves.induct)
  case (Accept used s c ok)
  then show ?case by (auto simp: served_ok_def server_defs)
next
  case (Serve_sock used s t c es ok)
  then show ?case by (auto simp: served_ok_def server_defs)
next
  case (Serve_timer used s t c es ok)
  then show ?case by (auto simp: served_ok_def server_defs)
qed (auto simp: served_ok_def server_defs)

text \<open>Two threads, one connection: one has taken its timer event when the other finds the socket closed.\<close>

definition race :: pool_server where
  "race = (let s = wait_socks 0 [] (HandleNewConnection True 0 server_new); s = wait_timers 0 [0] s;
      s = wait_socks 1 [0] s; s = serve_sock 1 False 0 [] s in serve_timer 0 True 0 [] s)"

lemma race_serves: "serves 2 {0} race"
proof -
  let ?s1 = "HandleNewConnection True 0 server_new"
  let ?s2 = "wait_socks 0 [] ?s1"
  let ?s3 = "wait_timers 0 [0] ?s2"
  let ?s4 = "wait_socks 1 [0] ?s3"
  let ?s5 = "serve_sock 1 False 0 [] ?s4"
  have "serves 2 {0} ?s1" using serves.Accept [OF serves.Start, of 0 2 True] by simp
  then have "serves 2 {0} ?s2" by (rule serves.Wait_socks) (simp_all add: server_defs)
  then have "serves 2 {0} ?s3" by (rule serves.Wait_timers) (simp_all add: server_defs)
  then have "serves 2 {0} ?s4" by (rule serves.Wait_socks) (simp_all add: server_defs)
  then have "serves 2 {0} ?s5" by (rule serves.Serve_sock) (simp_all add: server_defs)
  then have "serves 2 {0} (serve_timer 0 True 0 [] ?s5)" by (rule serves.Serve_timer) (simp_all add: server_defs)
  then show ?thesis by (simp add: race_def Let_def)
qed

text \<open>C11: with one worker thread, whatever connections come, whatever events arrive and whichever of them fail, no event is
  ever handled for a connection that has been erased. With two worker threads, which is the number the server starts, it happens: one
  thread holds the timer event of a connection while the other erases it.\<close>

theorem service_threads:
  "(\<forall>used s. serves 1 used s \<longrightarrow> \<not> crashed s) \<and> (\<exists>used s. serves 2 used s \<and> crashed s)"
proof -
  have "crashed race" by (simp add: race_def Let_def server_defs)
  then show ?thesis using race_serves serves_one by (auto simp: served_ok_def)
qed

theorem service_threads_witness:
  "serves 1 {0} (HandleNewConnection True 0 server_new) \<and> \<not> crashed (HandleNewConnection True 0 server_new)"
proof -
  have "serves 1 {0} (HandleNewConnection True 0 server_new)" using serves.Accept [OF serves.Start, of 0 1 True] by simp
  then show ?thesis using service_threads by blast
qed

end
