(* ===== verification/Round_Store.thy ===== *)
theory Round_Store
  imports Stratum_Client
begin

text \<open>
  What the pool keeps of a round in the key-value store, \<^verbatim>\<open>src/src/round/redis_round.cpp\<close>: \<open>GetCurrentRound\<close>, which starts the round manager
  and calls itself until the fields it needs exist, and the writers of these fields. The fields of the hash \<open>round_stats\<close> are a
  map; how numbers are printed and read is the record \<open>num_text\<close>. \<open>None\<close> is undefined behaviour.
\<close>

datatype round_field = START_TIME | TOTAL_EFFORT | ESTIMATED_EFFORT

record 'f num_text =
  to_string :: "'f \<Rightarrow> u8 list"
  stoll :: "u8 list \<Rightarrow> int"
  stod :: "u8 list \<Rightarrow> 'f"

type_synonym round_store = "round_field \<Rightarrow> u8 list option"

definition AppendSetRoundInfo :: "'f num_text \<Rightarrow> round_field \<Rightarrow> 'f \<Rightarrow> round_store \<Rightarrow> round_store" where
  "AppendSetRoundInfo N field val m = m(field \<mapsto> to_string N val)"

text \<open>The start of the round and its estimated effort, and the store; the total effort is looked up and not used.\<close>

function GetCurrentRound ::
  "'f float_ops \<Rightarrow> 'f num_text \<Rightarrow> int \<Rightarrow> round_store \<Rightarrow> (int \<times> 'f \<times> round_store) option" where
  "GetCurrentRound F N now m =
    (case m TOTAL_EFFORT of
      None \<Rightarrow> GetCurrentRound F N now (AppendSetRoundInfo N TOTAL_EFFORT (f_lit F 0) m)
    | Some total_effort \<Rightarrow>
        (case m START_TIME of
          None \<Rightarrow> GetCurrentRound F N now (AppendSetRoundInfo N START_TIME (f_of_s64 F now) m)
        | Some start_time \<Rightarrow>
            (case m ESTIMATED_EFFORT of
              None \<Rightarrow> None
            | Some estimated \<Rightarrow> Some (stoll N start_time, stod N estimated, m))))"
  by pat_completeness auto
termination
  by (relation "measure (\<lambda>(F, N, now, m). card ({TOTAL_EFFORT, START_TIME} - dom m))")
    (auto simp: AppendSetRoundInfo_def intro!: psubset_card_mono)

declare GetCurrentRound.simps [simp del]

definition SetClosedRound_store :: "'f float_ops \<Rightarrow> 'f num_text \<Rightarrow> int \<Rightarrow> round_store \<Rightarrow> round_store" where
  "SetClosedRound_store F N time_ms m = AppendSetRoundInfo N TOTAL_EFFORT (f_lit F 0) (AppendSetRoundInfo N START_TIME (f_of_s64 F time_ms) m)"

definition SetNewBlockStats :: "'f num_text \<Rightarrow> 'f \<Rightarrow> round_store \<Rightarrow> round_store" where
  "SetNewBlockStats N target_diff m = AppendSetRoundInfo N ESTIMATED_EFFORT target_diff m"

lemma GetCurrentRound_complete:
  assumes "m TOTAL_EFFORT \<noteq> None" and "m START_TIME = Some s"
  shows "GetCurrentRound F N now m = map_option (\<lambda>e. (stoll N s, stod N e, m)) (m ESTIMATED_EFFORT)"
  using assms by (subst GetCurrentRound.simps) (auto split: option.splits)

text \<open>
  Whatever the store contains, the recursion ends; it is undefined exactly if no estimated effort has been stored, as on the first start, before
  the first job. Otherwise the round starts where the store says, or now, and reading it again gives the same round.
\<close>

lemma GetCurrentRound_result:
  "GetCurrentRound F N now m =
    (case m ESTIMATED_EFFORT of None \<Rightarrow> None
     | Some e \<Rightarrow>
         let start_text = (case m START_TIME of None \<Rightarrow> to_string N (f_of_s64 F now) | Some s \<Rightarrow> s);
             m' = m(START_TIME \<mapsto> start_text, TOTAL_EFFORT \<mapsto> (case m TOTAL_EFFORT of None \<Rightarrow> to_string N (f_lit F 0) | Some t \<Rightarrow> t))
         in Some (stoll N start_text, stod N e, m'))"
proof -
  have start: "GetCurrentRound F N now m = map_option (\<lambda>e. (stoll N (case m START_TIME of None \<Rightarrow> to_string N (f_of_s64 F now) | Some s \<Rightarrow> s),
      stod N e, m(START_TIME \<mapsto> case m START_TIME of None \<Rightarrow> to_string N (f_of_s64 F now) | Some s \<Rightarrow> s))) (m ESTIMATED_EFFORT)"
    if "m TOTAL_EFFORT = Some t" for m t
  proof (cases "m START_TIME")
    case None
    have "GetCurrentRound F N now m = GetCurrentRound F N now (AppendSetRoundInfo N START_TIME (f_of_s64 F now) m)"
      using that None by (subst GetCurrentRound.simps) simp
    then show ?thesis using that None GetCurrentRound_complete [of "AppendSetRoundInfo N START_TIME (f_of_s64 F now) m" "to_string N (f_of_s64 F now)" F N now]
      by (simp add: AppendSetRoundInfo_def)
  next
    case (Some s)
    then show ?thesis using that GetCurrentRound_complete [of m s] by (simp add: fun_upd_idem)
  qed
  show ?thesis
  proof (cases "m TOTAL_EFFORT")
    case None
    have "GetCurrentRound F N now m = GetCurrentRound F N now (AppendSetRoundInfo N TOTAL_EFFORT (f_lit F 0) m)"
      using None by (subst GetCurrentRound.simps) simp
    then show ?thesis using None start [of "AppendSetRoundInfo N TOTAL_EFFORT (f_lit F 0) m"]
      by (auto simp: AppendSetRoundInfo_def Let_def fun_upd_twist split: option.splits)
  next
    case (Some t)
    then have "m(START_TIME \<mapsto> x, TOTAL_EFFORT \<mapsto> t) = m(START_TIME \<mapsto> x)" for x by (auto simp: fun_eq_iff)
    then show ?thesis using Some start [of m t] by (simp add: Let_def split: option.splits)
  qed
qed

text \<open>After a job has been seen the round can be loaded, and after a round was closed it starts at the time of its block.\<close>

lemma closed_round_loaded:
  "\<exists>m'. GetCurrentRound F N now (SetClosedRound_store F N t (SetNewBlockStats N d m)) =
    Some (stoll N (to_string N (f_of_s64 F t)), stod N (to_string N d), m')"
  by (simp add: GetCurrentRound_result SetClosedRound_store_def SetNewBlockStats_def AppendSetRoundInfo_def Let_def)

end
