(* ===== verification/Spec2Isabelle.thy ===== *)
theory Spec2Isabelle
  imports Tree_Hash Chacha8 Primes Random_Prng Ripemd160 Sph_Sha2 Daemon_Rpc Pool_Ledger Server_Events Round_Store
begin

text \<open>
  \<^bold>\<open>SickPool.\<close> A verification library for the mining pool under \<^verbatim>\<open>src/\<close>.

  \<^bold>\<open>The program.\<close> Miners hold TCP connections to the stratum server. \<^verbatim>\<open>stratum/server.cpp\<close> receives into a buffer per connection and
  \<^verbatim>\<open>stratum/stratum_server.cpp\<close> cuts it into lines, each a JSON request; \<^verbatim>\<open>stratum_server_zec.cpp\<close> (VRSC) and
  \<^verbatim>\<open>stratum_server_cn.cpp\<close> (ZANO) dispatch them. A daemon delivers block templates, from which \<^verbatim>\<open>jobs/\<close> builds the jobs that are handed
  out. A share is checked by \<^verbatim>\<open>shares/share_processor.hpp\<close> against its job, counted by \<^verbatim>\<open>stats/\<close>, credited by \<^verbatim>\<open>round/\<close>, and
  submitted to the daemon if it solves a block. The difficulty of a client follows its share rate (\<^verbatim>\<open>difficulty/\<close>). Two further
  processes work on the database: the block watcher (\<^verbatim>\<open>blocks/\<close>) decides when rewards mature, and the payment process
  (\<^verbatim>\<open>payouts/\<close>) pays balances. The hash functions below are under \<^verbatim>\<open>crypto/\<close>.

  \<^bold>\<open>How the model is made.\<close> Every operation is a function from the state it reads to the state it leaves; a class is a record, an enumeration a
  datatype. Integers have the width of the source (\<open>u8\<close>, \<open>u32\<close>, \<open>u64\<close>) and wrap as there. Mutexes make the modelled operations
  atomic, so concurrency is the order of operations. \<open>None\<close> stands for undefined behaviour or a failed assertion where a theory says so.
  Floating point arithmetic is a parameter, the record \<open>float_ops\<close>: theorems hold for any arithmetic, except those about exact amounts, which
  use \<open>rat_ops\<close> (the formulas before rounding). What is not under \<^verbatim>\<open>src/\<close> or not modelled enters as a parameter: the proof of work and
  block format (\<open>cn_lib\<close>, a function \<open>hash\<close>), answers of daemon, wallet, database and clock, results of \<open>recv\<close>, and the
  contents of uninitialised memory (\<open>junk\<close>). All loops are total functions, with a measure where the recursion is not structural; there is no fuel.

  \<^bold>\<open>The theories.\<close>

  \<^item> \<^verbatim>\<open>Prelude\<close>: the types of words, loading and storing bytes, rotations, and the lemmas the others share.

  \<^item> \<^verbatim>\<open>Stratum_Conn\<close>: the receive loop and the cutting into lines. The buffer is never overrun, and the handler sees exactly the lines of the stream
  however the network cuts it.

  \<^item> \<^verbatim>\<open>Server_Events\<close>: the event loop of the worker threads as a step relation. One thread never follows a pointer to an erased connection, two can.

  \<^item> \<^verbatim>\<open>Daemon_Rpc\<close>: the HTTP client for the daemon. A reply is put together however it is cut, up to the size of the header buffer.

  \<^item> \<^verbatim>\<open>Hex_Utils\<close>, \<^verbatim>\<open>Script_Num\<close>, \<^verbatim>\<open>Base58\<close>, \<^verbatim>\<open>Difficulty_Hex\<close>: conversions (\<^verbatim>\<open>utils/hex_utils.hpp\<close>, \<^verbatim>\<open>crypto/utils.hpp\<close>,
  \<^verbatim>\<open>crypto/base58.cpp\<close>), with round trips, sizes of buffers and the range in which a difficulty has a target.

  \<^item> \<^verbatim>\<open>Job_Manager\<close>: the jobs that are handed out. The last job is always kept, a new height drops all earlier ones.

  \<^item> \<^verbatim>\<open>Zec_Job\<close>: a VRSC job from the template to the notify message, the header of a share and the block; \<^verbatim>\<open>Merkle\<close>: its Merkle root.

  \<^item> \<^verbatim>\<open>Stratum_Client\<close>: a connected client and its difficulty controller.

  \<^item> \<^verbatim>\<open>Pool_Accounting\<close>: worker statistics, rounds, and the two reward schemes with the exactness of the payout.

  \<^item> \<^verbatim>\<open>Share_Core\<close>: \<open>HandleShare\<close> and what it calls, over a record \<open>protocol\<close> of what the coins choose. The locale
  \<open>share_protocol\<close> states what a protocol owes the handler; what becomes of a share, and that none is credited twice, is proved there once.
  \<^verbatim>\<open>Share_Handler\<close> interprets it for VRSC and \<^verbatim>\<open>Stratum_Cn\<close> for ZANO.

  \<^item> \<^verbatim>\<open>Stratum_Server\<close>: authorization, subscription, the broadcast of a new job and the dispatch of requests; a whole session has no undefined
  behaviour if submissions are complete. \<^verbatim>\<open>Stratum_Cn\<close>: the same requests for ZANO, and its jobs.

  \<^item> \<^verbatim>\<open>Pool_Database\<close>: tables and stored procedures (\<^verbatim>\<open>src/scripts/setup/procedures.sql\<close>) and \<^verbatim>\<open>mysql_manager.cpp\<close>; \<^verbatim>\<open>Block_Watcher\<close>: closed
  rounds, the watcher and a payment; \<^verbatim>\<open>Pool_Ledger\<close>: the reachable states of the database, in which the balances agree with the rewards, what a
  payment does, and what a watcher does that keeps its vector. \<^verbatim>\<open>Round_Store\<close>: the current round in the key-value store.

  \<^item> \<^verbatim>\<open>Keccak_Perm\<close>, \<^verbatim>\<open>Keccak_Sponge\<close>, \<^verbatim>\<open>Hash_Tree\<close>, \<^verbatim>\<open>Tree_Hash\<close>, \<^verbatim>\<open>Chacha8\<close>, \<^verbatim>\<open>Random_Prng\<close>, \<^verbatim>\<open>Primes\<close>: the C code of CryptoNote and
  Ethash, against the permutation and sponge of FIPS 202 and other reference definitions.

  \<^item> \<^verbatim>\<open>Md_Stream\<close>: a locale for hash functions of the Merkle-Damgard kind, interpreted on each implementation; \<^verbatim>\<open>Ripemd160_Compress\<close>,
  \<^verbatim>\<open>Ripemd160\<close>, \<^verbatim>\<open>Sha2_Ref\<close>, \<^verbatim>\<open>Sha256_Impl\<close>, \<^verbatim>\<open>Sha256_Sph\<close>, \<^verbatim>\<open>Sha256\<close>, \<^verbatim>\<open>Sha512_Sph\<close>, \<^verbatim>\<open>Sph_Md\<close>, \<^verbatim>\<open>Sph_Sha2\<close>:
  one-shot and streaming implementations compute the reference functions, however a message is cut.

  \<^bold>\<open>What the theorems rest on.\<close> Messages and files are shorter than the length counters of the hash functions; automatically incremented
  identifiers are not used up; the sum of a miner's rewards fits 64 bits. Every such bound is a hypothesis of the theorem that needs it.

  \<^bold>\<open>Not modelled.\<close> VerusHash, ProgPoW and the rest of Ethash, the other functions of sphlib, the CryptoNote block format and the epee library
  are vendored code (mostly tables and processor intrinsics) of which the pool uses single functions, parameters here. The JSON library, most of the
  key-value store, the SQL server's string comparison, sockets, timers, threads, the logger and the configuration reader are system or library calls.
  The BTC protocol is not instantiated. Floating point rounding is not modelled.
\<close>

end
